(* ===== verification/Prelude.thy ===== *)
theory Prelude
  imports Complex_Main "HOL-Library.Word" "HOL-Library.Multiset" "HOL-Library.Char_ord"
    "HOL-Library.List_Lexorder" "HOL-Library.Product_Lexorder" "HOL-Library.AList"
begin

text \<open>
  Shared base of the development: what the controller uses of the Go language and of its
  standard library, and the generic lemmas the components share.

  \<^item> Machine integers: \<open>int64\<close> and \<open>int32\<close> are words read as two's complement with
    \<open>sint\<close>; \<open>int\<close> values that only count in-memory objects are HOL integers.
  \<^item> A Go map that is only read and written by key is a HOL map; a Go map that is ranged over
    is an association list with distinct keys, and the unspecified iteration order of a
    \<open>range\<close> is an explicit parameter, a function that permutes the entries (\<open>is_iter\<close>).
  \<^item> \<open>sort.SliceStable\<close> is stable insertion by the code's own comparison.
  \<^item> A run-time panic is \<open>None\<close> of the option type.
\<close>

named_theorems wf_simps "well-formedness of stores and API objects"
named_theorems frame_simps "what an operation leaves unchanged"

type_synonym int64 = "64 word"
type_synonym int32 = "32 word"

text \<open>Instants are nanoseconds since the Go zero time (January 1, year 1, UTC); durations are
  \<open>int64\<close> nanoseconds.\<close>

type_synonym go_time = int
type_synonym duration = int64

definition zero_time :: go_time where
  "zero_time = 0"

definition nanos_per_second :: int64 where
  "nanos_per_second = 1000000000"

text \<open>\<open>t.Add(d)\<close>, \<open>t.Before(u)\<close>, \<open>t.After(u)\<close> and \<open>t.Sub(u)\<close> of package time; the
  difference saturates at the ends of the \<open>int64\<close> range.\<close>

definition time_add :: "go_time \<Rightarrow> duration \<Rightarrow> go_time" where
  "time_add t d = t + sint d"

definition time_before :: "go_time \<Rightarrow> go_time \<Rightarrow> bool" where
  "time_before t u \<longleftrightarrow> t < u"

definition time_after :: "go_time \<Rightarrow> go_time \<Rightarrow> bool" where
  "time_after t u \<longleftrightarrow> u < t"

definition time_sub :: "go_time \<Rightarrow> go_time \<Rightarrow> duration" where
  "time_sub t u = word_of_int (max (- (2 ^ 63)) (min (2 ^ 63 - 1) (t - u)))"

section \<open>Machine integers\<close>

lemma sint_int64_range: "- (2 ^ 63) \<le> sint (w :: int64)" "sint (w :: int64) < 2 ^ 63"
  using sint_greater_eq [of w] sint_less [of w] by simp_all

lemma sint_int32_range: "- (2 ^ 31) \<le> sint (w :: int32)" "sint (w :: int32) < 2 ^ 31"
  using sint_greater_eq [of w] sint_less [of w] by simp_all

lemma sint_of_int64:
  assumes "- (2 ^ 63) \<le> i" "i < 2 ^ 63"
  shows "sint (word_of_int i :: int64) = i"
  using assms by (simp add: sint_sbintrunc' signed_take_bit_int_eq_self)

lemma sint_of_int32:
  assumes "- (2 ^ 31) \<le> i" "i < 2 ^ 31"
  shows "sint (word_of_int i :: int32) = i"
  using assms by (simp add: sint_sbintrunc' signed_take_bit_int_eq_self)

lemma sint_plus_int64:
  assumes "- (2 ^ 63) \<le> sint a + sint b" "sint a + sint b < 2 ^ 63"
  shows "sint (a + b :: int64) = sint a + sint b"
proof -
  have "a + b = word_of_int (sint a + sint b)" by simp
  then show ?thesis using sint_of_int64 [OF assms] by simp
qed

lemma sint_times_int64:
  assumes "- (2 ^ 63) \<le> sint a * sint b" "sint a * sint b < 2 ^ 63"
  shows "sint (a * b :: int64) = sint a * sint b"
proof -
  have "a * b = word_of_int (sint a * sint b)" by simp
  then show ?thesis using sint_of_int64 [OF assms] by simp
qed

lemma sint_scast_int32_int64: "sint (scast (w :: int32) :: int64) = sint w"
  by (simp add: sint_up_scast is_up)

lemma time_sub_exact:
  assumes "- (2 ^ 63) \<le> t - u" "t - u < 2 ^ 63"
  shows "sint (time_sub t u) = t - u"
  using assms sint_of_int64 [of "t - u"] by (simp add: time_sub_def)

lemma time_sub_mono: "t \<le> t' \<Longrightarrow> sint (time_sub t u) \<le> sint (time_sub t' u)"
  by (simp add: time_sub_def sint_of_int64)

section \<open>sort.SliceStable\<close>

text \<open>\<open>lt y x\<close> is the code's own comparison of two elements. An element moves past those that
  are less than it and no further, so equal elements keep their order.\<close>

fun insert_stable :: "('a \<Rightarrow> 'a \<Rightarrow> bool) \<Rightarrow> 'a \<Rightarrow> 'a list \<Rightarrow> 'a list" where
  "insert_stable lt x [] = [x]"
| "insert_stable lt x (y # ys) =
     (if lt y x then y # insert_stable lt x ys else x # y # ys)"

definition slice_stable :: "('a \<Rightarrow> 'a \<Rightarrow> bool) \<Rightarrow> 'a list \<Rightarrow> 'a list" where
  "slice_stable lt xs = foldr (insert_stable lt) xs []"

lemma mset_insert_stable [simp]: "mset (insert_stable lt x ys) = add_mset x (mset ys)"
  by (induction ys) auto

lemma mset_slice_stable [simp]: "mset (slice_stable lt xs) = mset xs"
  by (induction xs) (simp_all add: slice_stable_def)

lemma set_slice_stable [simp]: "set (slice_stable lt xs) = set xs"
  by (metis mset_slice_stable set_mset_mset)

lemma length_slice_stable [simp]: "length (slice_stable lt xs) = length xs"
  by (metis mset_slice_stable size_mset)

lemma insert_stable_cong:
  "(\<And>y. y \<in> set ys \<Longrightarrow> lt y x \<longleftrightarrow> lt' y x) \<Longrightarrow> insert_stable lt x ys = insert_stable lt' x ys"
  by (induction ys) auto

lemma insert_stable_key:
  "(\<And>y. y \<in> set ys \<Longrightarrow> lt y x \<longleftrightarrow> f y < f x) \<Longrightarrow> insert_stable lt x ys = insort_key f x ys"
  by (induction ys) (auto simp: not_less)

text \<open>A comparison that orders by a key sorts by that key: the library's theory of
  \<open>sort_key\<close> applies.\<close>

lemma slice_stable_key:
  assumes "\<And>x y. x \<in> set xs \<Longrightarrow> y \<in> set xs \<Longrightarrow> lt x y \<longleftrightarrow> f x < f y"
  shows "slice_stable lt xs = sort_key f xs"
  using assms
proof (induction xs)
  case Nil
  then show ?case by (simp add: slice_stable_def)
next
  case (Cons x xs)
  then have "slice_stable lt xs = sort_key f xs" by simp
  moreover have "insert_stable lt x (sort_key f xs) = insort_key f x (sort_key f xs)"
    by (rule insert_stable_key) (simp add: Cons.prems)
  ultimately show ?case by (simp add: slice_stable_def)
qed

text \<open>Sorting by an injective key gives one result for every arrangement of the input.\<close>

lemma sort_key_mset_unique:
  assumes "mset xs = mset ys" "inj_on f (set xs)"
  shows "sort_key f xs = sort_key f ys"
proof (rule map_inj_on [of f])
  have s: "set ys = set xs" using assms(1) by (metis set_mset_mset)
  have "sort (map f xs) = map f (sort_key f zs)" if "mset zs = mset xs" for zs
    by (rule properties_for_sort) (simp_all add: that)
  then show "map f (sort_key f xs) = map f (sort_key f ys)"
    using assms(1) by metis
  show "inj_on f (set (sort_key f xs) \<union> set (sort_key f ys))"
    using assms(2) s by simp
qed

section \<open>Iteration order of Go maps\<close>

definition is_iter :: "('a list \<Rightarrow> 'a list) \<Rightarrow> bool" where
  "is_iter f \<longleftrightarrow> (\<forall>xs. mset (f xs) = mset xs)"

lemma is_iter_id [simp]: "is_iter (\<lambda>xs. xs)"
  by (simp add: is_iter_def)

lemma is_iter_rev [simp]: "is_iter rev"
  by (simp add: is_iter_def)

lemma mset_is_iter: "is_iter f \<Longrightarrow> mset (f xs) = mset xs"
  by (simp add: is_iter_def)

lemma set_is_iter: "is_iter f \<Longrightarrow> set (f xs) = set xs"
  by (metis mset_is_iter set_mset_mset)

lemma distinct_is_iter: "is_iter f \<Longrightarrow> distinct (map g (f xs)) = distinct (map g xs)"
  by (metis mset_is_iter mset_map mset_eq_imp_distinct_iff)

section \<open>Strings\<close>

text \<open>\<open>strings.Join\<close>, \<open>strings.Split\<close> on a one-byte separator, \<open>strings.TrimPrefix\<close> and the
  \<open>%d\<close> verb of package fmt.\<close>

fun join_sep :: "string \<Rightarrow> string list \<Rightarrow> string" where
  "join_sep sep [] = []"
| "join_sep sep [s] = s"
| "join_sep sep (s # t # ss) = s @ sep @ join_sep sep (t # ss)"

fun split_on :: "char \<Rightarrow> string \<Rightarrow> string list" where
  "split_on c [] = [[]]"
| "split_on c (x # xs) =
     (if x = c then [] # split_on c xs
      else case split_on c xs of [] \<Rightarrow> [[x]] | w # ws \<Rightarrow> (x # w) # ws)"

definition trim_prefix :: "string \<Rightarrow> string \<Rightarrow> string" where
  "trim_prefix s prefix =
     (if take (length prefix) s = prefix then drop (length prefix) s else s)"

definition digit_char :: "nat \<Rightarrow> char" where
  "digit_char d = char_of (48 + d)"

fun show_nat :: "nat \<Rightarrow> string" where
  "show_nat n = (if n < 10 then [digit_char n] else show_nat (n div 10) @ [digit_char (n mod 10)])"

declare show_nat.simps [simp del]

definition show_int :: "int \<Rightarrow> string" where
  "show_int i = (if i < 0 then ''-'' @ show_nat (nat (- i)) else show_nat (nat i))"

lemma split_on_nonempty [simp]: "split_on c s \<noteq> []"
  by (induction s) (auto split: list.splits)

lemma split_on_none: "c \<notin> set s \<Longrightarrow> split_on c s = [s]"
  by (induction s) auto

lemma split_on_append:
  "c \<notin> set s \<Longrightarrow> split_on c (s @ c # t) = s # split_on c t"
  by (induction s) auto

lemma join_split_on: "join_sep [c] (split_on c s) = s"
proof (induction s)
  case (Cons x xs)
  then show ?case
    by (cases "split_on c xs"; cases "tl (split_on c xs)") auto
qed simp

lemma split_on_no_sep: "w \<in> set (split_on c s) \<Longrightarrow> c \<notin> set w"
  by (induction s arbitrary: w) (auto split: if_splits list.splits)

lemma length_split_on: "length (split_on c s) = Suc (count_list s c)"
  by (induction s) (auto split: list.splits)

lemma digit_char_inj: "a < 10 \<Longrightarrow> b < 10 \<Longrightarrow> digit_char a = digit_char b \<Longrightarrow> a = b"
proof -
  assume *: "a < 10" "b < 10" "digit_char a = digit_char b"
  then have "(of_char (digit_char a) :: nat) = of_char (digit_char b)" by simp
  with * show "a = b" by (simp add: digit_char_def)
qed

lemma show_nat_nonempty [simp]: "show_nat n \<noteq> []"
  by (subst show_nat.simps) simp

text \<open>Decimal printing is injective, so names numbered with \<open>%d\<close> are distinct.\<close>

lemma show_nat_inj: "show_nat m = show_nat n \<Longrightarrow> m = n"
proof (induction m arbitrary: n rule: less_induct)
  case (less m)
  have eq: "show_nat m = show_nat n" by (rule less.prems)
  have step: "show_nat k = (if k < 10 then [digit_char k]
      else show_nat (k div 10) @ [digit_char (k mod 10)])" for k
    by (rule show_nat.simps)
  show ?case
  proof (cases "m < 10 \<or> n < 10")
    case True
    then show ?thesis using eq step [of m] step [of n]
      by (auto split: if_splits intro: digit_char_inj dest: sym [of "[]"])
  next
    case False
    then have "show_nat (m div 10) = show_nat (n div 10)"
      and "digit_char (m mod 10) = digit_char (n mod 10)"
      using eq step [of m] step [of n] by simp_all
    then have "m div 10 = n div 10" and "m mod 10 = n mod 10"
      using less.IH [of "m div 10"] False digit_char_inj by simp_all
    then show ?thesis by (metis div_mult_mod_eq)
  qed
qed

lemma show_nat_inj_iff [simp]: "show_nat m = show_nat n \<longleftrightarrow> m = n"
  using show_nat_inj by blast

section \<open>Maps and lists\<close>

definition get0 :: "('k \<rightharpoonup> int64) \<Rightarrow> 'k \<Rightarrow> int64" where
  "get0 m k = (case m k of None \<Rightarrow> 0 | Some v \<Rightarrow> v)"

lemma get0_simps [simp]: "m k = None \<Longrightarrow> get0 m k = 0" "m k = Some v \<Longrightarrow> get0 m k = v"
  by (simp_all add: get0_def)

text \<open>A \<open>for\<close> loop over a list with an early return of an error.\<close>

fun for_each :: "('s \<Rightarrow> 'a \<Rightarrow> 'e + 's) \<Rightarrow> 's \<Rightarrow> 'a list \<Rightarrow> 'e + 's" where
  "for_each f s [] = Inr s"
| "for_each f s (x # xs) = (case f s x of Inl e \<Rightarrow> Inl e | Inr s' \<Rightarrow> for_each f s' xs)"

lemma for_each_append:
  "for_each f s (xs @ ys) = (case for_each f s xs of Inl e \<Rightarrow> Inl e | Inr s' \<Rightarrow> for_each f s' ys)"
  by (induction xs arbitrary: s) (auto split: sum.splits)

lemma for_each_invariant:
  assumes "\<And>s x s'. x \<in> set xs \<Longrightarrow> I s \<Longrightarrow> f s x = Inr s' \<Longrightarrow> I s'" "I s" "for_each f s xs = Inr t"
  shows "I t"
  using assms by (induction xs arbitrary: s) (auto split: sum.splits)

text \<open>A loop whose step fails on the elements of \<open>E\<close> whatever the state fails when it meets one;
  otherwise it is a fold.\<close>

lemma for_each_isl:
  assumes "\<And>s x. isl (f s x) \<longleftrightarrow> E x"
  shows "isl (for_each f s xs) \<longleftrightarrow> (\<exists>x \<in> set xs. E x)"
proof (induction xs arbitrary: s)
  case (Cons x xs)
  then show ?case using assms [of s x] by (cases "f s x") auto
qed simp

lemma for_each_foldl:
  assumes "\<And>s x. x \<in> set xs \<Longrightarrow> f s x = Inr (g s x)"
  shows "for_each f s xs = Inr (foldl g s xs)"
  using assms by (induction xs arbitrary: s) simp_all

lemma for_each_Inl:
  assumes "for_each f s xs = Inl e" "I s"
    "\<And>s x s'. x \<in> set xs \<Longrightarrow> I s \<Longrightarrow> f s x = Inr s' \<Longrightarrow> I s'"
  shows "\<exists>s' x. x \<in> set xs \<and> I s' \<and> f s' x = Inl e"
  using assms
proof (induction xs arbitrary: s)
  case (Cons x xs)
  show ?case
  proof (cases "f s x")
    case (Inl a)
    then show ?thesis using Cons.prems by auto
  next
    case (Inr s')
    then have "for_each f s' xs = Inl e" "I s'" using Cons.prems by auto
    from Cons.IH [OF this] have "\<exists>s' y. y \<in> set xs \<and> I s' \<and> f s' y = Inl e"
      using Cons.prems(3) by (meson list.set_intros(2))
    then show ?thesis by auto
  qed
qed simp

text \<open>Updating an association list entry by entry: the last entry of a key wins.\<close>

lemma map_of_foldl_update:
  "map_of (foldl (\<lambda>m (k, v). AList.update k v m) m xs) = map_of m ++ map_of (rev xs)"
  by (induction xs arbitrary: m) (auto simp: update_conv' fun_eq_iff map_add_def split: option.splits)

lemma distinct_foldl_update:
  "distinct (map fst m) \<Longrightarrow> distinct (map fst (foldl (\<lambda>m (k, v). AList.update k v m) m xs))"
  by (induction xs arbitrary: m) (auto simp: distinct_update)

lemma update_absent: "k \<notin> fst ` set m \<Longrightarrow> AList.update k v m = m @ [(k, v)]"
  by (induction m) auto

lemma map_of_rev: "distinct (map fst xs) \<Longrightarrow> map_of (rev xs) = map_of xs"
  by (rule map_of_inject_set [THEN iffD2]) (simp_all add: rev_map [symmetric])

end
