(* ===== verification/Framework.thy ===== *)
theory Framework
  imports Prelude
begin

text \<open>
  \<open>pkg/controllers/framework/interface.go\<close>: the status a plugin or the scheduler returns. A
  \<open>*Status\<close> is an option (\<open>None\<close> is nil); the methods the code calls on a nil pointer treat it
  as success. \<open>Plugin\<close> and \<open>AppendReason\<close> dereference their receiver and are modelled on
  the pointee. The error a status carries is its text.
\<close>

datatype StatusCode = Success | Warning | Error | Misconfigured

record Status =
  code :: StatusCode
  reasons :: "string list"
  stored_err :: "string option"
  plugin :: string

definition Code :: "Status option \<Rightarrow> StatusCode" where
  "Code s = (case s of None \<Rightarrow> Success | Some st \<Rightarrow> code st)"

definition Message :: "Status option \<Rightarrow> string" where
  "Message s = (case s of None \<Rightarrow> [] | Some st \<Rightarrow> join_sep '', '' (reasons st))"

definition AppendReason :: "Status \<Rightarrow> string \<Rightarrow> Status" where
  "AppendReason s reason = s\<lparr>reasons := reasons s @ [reason]\<rparr>"

definition IsSuccess :: "Status option \<Rightarrow> bool" where
  "IsSuccess s \<longleftrightarrow> Code s = Success"

definition IsError :: "Status option \<Rightarrow> bool" where
  "IsError s = (case Code s of Error \<Rightarrow> True | Misconfigured \<Rightarrow> True | _ \<Rightarrow> False)"

definition AsError :: "Status option \<Rightarrow> string option" where
  "AsError s =
     (if Code s = Success then None
      else case s of
        Some st \<Rightarrow> (case stored_err st of Some e \<Rightarrow> Some e | None \<Rightarrow> Some (Message s))
      | None \<Rightarrow> Some (Message s))"

definition Plugin :: "Status \<Rightarrow> string" where
  "Plugin s = plugin s"

definition NewStatus :: "string \<Rightarrow> StatusCode \<Rightarrow> string list \<Rightarrow> Status" where
  "NewStatus p c rs =
     (let s = \<lparr>code = c, reasons = rs, stored_err = None, plugin = p\<rparr>
      in if IsError (Some s) then s\<lparr>stored_err := Some (Message (Some s))\<rparr> else s)"

lemma Code_Some [simp]: "Code (Some s) = code s"
  by (simp add: Code_def)

lemma Code_None [simp]: "Code None = Success"
  by (simp add: Code_def)

lemma code_NewStatus [simp]: "code (NewStatus p c rs) = c"
  by (simp add: NewStatus_def Let_def)

lemma reasons_NewStatus [simp]: "reasons (NewStatus p c rs) = rs"
  by (simp add: NewStatus_def Let_def)

lemma plugin_NewStatus [simp]: "plugin (NewStatus p c rs) = p"
  by (simp add: NewStatus_def Let_def)

lemma code_AppendReason [simp]: "code (AppendReason s r) = code s"
  by (simp add: AppendReason_def)

lemma IsError_iff: "IsError s \<longleftrightarrow> Code s \<in> {Error, Misconfigured}"
  by (simp add: IsError_def split: StatusCode.splits)

lemma IsError_Some: "IsError (Some s) \<longleftrightarrow> code s = Error \<or> code s = Misconfigured"
  by (auto simp: IsError_iff)

lemma IsError_NewStatus [simp]:
  "IsError (Some (NewStatus p c rs)) \<longleftrightarrow> c = Error \<or> c = Misconfigured"
  by (simp add: IsError_Some)

lemma Message_NewStatus [simp]: "Message (Some (NewStatus p c rs)) = join_sep '', '' rs"
  by (simp add: Message_def)

text \<open>The error of a status made by \<open>NewStatus\<close> is its message, whatever the code; a status
  has no error exactly when it is a success (a warning has one).\<close>

lemma AsError_NewStatus:
  "AsError (Some (NewStatus p c rs)) = (if c = Success then None else Some (join_sep '', '' rs))"
  by (auto simp: AsError_def NewStatus_def Let_def Message_def IsError_iff)

lemma AsError_None_iff: "AsError s = None \<longleftrightarrow> IsSuccess s"
  by (auto simp: AsError_def IsSuccess_def split: option.splits)

end
