(* ===== verification/Labels.thy ===== *)
theory Labels
  imports Prelude
begin

text \<open>
  Label selectors, translated from the vendored packages
  \<open>k8s.io/apimachinery/pkg/labels\<close> and \<open>pkg/apis/meta/v1\<close>, as far as the controller reaches
  them: requirements with the operators \<open>In\<close>, \<open>NotIn\<close>, \<open>Exists\<close>, \<open>DoesNotExist\<close> and
  \<open>Equals\<close>, and the conversion of an API label selector. The lists of violations that
  \<open>NewRequirement\<close> collects are kept as data; their English rendering is not modelled (the
  code only shows it to the user). \<open>sort.Sort(ByKey)\<close> orders the requirements of a selector for
  printing; matching is a conjunction and does not depend on that order, so the list is kept as
  built.
\<close>

type_synonym labels = "string \<rightharpoonup> string"

section \<open>Validation of keys and values\<close>

definition lower_alpha :: "char \<Rightarrow> bool" where
  "lower_alpha c \<longleftrightarrow> CHR ''a'' \<le> c \<and> c \<le> CHR ''z''"

definition upper_alpha :: "char \<Rightarrow> bool" where
  "upper_alpha c \<longleftrightarrow> CHR ''A'' \<le> c \<and> c \<le> CHR ''Z''"

definition is_digit :: "char \<Rightarrow> bool" where
  "is_digit c \<longleftrightarrow> CHR ''0'' \<le> c \<and> c \<le> CHR ''9''"

definition qname_char :: "char \<Rightarrow> bool" where
  "qname_char c \<longleftrightarrow> upper_alpha c \<or> lower_alpha c \<or> is_digit c"

definition qname_ext_char :: "char \<Rightarrow> bool" where
  "qname_ext_char c \<longleftrightarrow> qname_char c \<or> c = CHR ''-'' \<or> c = CHR ''_'' \<or> c = CHR ''.''"

text \<open>The regular expression \<open>(A E*)? A\<close>: not empty, first and last character from \<open>A\<close>, all
  characters from \<open>E\<close>, which includes \<open>A\<close>.\<close>

definition bracketed :: "(char \<Rightarrow> bool) \<Rightarrow> (char \<Rightarrow> bool) \<Rightarrow> string \<Rightarrow> bool" where
  "bracketed A E s \<longleftrightarrow> s \<noteq> [] \<and> A (hd s) \<and> A (last s) \<and> list_all E s"

definition qualified_name_regexp :: "string \<Rightarrow> bool" where
  "qualified_name_regexp s = bracketed qname_char qname_ext_char s"

definition dns1123_label_regexp :: "string \<Rightarrow> bool" where
  "dns1123_label_regexp s = bracketed (\<lambda>c. lower_alpha c \<or> is_digit c)
     (\<lambda>c. lower_alpha c \<or> is_digit c \<or> c = CHR ''-'') s"

definition is_dns1123_subdomain :: "string \<Rightarrow> bool" where
  "is_dns1123_subdomain s \<longleftrightarrow>
     length s \<le> 253 \<and> list_all dns1123_label_regexp (split_on (CHR ''.'') s)"

text \<open>True when the code's list of violations is empty.\<close>

definition is_qualified_name :: "string \<Rightarrow> bool" where
  "is_qualified_name value = (case split_on (CHR ''/'') value of
       [name] \<Rightarrow> length name \<le> 63 \<and> qualified_name_regexp name
     | [prefix, name] \<Rightarrow> prefix \<noteq> [] \<and> is_dns1123_subdomain prefix
         \<and> length name \<le> 63 \<and> qualified_name_regexp name
     | _ \<Rightarrow> False)"

definition is_valid_label_value :: "string \<Rightarrow> bool" where
  "is_valid_label_value value \<longleftrightarrow>
     length value \<le> 63 \<and> (value = [] \<or> qualified_name_regexp value)"

section \<open>Requirements\<close>

datatype operator = In | NotIn | Equals | Exists | DoesNotExist

record Requirement =
  req_key :: string
  req_operator :: operator
  req_values :: "string list"

datatype field_error = InvalidKey string | InvalidValues operator "string list"
  | InvalidValue string string

datatype selector_error = RequirementErrors "field_error list" | BadOperator string

definition NewRequirement :: "string \<Rightarrow> operator \<Rightarrow> string list \<Rightarrow> selector_error + Requirement" where
  "NewRequirement key op vals =
     (let key_errs = (if is_qualified_name key then [] else [InvalidKey key]);
          op_errs = (case op of
              In \<Rightarrow> if vals = [] then [InvalidValues op vals] else []
            | NotIn \<Rightarrow> if vals = [] then [InvalidValues op vals] else []
            | Equals \<Rightarrow> if length vals \<noteq> 1 then [InvalidValues op vals] else []
            | Exists \<Rightarrow> if vals \<noteq> [] then [InvalidValues op vals] else []
            | DoesNotExist \<Rightarrow> if vals \<noteq> [] then [InvalidValues op vals] else []);
          val_errs = [InvalidValue key v. v \<leftarrow> vals, \<not> is_valid_label_value v];
          allErrs = key_errs @ op_errs @ val_errs
      in if allErrs = [] then Inr \<lparr>req_key = key, req_operator = op, req_values = vals\<rparr>
         else Inl (RequirementErrors allErrs))"

definition hasValue :: "Requirement \<Rightarrow> string \<Rightarrow> bool" where
  "hasValue r value \<longleftrightarrow> value \<in> set (req_values r)"

definition requirement_matches :: "Requirement \<Rightarrow> labels \<Rightarrow> bool" where
  "requirement_matches r ls = (case req_operator r of
       In \<Rightarrow> (case ls (req_key r) of None \<Rightarrow> False | Some v \<Rightarrow> hasValue r v)
     | Equals \<Rightarrow> (case ls (req_key r) of None \<Rightarrow> False | Some v \<Rightarrow> hasValue r v)
     | NotIn \<Rightarrow> (case ls (req_key r) of None \<Rightarrow> True | Some v \<Rightarrow> \<not> hasValue r v)
     | Exists \<Rightarrow> ls (req_key r) \<noteq> None
     | DoesNotExist \<Rightarrow> ls (req_key r) = None)"

section \<open>Selectors\<close>

datatype Selector = NothingSelector | InternalSelector "Requirement list"

definition Everything :: Selector where
  "Everything = InternalSelector []"

fun Matches :: "Selector \<Rightarrow> labels \<Rightarrow> bool" where
  "Matches NothingSelector ls = False"
| "Matches (InternalSelector rs) ls = list_all (\<lambda>r. requirement_matches r ls) rs"

fun Empty :: "Selector \<Rightarrow> bool" where
  "Empty NothingSelector = False"
| "Empty (InternalSelector rs) = (rs = [])"

definition SelectorFromSet :: "(string \<times> string) list \<Rightarrow> Selector" where
  "SelectorFromSet ls = InternalSelector
     (map (\<lambda>(k, v). \<lparr>req_key = k, req_operator = Equals, req_values = [v]\<rparr>) ls)"

text \<open>The selector of one requirement that the controller builds with
  \<open>labels.NewRequirement(k, selection.Equals, []string{v})\<close> and
  \<open>labels.NewSelector().Add(*requirement)\<close>.\<close>

definition equals_selector :: "string \<Rightarrow> string \<Rightarrow> selector_error + Selector" where
  "equals_selector k v = (case NewRequirement k Equals [v] of
       Inl e \<Rightarrow> Inl e
     | Inr r \<Rightarrow> Inr (InternalSelector [r]))"

record LabelSelectorRequirement =
  expr_key :: string
  expr_operator :: string
  expr_values :: "string list"

text \<open>\<open>MatchLabels\<close> is a Go map; the list is the order in which it is ranged over.\<close>

record LabelSelector =
  MatchLabels :: "(string \<times> string) list"
  MatchExpressions :: "LabelSelectorRequirement list"

definition expr_requirement :: "LabelSelectorRequirement \<Rightarrow> selector_error + Requirement" where
  "expr_requirement e =
     (if expr_operator e = ''In'' then NewRequirement (expr_key e) In (expr_values e)
      else if expr_operator e = ''NotIn'' then NewRequirement (expr_key e) NotIn (expr_values e)
      else if expr_operator e = ''Exists'' then NewRequirement (expr_key e) Exists (expr_values e)
      else if expr_operator e = ''DoesNotExist''
        then NewRequirement (expr_key e) DoesNotExist (expr_values e)
      else Inl (BadOperator (expr_operator e)))"

definition LabelSelectorAsSelector :: "LabelSelector option \<Rightarrow> selector_error + Selector" where
  "LabelSelectorAsSelector ps = (case ps of
       None \<Rightarrow> Inr NothingSelector
     | Some s \<Rightarrow>
         if length (MatchLabels s) + length (MatchExpressions s) = 0 then Inr Everything
         else case for_each (\<lambda>rs (k, v). case NewRequirement k Equals [v] of
                  Inl e \<Rightarrow> Inl e | Inr r \<Rightarrow> Inr (rs @ [r])) [] (MatchLabels s) of
           Inl e \<Rightarrow> Inl e
         | Inr rs \<Rightarrow> (case for_each (\<lambda>rs x. case expr_requirement x of
                  Inl e \<Rightarrow> Inl e | Inr r \<Rightarrow> Inr (rs @ [r])) rs (MatchExpressions s) of
             Inl e \<Rightarrow> Inl e
           | Inr rs' \<Rightarrow> Inr (InternalSelector rs')))"

section \<open>What a selector means\<close>

text \<open>The documented meaning of a label selector: \<open>MatchLabels\<close> and \<open>MatchExpressions\<close> are
  ANDed.\<close>

definition expr_holds :: "LabelSelectorRequirement \<Rightarrow> labels \<Rightarrow> bool" where
  "expr_holds e ls \<longleftrightarrow>
     (expr_operator e = ''In'' \<and> (\<exists>v \<in> set (expr_values e). ls (expr_key e) = Some v)) \<or>
     (expr_operator e = ''NotIn'' \<and> (\<forall>v \<in> set (expr_values e). ls (expr_key e) \<noteq> Some v)) \<or>
     (expr_operator e = ''Exists'' \<and> ls (expr_key e) \<noteq> None) \<or>
     (expr_operator e = ''DoesNotExist'' \<and> ls (expr_key e) = None)"

definition label_selector_holds :: "LabelSelector \<Rightarrow> labels \<Rightarrow> bool" where
  "label_selector_holds s ls \<longleftrightarrow>
     (\<forall>(k, v) \<in> set (MatchLabels s). ls k = Some v) \<and>
     (\<forall>e \<in> set (MatchExpressions s). expr_holds e ls)"

lemma if_InrD: "(if P then Inr x else Inl e) = Inr r \<Longrightarrow> x = r"
  by (simp split: if_splits)

lemma NewRequirement_Inr:
  "NewRequirement k op vs = Inr r \<Longrightarrow> r = \<lparr>req_key = k, req_operator = op, req_values = vs\<rparr>"
  unfolding NewRequirement_def Let_def by (drule if_InrD) (rule sym)

lemma NewRequirement_Equals [simp]:
  "NewRequirement k Equals [v] =
     (if is_qualified_name k \<and> is_valid_label_value v
      then Inr \<lparr>req_key = k, req_operator = Equals, req_values = [v]\<rparr>
      else Inl (RequirementErrors ((if is_qualified_name k then [] else [InvalidKey k]) @
             (if is_valid_label_value v then [] else [InvalidValue k v]))))"
  by (simp add: NewRequirement_def Let_def)

lemma equals_matches [simp]:
  "requirement_matches \<lparr>req_key = k, req_operator = Equals, req_values = [v]\<rparr> ls \<longleftrightarrow> ls k = Some v"
  by (auto simp: requirement_matches_def hasValue_def split: option.splits)

lemma matches_operator:
  "requirement_matches \<lparr>req_key = k, req_operator = In, req_values = vs\<rparr> ls \<longleftrightarrow> (\<exists>v \<in> set vs. ls k = Some v)"
  "requirement_matches \<lparr>req_key = k, req_operator = NotIn, req_values = vs\<rparr> ls \<longleftrightarrow> (\<forall>v \<in> set vs. ls k \<noteq> Some v)"
  "requirement_matches \<lparr>req_key = k, req_operator = Exists, req_values = vs\<rparr> ls \<longleftrightarrow> ls k \<noteq> None"
  "requirement_matches \<lparr>req_key = k, req_operator = DoesNotExist, req_values = vs\<rparr> ls \<longleftrightarrow> ls k = None"
  by (auto simp: requirement_matches_def hasValue_def split: option.splits)

lemma expr_requirement_matches:
  assumes "expr_requirement e = Inr r"
  shows "requirement_matches r ls \<longleftrightarrow> expr_holds e ls"
proof -
  consider "expr_operator e = ''In''" | "expr_operator e = ''NotIn''"
    | "expr_operator e = ''Exists''" | "expr_operator e = ''DoesNotExist''"
    using assms unfolding expr_requirement_def by (simp split: if_splits)
  then show ?thesis
  proof cases
    case 1
    then have n: "NewRequirement (expr_key e) In (expr_values e) = Inr r"
      using assms by (simp add: expr_requirement_def)
    then show ?thesis using 1 by (simp add: NewRequirement_Inr [OF n] matches_operator expr_holds_def)
  next
    case 2
    then have n: "NewRequirement (expr_key e) NotIn (expr_values e) = Inr r"
      using assms by (simp add: expr_requirement_def)
    then show ?thesis using 2 by (simp add: NewRequirement_Inr [OF n] matches_operator expr_holds_def)
  next
    case 3
    then have n: "NewRequirement (expr_key e) Exists (expr_values e) = Inr r"
      using assms by (simp add: expr_requirement_def)
    then show ?thesis using 3 by (simp add: NewRequirement_Inr [OF n] matches_operator expr_holds_def)
  next
    case 4
    then have n: "NewRequirement (expr_key e) DoesNotExist (expr_values e) = Inr r"
      using assms by (simp add: expr_requirement_def)
    then show ?thesis using 4 by (simp add: NewRequirement_Inr [OF n] matches_operator expr_holds_def)
  qed
qed

lemma for_each_requirements:
  assumes "for_each (\<lambda>rs x. case f x of Inl e \<Rightarrow> Inl e | Inr r \<Rightarrow> Inr (rs @ [r])) rs xs = Inr rs'"
    and "\<And>x r. f x = Inr r \<Longrightarrow> P r \<longleftrightarrow> Q x"
  shows "list_all P rs' \<longleftrightarrow> list_all P rs \<and> list_all Q xs"
  using assms(1)
proof (induction xs arbitrary: rs)
  case (Cons x xs)
  then obtain r where r: "f x = Inr r" by (auto split: sum.splits)
  with Cons.prems have "list_all P rs' \<longleftrightarrow> list_all P (rs @ [r]) \<and> list_all Q xs"
    by (intro Cons.IH) simp
  with assms(2) [OF r] show ?case by auto
qed simp

text \<open>A selector that converts matches exactly the label sets its API object describes.\<close>

lemma LabelSelectorAsSelector_matches:
  assumes "LabelSelectorAsSelector (Some s) = Inr sel"
  shows "Matches sel ls \<longleftrightarrow> label_selector_holds s ls"
proof (cases "length (MatchLabels s) + length (MatchExpressions s) = 0")
  case True
  then show ?thesis using assms
    by (auto simp: LabelSelectorAsSelector_def Everything_def label_selector_holds_def)
next
  case False
  then obtain rs rs' where sel: "sel = InternalSelector rs'"
    and l: "for_each (\<lambda>rs x. case (case x of (k, v) \<Rightarrow> NewRequirement k Equals [v]) of
        Inl e \<Rightarrow> Inl e | Inr r \<Rightarrow> Inr (rs @ [r])) [] (MatchLabels s) = Inr rs"
    and e: "for_each (\<lambda>rs x. case expr_requirement x of Inl e \<Rightarrow> Inl e | Inr r \<Rightarrow> Inr (rs @ [r]))
        rs (MatchExpressions s) = Inr rs'"
    using assms by (auto simp: LabelSelectorAsSelector_def case_prod_unfold split: sum.splits)
  let ?P = "\<lambda>r. requirement_matches r ls"
  have "list_all ?P rs \<longleftrightarrow> list_all ?P [] \<and> list_all (\<lambda>(k, v). ls k = Some v) (MatchLabels s)"
    by (rule for_each_requirements [OF l]) (auto split: prod.splits if_splits)
  moreover have "list_all ?P rs' \<longleftrightarrow> list_all ?P rs \<and> list_all (\<lambda>e. expr_holds e ls) (MatchExpressions s)"
    by (rule for_each_requirements [OF e]) (rule expr_requirement_matches)
  ultimately show ?thesis
    by (simp add: sel label_selector_holds_def list_all_iff)
qed

text \<open>When a selector converts: keys and values are well formed, and each operator has the values it
  takes.\<close>

definition expr_valid :: "LabelSelectorRequirement \<Rightarrow> bool" where
  "expr_valid e \<longleftrightarrow> is_qualified_name (expr_key e) \<and> (\<forall>v \<in> set (expr_values e). is_valid_label_value v) \<and>
     (expr_operator e \<in> {''In'', ''NotIn''} \<and> expr_values e \<noteq> [] \<or>
      expr_operator e \<in> {''Exists'', ''DoesNotExist''} \<and> expr_values e = [])"

definition label_selector_valid :: "LabelSelector \<Rightarrow> bool" where
  "label_selector_valid s \<longleftrightarrow>
     (\<forall>(k, v) \<in> set (MatchLabels s). is_qualified_name k \<and> is_valid_label_value v) \<and>
     (\<forall>e \<in> set (MatchExpressions s). expr_valid e)"

lemma expr_requirement_isl: "isl (expr_requirement e) \<longleftrightarrow> \<not> expr_valid e"
  by (auto simp: expr_requirement_def NewRequirement_def expr_valid_def Let_def)

lemma LabelSelectorAsSelector_isl: "isl (LabelSelectorAsSelector (Some s)) \<longleftrightarrow> \<not> label_selector_valid s"
proof (cases "length (MatchLabels s) + length (MatchExpressions s) = 0")
  case True
  then show ?thesis by (simp add: LabelSelectorAsSelector_def label_selector_valid_def)
next
  case False
  let ?m = "for_each (\<lambda>rs (k, v). case NewRequirement k Equals [v] of Inl e \<Rightarrow> Inl e | Inr r \<Rightarrow> Inr (rs @ [r]))
    [] (MatchLabels s)"
  let ?e = "\<lambda>rs. for_each (\<lambda>rs x. case expr_requirement x of Inl e \<Rightarrow> Inl e | Inr r \<Rightarrow> Inr (rs @ [r]))
    rs (MatchExpressions s)"
  have m: "isl ?m \<longleftrightarrow> (\<exists>x \<in> set (MatchLabels s). case x of (k, v) \<Rightarrow> \<not> (is_qualified_name k \<and> is_valid_label_value v))"
    by (rule for_each_isl) (auto split: prod.splits)
  have e: "isl (?e rs) \<longleftrightarrow> (\<exists>x \<in> set (MatchExpressions s). \<not> expr_valid x)" for rs
    by (rule for_each_isl) (simp add: expr_requirement_isl [symmetric] split: sum.split)
  have "isl (LabelSelectorAsSelector (Some s)) \<longleftrightarrow> isl ?m \<or> isl (?e (projr ?m))"
    using False by (cases ?m; cases "?e (projr ?m)") (auto simp: LabelSelectorAsSelector_def)
  then show ?thesis unfolding m e label_selector_valid_def by auto
qed

lemma Matches_Everything [simp]: "Matches Everything ls"
  by (simp add: Everything_def)

lemma Empty_Matches: "Empty sel \<Longrightarrow> Matches sel ls"
  by (cases sel) auto

lemma Matches_SelectorFromSet [simp]:
  "Matches (SelectorFromSet kvs) ls \<longleftrightarrow> (\<forall>(k, v) \<in> set kvs. ls k = Some v)"
  by (auto simp: SelectorFromSet_def list_all_iff)

lemma equals_selector_matches:
  "equals_selector k v = Inr sel \<Longrightarrow> Matches sel ls \<longleftrightarrow> ls k = Some v"
  by (auto simp: equals_selector_def split: if_splits)

lemma equals_selector_ok:
  "is_qualified_name k \<Longrightarrow> is_valid_label_value v \<Longrightarrow> \<exists>sel. equals_selector k v = Inr sel"
  by (simp add: equals_selector_def)

lemma equals_selector_Inl_iff:
  "(\<exists>e. equals_selector k v = Inl e) \<longleftrightarrow> \<not> (is_qualified_name k \<and> is_valid_label_value v)"
  by (auto simp: equals_selector_def split: if_splits)

end
