(* ===== verification/Api.thy ===== *)
theory Api
  imports Framework Labels
begin

text \<open>
  The API objects the controller reads and writes (vendored package
  \<open>open-cluster-management.io/api/cluster\<close>), with the fields the code uses. A Go struct that
  embeds \<open>metav1.ObjectMeta\<close> is a record that extends \<open>ObjectMeta\<close>. Fields that no code under
  \<open>pkg/\<close> reads are left out (\<open>TypeMeta\<close>, resource versions, \<open>SpreadPolicy\<close>, client configs).

  A \<open>ScoreCoordinate\<close> is used as a Go map key and holds a pointer: two keys are equal when they
  hold the same pointer, not equal pointees. The pointer is a number (its address) together with
  what it points to.
\<close>

datatype api_error = NotFound string | OtherError string

fun api_err_text :: "api_error \<Rightarrow> string" where
  "api_err_text (NotFound m) = m"
| "api_err_text (OtherError m) = m"

fun IsNotFound :: "api_error \<Rightarrow> bool" where
  "IsNotFound (NotFound m) = True"
| "IsNotFound (OtherError m) = False"

record OwnerReference =
  or_APIVersion :: string
  or_Kind :: string
  or_Name :: string
  or_UID :: string
  or_Controller :: bool
  or_BlockOwnerDeletion :: bool

record ObjectMeta =
  Name :: string
  Namespace :: string
  UID :: string
  ObjLabels :: labels
  Annotations :: "string \<rightharpoonup> string"
  DeletionTimestamp :: "go_time option"
  OwnerReferences :: "OwnerReference list"

definition empty_meta :: ObjectMeta where
  "empty_meta = \<lparr>Name = [], Namespace = [], UID = [], ObjLabels = Map.empty,
     Annotations = Map.empty, DeletionTimestamp = None, OwnerReferences = []\<rparr>"

text \<open>\<open>(*metav1.Time).IsZero\<close>: true of nil and of the zero time.\<close>

definition time_is_zero :: "go_time option \<Rightarrow> bool" where
  "time_is_zero t = (case t of None \<Rightarrow> True | Some u \<Rightarrow> u = zero_time)"

section \<open>ManagedCluster\<close>

record Taint =
  taint_key :: string
  taint_value :: string
  taint_effect :: string
  TimeAdded :: go_time

abbreviation TaintEffectNoSelect :: string where
  "TaintEffectNoSelect \<equiv> ''NoSelect''"
abbreviation TaintEffectPreferNoSelect :: string where
  "TaintEffectPreferNoSelect \<equiv> ''PreferNoSelect''"
abbreviation TaintEffectNoSelectIfNew :: string where
  "TaintEffectNoSelectIfNew \<equiv> ''NoSelectIfNew''"

text \<open>A \<open>resource.Quantity\<close>: an \<open>int64\<close> with a decimal scale, or an arbitrary-precision decimal
  (unscaled value and scale).\<close>

datatype Quantity = Int64Amount int64 int32 | DecAmount int int32

record ClusterClaim =
  claim_name :: string
  claim_value :: string

record ManagedCluster = ObjectMeta +
  Taints :: "Taint list"
  Capacity :: "string \<rightharpoonup> Quantity"
  Allocatable :: "string \<rightharpoonup> Quantity"
  ClusterClaims :: "ClusterClaim list"

section \<open>Placement\<close>

record AddOnScore =
  ResourceName :: string
  ScoreName :: string

record ScoreCoordinate =
  CoordType :: string
  CoordBuiltIn :: string
  CoordAddOn :: "(nat \<times> AddOnScore) option"

abbreviation ScoreCoordinateTypeBuiltIn :: string where
  "ScoreCoordinateTypeBuiltIn \<equiv> ''BuiltIn''"
abbreviation ScoreCoordinateTypeAddOn :: string where
  "ScoreCoordinateTypeAddOn \<equiv> ''AddOn''"

record PrioritizerConfig =
  ConfigCoordinate :: "ScoreCoordinate option"
  Weight :: int32

record PrioritizerPolicy =
  PolicyMode :: string
  Configurations :: "PrioritizerConfig list"

abbreviation PrioritizerPolicyModeAdditive :: string where
  "PrioritizerPolicyModeAdditive \<equiv> ''Additive''"
abbreviation PrioritizerPolicyModeExact :: string where
  "PrioritizerPolicyModeExact \<equiv> ''Exact''"

record Toleration =
  tol_key :: string
  tol_operator :: string
  tol_value :: string
  tol_effect :: string
  TolerationSeconds :: "int64 option"

abbreviation TolerationOpExists :: string where
  "TolerationOpExists \<equiv> ''Exists''"
abbreviation TolerationOpEqual :: string where
  "TolerationOpEqual \<equiv> ''Equal''"

text \<open>\<open>ClusterSelector\<close> of a predicate: a label selector and a claim selector, which has match
  expressions only.\<close>

record ClusterPredicate =
  PredLabelSelector :: LabelSelector
  PredClaimExpressions :: "LabelSelectorRequirement list"

record PlacementSpec =
  ClusterSets :: "string list"
  NumberOfClusters :: "int32 option"
  Predicates :: "ClusterPredicate list"
  Policy :: PrioritizerPolicy
  Tolerations :: "Toleration list"

record Condition =
  cond_Type :: string
  cond_Status :: string
  cond_Reason :: string
  cond_Message :: string
  ObservedGeneration :: int64
  LastTransitionTime :: go_time

abbreviation ConditionTrue :: string where "ConditionTrue \<equiv> ''True''"
abbreviation ConditionFalse :: string where "ConditionFalse \<equiv> ''False''"
abbreviation PlacementConditionSatisfied :: string where
  "PlacementConditionSatisfied \<equiv> ''PlacementSatisfied''"
abbreviation PlacementConditionMisconfigured :: string where
  "PlacementConditionMisconfigured \<equiv> ''PlacementMisconfigured''"

record PlacementStatus =
  NumberOfSelectedClusters :: int32
  Conditions :: "Condition list"

record Placement = ObjectMeta +
  Spec :: PlacementSpec
  PStatus :: PlacementStatus

abbreviation PlacementDisableAnnotation :: string where
  "PlacementDisableAnnotation \<equiv>
     ''cluster.open-cluster-management.io/experimental-scheduling-disable''"
abbreviation PlacementLabel :: string where
  "PlacementLabel \<equiv> ''cluster.open-cluster-management.io/placement''"

section \<open>PlacementDecision, AddOnPlacementScore\<close>

record ClusterDecision =
  ClusterName :: string
  DecisionReason :: string

record PlacementDecision = ObjectMeta +
  Decisions :: "ClusterDecision list"

record AddOnPlacementScoreItem =
  item_name :: string
  item_value :: int32

record AddOnPlacementScore = ObjectMeta +
  Scores :: "AddOnPlacementScoreItem list"
  ValidUntil :: "go_time option"

section \<open>ManagedClusterSet, ManagedClusterSetBinding\<close>

record ManagedClusterSet = ObjectMeta +
  SelectorType :: string
  SetLabelSelector :: "LabelSelector option"

record ManagedClusterSetBinding = ObjectMeta +
  BoundClusterSet :: string

text \<open>Instances for the library's automation: the severity of a status code is the order of its
  Go constants (\<open>iota\<close>), and decisions are ordered as the controller sorts them, by cluster
  name.\<close>

instantiation StatusCode :: linorder
begin

definition code_num :: "StatusCode \<Rightarrow> nat" where
  "code_num c = (case c of Success \<Rightarrow> 0 | Warning \<Rightarrow> 1 | Error \<Rightarrow> 2 | Misconfigured \<Rightarrow> 3)"

definition less_eq_StatusCode :: "StatusCode \<Rightarrow> StatusCode \<Rightarrow> bool" where
  "less_eq_StatusCode a b \<longleftrightarrow> code_num a \<le> code_num b"

definition less_StatusCode :: "StatusCode \<Rightarrow> StatusCode \<Rightarrow> bool" where
  "less_StatusCode a b \<longleftrightarrow> code_num a < code_num b"

instance
  by intro_classes (auto simp: less_eq_StatusCode_def less_StatusCode_def code_num_def
      split: StatusCode.splits)

end

lemma IsError_severity: "IsError s \<longleftrightarrow> Error \<le> Code s"
  by (cases "Code s") (simp_all add: IsError_iff less_eq_StatusCode_def code_num_def)

end
