(* ===== verification/Informers.thy ===== *)
theory Informers
  imports Api
begin

text \<open>
  Informer caches and the listers over them, translated from the vendored
  \<open>k8s.io/client-go/tools/cache\<close> (\<open>store.go\<close>, \<open>listers.go\<close>, \<open>thread_safe_store.go\<close>) and the
  generated listers of \<open>open-cluster-management.io/api\<close>. A cache is the list of its objects, in
  the order in which a \<open>range\<close> over it happens to visit them.

  The code uses a lister through an interface whose calls may fail, so a lister is a record of
  functions into a sum; \<open>cache_ns_lister\<close> and \<open>cache_cl_lister\<close> are the ones over a cache. The
  locale \<open>ns_lister_laws\<close> states what the clients rely on.
\<close>

section \<open>Keys\<close>

definition slash :: char where
  "slash = CHR ''/''"

definition MetaNamespaceKey :: "'m ObjectMeta_scheme \<Rightarrow> string" where
  "MetaNamespaceKey o1 =
     (if length (Namespace o1) > 0 then Namespace o1 @ [slash] @ Name o1 else Name o1)"

text \<open>\<open>None\<close> is the error "unexpected key format".\<close>

definition SplitMetaNamespaceKey :: "string \<Rightarrow> (string \<times> string) option" where
  "SplitMetaNamespaceKey key = (case split_on slash key of
       [name] \<Rightarrow> Some ([], name)
     | [ns, name] \<Rightarrow> Some (ns, name)
     | _ \<Rightarrow> None)"

definition wf_meta :: "'m ObjectMeta_scheme \<Rightarrow> bool" where
  "wf_meta o1 \<longleftrightarrow> Namespace o1 \<noteq> [] \<and> slash \<notin> set (Namespace o1) \<and> slash \<notin> set (Name o1)"

definition wf_cl_meta :: "'m ObjectMeta_scheme \<Rightarrow> bool" where
  "wf_cl_meta o1 \<longleftrightarrow> Namespace o1 = [] \<and> slash \<notin> set (Name o1)"

text \<open>Round trip: splitting the key of an object gives its namespace and name back.\<close>

lemma SplitMetaNamespaceKey_key [wf_simps]:
  "wf_meta o1 \<Longrightarrow> SplitMetaNamespaceKey (MetaNamespaceKey o1) = Some (Namespace o1, Name o1)"
  by (simp add: SplitMetaNamespaceKey_def MetaNamespaceKey_def wf_meta_def split_on_append
      split_on_none)

lemma SplitMetaNamespaceKey_cl_key [wf_simps]:
  "wf_cl_meta o1 \<Longrightarrow> SplitMetaNamespaceKey (MetaNamespaceKey o1) = Some ([], Name o1)"
  by (simp add: SplitMetaNamespaceKey_def MetaNamespaceKey_def wf_cl_meta_def split_on_none)

lemma SplitMetaNamespaceKey_slash:
  "slash \<notin> set ns \<Longrightarrow> slash \<notin> set n \<Longrightarrow> SplitMetaNamespaceKey (ns @ [slash] @ n) = Some (ns, n)"
  by (simp add: SplitMetaNamespaceKey_def split_on_append split_on_none)

lemma SplitMetaNamespaceKey_None_iff:
  "SplitMetaNamespaceKey key = None \<longleftrightarrow> 2 \<le> count_list key slash"
proof -
  have l: "length (split_on slash key) = Suc (count_list key slash)" by (rule length_split_on)
  obtain a xs where s: "split_on slash key = a # xs"
    using split_on_nonempty neq_Nil_conv by metis
  show ?thesis
  proof (cases xs)
    case Nil
    then show ?thesis using l s by (simp add: SplitMetaNamespaceKey_def)
  next
    case (Cons b ys)
    then show ?thesis using l s by (cases ys) (auto simp: SplitMetaNamespaceKey_def)
  qed
qed

lemma key_inj:
  "slash \<notin> set ns \<Longrightarrow> slash \<notin> set ns' \<Longrightarrow> ns @ slash # n = ns' @ slash # n' \<longleftrightarrow> ns = ns' \<and> n = n'"
  by (metis list.inject same_append_eq split_on_append)

section \<open>Listers\<close>

record 'a NsLister =
  lister_list :: "Selector \<Rightarrow> api_error + 'a list"
  ns_list :: "string \<Rightarrow> Selector \<Rightarrow> api_error + 'a list"
  ns_get :: "string \<Rightarrow> string \<Rightarrow> api_error + 'a"

record 'a ClLister =
  cl_list :: "Selector \<Rightarrow> api_error + 'a list"
  cl_get :: "string \<Rightarrow> api_error + 'a"

definition NewNotFound :: "string \<Rightarrow> string \<Rightarrow> api_error" where
  "NewNotFound resource name =
     NotFound (resource @ '' '' @ [CHR 0x22] @ name @ [CHR 0x22] @ '' not found'')"

definition GetByKey :: "'m ObjectMeta_scheme list \<Rightarrow> string \<Rightarrow> 'm ObjectMeta_scheme option" where
  "GetByKey items key = find (\<lambda>o1. MetaNamespaceKey o1 = key) items"

definition ListAll :: "'m ObjectMeta_scheme list \<Rightarrow> Selector \<Rightarrow> 'm ObjectMeta_scheme list" where
  "ListAll items selector =
     (let selectAll = Empty selector
      in filter (\<lambda>o1. selectAll \<or> Matches selector (ObjLabels o1)) items)"

definition ListAllByNamespace ::
  "'m ObjectMeta_scheme list \<Rightarrow> string \<Rightarrow> Selector \<Rightarrow> 'm ObjectMeta_scheme list" where
  "ListAllByNamespace items namespace selector =
     (if namespace = [] then ListAll items selector
      else let selectAll = Empty selector
        in filter (\<lambda>o1. selectAll \<or> Matches selector (ObjLabels o1))
             (filter (\<lambda>o1. Namespace o1 = namespace) items))"

definition cache_ns_lister :: "string \<Rightarrow> 'm ObjectMeta_scheme list \<Rightarrow> 'm ObjectMeta_scheme NsLister" where
  "cache_ns_lister resource items =
     \<lparr>lister_list = (\<lambda>sel. Inr (ListAll items sel)),
      ns_list = (\<lambda>ns sel. Inr (ListAllByNamespace items ns sel)),
      ns_get = (\<lambda>ns name. case GetByKey items (ns @ [slash] @ name) of
          None \<Rightarrow> Inl (NewNotFound resource name) | Some o1 \<Rightarrow> Inr o1)\<rparr>"

definition cache_cl_lister :: "string \<Rightarrow> 'm ObjectMeta_scheme list \<Rightarrow> 'm ObjectMeta_scheme ClLister" where
  "cache_cl_lister resource items =
     \<lparr>cl_list = (\<lambda>sel. Inr (ListAll items sel)),
      cl_get = (\<lambda>name. case GetByKey items name of
          None \<Rightarrow> Inl (NewNotFound resource name) | Some o1 \<Rightarrow> Inr o1)\<rparr>"

text \<open>\<open>ByIndex\<close>: the objects whose index function yields the value. \<open>updateIndices\<close> keeps, for
  every value, the set of keys of exactly those objects.\<close>

definition ByIndex :: "('a \<Rightarrow> string list) \<Rightarrow> 'a list \<Rightarrow> string \<Rightarrow> 'a list" where
  "ByIndex indexFunc items value = filter (\<lambda>o1. value \<in> set (indexFunc o1)) items"

lemma set_ByIndex [simp]: "set (ByIndex f items v) = {o1 \<in> set items. v \<in> set (f o1)}"
  by (auto simp: ByIndex_def)

section \<open>The laws of a lister\<close>

text \<open>\<open>mk items\<close> is a lister over a cache holding \<open>items\<close>. A successful list holds exactly the
  objects selected, each once; a get returns the object of that name or reports that there is
  none.\<close>

locale ns_lister_laws =
  fixes mk :: "'m ObjectMeta_scheme list \<Rightarrow> 'm ObjectMeta_scheme NsLister"
    and wf :: "'m ObjectMeta_scheme list \<Rightarrow> bool"
  assumes list_all_law: "lister_list (mk items) sel = Inr xs \<Longrightarrow>
      mset xs = filter_mset (\<lambda>o1. Matches sel (ObjLabels o1)) (mset items)"
    and list_ns_law: "ns \<noteq> [] \<Longrightarrow> ns_list (mk items) ns sel = Inr xs \<Longrightarrow>
      mset xs = filter_mset (\<lambda>o1. Namespace o1 = ns \<and> Matches sel (ObjLabels o1)) (mset items)"
    and get_found_law: "wf items \<Longrightarrow> slash \<notin> set ns \<Longrightarrow> ns_get (mk items) ns n = Inr o1 \<Longrightarrow>
      o1 \<in> set items \<and> Namespace o1 = ns \<and> Name o1 = n"
    and get_missing_law: "wf items \<Longrightarrow> ns_get (mk items) ns n = Inl e \<Longrightarrow> IsNotFound e \<Longrightarrow>
      o1 \<in> set items \<Longrightarrow> \<not> (Namespace o1 = ns \<and> Name o1 = n)"
begin

lemma list_ns_set: "ns \<noteq> [] \<Longrightarrow> ns_list (mk items) ns sel = Inr xs \<Longrightarrow>
    set xs = {o1 \<in> set items. Namespace o1 = ns \<and> Matches sel (ObjLabels o1)}"
  using list_ns_law [of ns items sel xs] by (metis set_mset_filter set_mset_mset)

lemma list_all_set: "lister_list (mk items) sel = Inr xs \<Longrightarrow>
    set xs = {o1 \<in> set items. Matches sel (ObjLabels o1)}"
  using list_all_law [of items sel xs] by (metis set_mset_filter set_mset_mset)

lemma list_everything: "lister_list (mk items) Everything = Inr xs \<Longrightarrow> mset xs = mset items"
  using list_all_law [of items Everything xs] by simp

end

definition wf_ns_items :: "'m ObjectMeta_scheme list \<Rightarrow> bool" where
  "wf_ns_items items \<longleftrightarrow> distinct (map MetaNamespaceKey items) \<and> list_all wf_meta items"

definition wf_cl_items :: "'m ObjectMeta_scheme list \<Rightarrow> bool" where
  "wf_cl_items items \<longleftrightarrow> distinct (map Name items) \<and> list_all wf_cl_meta items"

lemma ListAll_eq: "ListAll items sel = filter (\<lambda>o1. Matches sel (ObjLabels o1)) items"
  unfolding ListAll_def Let_def by (rule filter_cong) (auto simp: Empty_Matches)

lemma ListAllByNamespace_eq:
  "ns \<noteq> [] \<Longrightarrow> ListAllByNamespace items ns sel =
     filter (\<lambda>o1. Namespace o1 = ns \<and> Matches sel (ObjLabels o1)) items"
  by (auto simp: ListAllByNamespace_def Let_def Empty_Matches intro!: filter_cong)

lemma ns_key_eq_iff:
  "wf_meta o1 \<Longrightarrow> slash \<notin> set ns \<Longrightarrow>
     MetaNamespaceKey o1 = ns @ slash # n \<longleftrightarrow> Namespace o1 = ns \<and> Name o1 = n"
  by (auto simp: MetaNamespaceKey_def wf_meta_def key_inj)

lemma cl_key_eq [simp]: "wf_cl_meta o1 \<Longrightarrow> MetaNamespaceKey o1 = Name o1"
  by (simp add: MetaNamespaceKey_def wf_cl_meta_def)

lemma find_unique:
  "distinct (map f xs) \<Longrightarrow> x \<in> set xs \<Longrightarrow> find (\<lambda>y. f y = f x) xs = Some x"
  by (induction xs) (auto simp: image_iff)

lemma wf_ns_items_meta: "wf_ns_items items \<Longrightarrow> o1 \<in> set items \<Longrightarrow> wf_meta o1"
  by (simp add: wf_ns_items_def list_all_iff)

lemma ns_items_key_iff:
  assumes "wf_ns_items items" "o1 \<in> set items" "slash \<notin> set ns"
  shows "MetaNamespaceKey o1 = ns @ slash # n \<longleftrightarrow> Namespace o1 = ns \<and> Name o1 = n"
  using ns_key_eq_iff [OF wf_ns_items_meta [OF assms(1,2)] assms(3)] .

lemma GetByKey_Some: "GetByKey items k = Some o1 \<Longrightarrow> o1 \<in> set items \<and> MetaNamespaceKey o1 = k"
  by (auto simp: GetByKey_def find_Some_iff)

lemma GetByKey_None: "GetByKey items k = None \<longleftrightarrow> (\<forall>o1 \<in> set items. MetaNamespaceKey o1 \<noteq> k)"
  by (auto simp: GetByKey_def find_None_iff)

interpretation ns_cache: ns_lister_laws "cache_ns_lister resource" wf_ns_items for resource
proof
  fix items :: "'m ObjectMeta_scheme list" and sel xs ns n o1 e
  show "lister_list (cache_ns_lister resource items) sel = Inr xs \<Longrightarrow>
      mset xs = filter_mset (\<lambda>o1. Matches sel (ObjLabels o1)) (mset items)"
    by (auto simp: cache_ns_lister_def ListAll_eq)
  show "ns \<noteq> [] \<Longrightarrow> ns_list (cache_ns_lister resource items) ns sel = Inr xs \<Longrightarrow>
      mset xs = filter_mset (\<lambda>o1. Namespace o1 = ns \<and> Matches sel (ObjLabels o1)) (mset items)"
    by (auto simp: cache_ns_lister_def ListAllByNamespace_eq)
  show "wf_ns_items items \<Longrightarrow> slash \<notin> set ns \<Longrightarrow>
      ns_get (cache_ns_lister resource items) ns n = Inr o1 \<Longrightarrow>
      o1 \<in> set items \<and> Namespace o1 = ns \<and> Name o1 = n"
    by (auto simp: cache_ns_lister_def ns_items_key_iff dest!: GetByKey_Some
        split: option.splits)
  show "wf_ns_items items \<Longrightarrow> ns_get (cache_ns_lister resource items) ns n = Inl e \<Longrightarrow>
      IsNotFound e \<Longrightarrow> o1 \<in> set items \<Longrightarrow> \<not> (Namespace o1 = ns \<and> Name o1 = n)"
    using wf_ns_items_meta [of items o1]
    by (auto simp: cache_ns_lister_def GetByKey_None MetaNamespaceKey_def wf_meta_def
        split: option.splits)
qed

lemma cache_ns_get:
  assumes "wf_ns_items items" "o1 \<in> set items"
  shows "ns_get (cache_ns_lister resource items) (Namespace o1) (Name o1) = Inr o1"
proof -
  have "wf_meta o1" using assms by (rule wf_ns_items_meta)
  then have "GetByKey items (Namespace o1 @ [slash] @ Name o1) = Some o1"
    using find_unique [of MetaNamespaceKey items o1] assms
    by (simp add: GetByKey_def wf_ns_items_def MetaNamespaceKey_def wf_meta_def)
  then show ?thesis by (simp add: cache_ns_lister_def)
qed

lemma cache_ns_get_missing:
  assumes "wf_ns_items items" "slash \<notin> set ns" "\<forall>o1 \<in> set items. \<not> (Namespace o1 = ns \<and> Name o1 = n)"
  shows "ns_get (cache_ns_lister resource items) ns n = Inl (NewNotFound resource n)"
proof -
  have "GetByKey items (ns @ [slash] @ n) = None"
    using assms by (auto simp: GetByKey_None ns_items_key_iff)
  then show ?thesis by (simp add: cache_ns_lister_def)
qed

lemma cache_cl_get:
  assumes "wf_cl_items items" "o1 \<in> set items"
  shows "cl_get (cache_cl_lister resource items) (Name o1) = Inr o1"
proof -
  have k: "map MetaNamespaceKey items = map Name items"
    using assms(1) by (auto simp: wf_cl_items_def list_all_iff)
  have "GetByKey items (Name o1) = Some o1"
    using find_unique [of MetaNamespaceKey items o1] assms k
    by (simp add: GetByKey_def wf_cl_items_def list_all_iff)
  then show ?thesis by (simp add: cache_cl_lister_def)
qed

lemma cache_cl_get_Inr:
  assumes "wf_cl_items items" "cl_get (cache_cl_lister resource items) n = Inr o1"
  shows "o1 \<in> set items \<and> Name o1 = n"
  using assms by (auto simp: cache_cl_lister_def GetByKey_def find_Some_iff wf_cl_items_def
      list_all_iff split: option.splits)

lemma cache_cl_get_missing:
  assumes "wf_cl_items items" "n \<notin> Name ` set items"
  shows "cl_get (cache_cl_lister resource items) n = Inl (NewNotFound resource n)"
proof -
  have "GetByKey items n = None"
    using assms by (auto simp: GetByKey_def find_None_iff wf_cl_items_def list_all_iff)
  then show ?thesis by (simp add: cache_cl_lister_def)
qed

lemma cache_list_simps [simp]:
  "lister_list (cache_ns_lister resource items) sel = Inr (ListAll items sel)"
  "ns_list (cache_ns_lister resource items) ns sel = Inr (ListAllByNamespace items ns sel)"
  "cl_list (cache_cl_lister resource items) sel = Inr (ListAll items sel)"
  by (simp_all add: cache_ns_lister_def cache_cl_lister_def)

lemma IsNotFound_NewNotFound [simp]: "IsNotFound (NewNotFound resource name)"
  by (simp add: NewNotFound_def)

end
