(* ===== verification/Plugins.thy ===== *)
theory Plugins
  imports Informers
begin

text \<open>
  \<open>pkg/plugins/interface.go\<close>: the results of the plugins, the handle through which they read the
  informer caches, the bounds on scores, and the two interfaces as locales. \<open>filter_plugin\<close>
  states what the scheduler relies on in a filter, \<open>prioritizer_plugin\<close> what it relies on in a
  prioritizer; \<open>bounded_prioritizer\<close> adds the documented range of scores. The plugins interpret
  them in their own theories.

  \<open>PluginEnv\<close> holds what a run does not determine: the clock readings (one reading per call of a
  plugin), the iteration order of a set of names, the text of a time (\<open>%v\<close>) and the text of the
  errors of \<open>LabelSelectorAsSelector\<close> and \<open>NewRequirement\<close>.
\<close>

definition MaxClusterScore :: int64 where "MaxClusterScore = 100"
definition MinClusterScore :: int64 where "MinClusterScore = - 100"

record PluginFilterResult =
  Filtered :: "ManagedCluster list"

record PluginScoreResult =
  PScores :: "string \<rightharpoonup> int64"

record PluginRequeueResult =
  RequeueTime :: "go_time option"

text \<open>The zero values \<open>PluginFilterResult{}\<close>, \<open>PluginScoreResult{}\<close>, \<open>PluginRequeueResult{}\<close>.\<close>

definition no_filter_result :: PluginFilterResult where
  "no_filter_result = \<lparr>Filtered = []\<rparr>"

definition no_score_result :: PluginScoreResult where
  "no_score_result = \<lparr>PScores = Map.empty\<rparr>"

definition no_requeue_result :: PluginRequeueResult where
  "no_requeue_result = \<lparr>RequeueTime = None\<rparr>"

record Handle =
  DecisionLister :: "PlacementDecision NsLister"
  ScoreLister :: "AddOnPlacementScore NsLister"
  ClusterLister :: "ManagedCluster ClLister"

record PluginEnv =
  TolerationNow :: go_time
  AddOnNow :: go_time
  ShowTime :: "go_time \<Rightarrow> string"
  SelectorErrText :: "selector_error \<Rightarrow> string"
  NameOrder :: "string list \<Rightarrow> string list"

text \<open>\<open>sets.String\<close>: a set as its distinct elements in order of insertion; \<open>List()\<close> sorts
  them.\<close>

definition sets_insert :: "string list \<Rightarrow> string \<Rightarrow> string list" where
  "sets_insert s x = (if x \<in> set s then s else s @ [x])"

definition sets_insert_all :: "string list \<Rightarrow> string list \<Rightarrow> string list" where
  "sets_insert_all s xs = foldl sets_insert s xs"

definition sets_has :: "string list \<Rightarrow> string \<Rightarrow> bool" where
  "sets_has s x \<longleftrightarrow> x \<in> set s"

definition sets_list :: "string list \<Rightarrow> string list" where
  "sets_list s = sort s"

lemma set_sets_insert [simp]: "set (sets_insert s x) = insert x (set s)"
  by (auto simp: sets_insert_def)

lemma distinct_sets_insert [simp]: "distinct (sets_insert s x) = distinct s"
  by (auto simp: sets_insert_def)

lemma set_sets_insert_all [simp]: "set (sets_insert_all s xs) = set s \<union> set xs"
  by (induction xs arbitrary: s) (auto simp: sets_insert_all_def)

lemma distinct_sets_insert_all [simp]: "distinct (sets_insert_all s xs) = distinct s"
  by (induction xs arbitrary: s) (auto simp: sets_insert_all_def)

lemma sets_has_iff [simp]: "sets_has s x \<longleftrightarrow> x \<in> set s"
  by (simp add: sets_has_def)

text \<open>The cluster names in the decisions of a list of PlacementDecisions, as the loops of
  \<open>steady.go\<close> and \<open>taint_toleration.go\<close> collect them.\<close>

definition collect_decisions :: "PlacementDecision list \<Rightarrow> string list" where
  "collect_decisions ds =
     foldl (\<lambda>s d. foldl (\<lambda>s' cd. sets_insert s' (ClusterName cd)) s (Decisions d)) [] ds"

lemma set_foldl_insert_name:
  "set (foldl (\<lambda>s' cd. sets_insert s' (ClusterName cd)) s cds) = set s \<union> ClusterName ` set cds"
  by (induction cds arbitrary: s) auto

lemma set_collect_decisions [simp]:
  "set (collect_decisions ds) = (\<Union>d \<in> set ds. ClusterName ` set (Decisions d))"
proof -
  have "set (foldl (\<lambda>s d. foldl (\<lambda>s' cd. sets_insert s' (ClusterName cd)) s (Decisions d)) s ds) =
      set s \<union> (\<Union>d \<in> set ds. ClusterName ` set (Decisions d))" for s
    by (induction ds arbitrary: s) (auto simp: set_foldl_insert_name)
  then show ?thesis by (simp add: collect_decisions_def)
qed

lemma distinct_collect_decisions [simp]: "distinct (collect_decisions ds)"
proof -
  have i: "distinct s \<Longrightarrow> distinct (foldl (\<lambda>s' cd. sets_insert s' (ClusterName cd)) s cds)" for s cds
    by (induction cds arbitrary: s) auto
  have "distinct s \<Longrightarrow> distinct (foldl (\<lambda>s d. foldl (\<lambda>s' cd. sets_insert s' (ClusterName cd)) s
      (Decisions d)) s ds)" for s
    by (induction ds arbitrary: s) (auto simp: i)
  then show ?thesis by (simp add: collect_decisions_def)
qed

section \<open>Filters\<close>

text \<open>A filter that reports an error returns no cluster. One that does not decides each cluster by
  itself and keeps the order of those it keeps; whether it reports an error depends on the
  clusters only through there being any.\<close>

locale filter_plugin =
  fixes filt :: "PluginEnv \<Rightarrow> Handle \<Rightarrow> Placement \<Rightarrow> ManagedCluster list \<Rightarrow>
      PluginFilterResult \<times> Status"
  assumes filtered_on_error: "IsError (Some (snd (filt e h p cs))) \<Longrightarrow>
      Filtered (fst (filt e h p cs)) = []"
    and pointwise: "\<not> IsError (Some (snd (filt e h p cs))) \<Longrightarrow>
      Filtered (fst (filt e h p cs)) = filter (\<lambda>c. Filtered (fst (filt e h p [c])) = [c]) cs"
    and error_stable: "(cs = [] \<longleftrightarrow> ds = []) \<Longrightarrow> snd (filt e h p cs) = snd (filt e h p ds)"
    and no_error_on_none: "\<not> IsError (Some (snd (filt e h p [])))"
begin

lemma filtered_subset: "set (Filtered (fst (filt e h p cs))) \<subseteq> set cs"
  using filtered_on_error [of e h p cs] pointwise [of e h p cs]
  by (cases "IsError (Some (snd (filt e h p cs)))") auto

lemma filtered_distinct:
  "distinct (map f cs) \<Longrightarrow> distinct (map f (Filtered (fst (filt e h p cs))))"
  using filtered_on_error [of e h p cs] pointwise [of e h p cs]
  by (cases "IsError (Some (snd (filt e h p cs)))") (auto simp: distinct_map_filter)

lemma filtered_length: "length (Filtered (fst (filt e h p cs))) \<le> length cs"
  using filtered_on_error [of e h p cs] pointwise [of e h p cs]
  by (cases "IsError (Some (snd (filt e h p cs)))") auto

lemma error_stable_perm: "mset cs = mset ds \<Longrightarrow> snd (filt e h p cs) = snd (filt e h p ds)"
  by (rule error_stable) (metis mset_zero_iff)

text \<open>The clusters kept do not depend on the order of the input.\<close>

lemma filtered_perm:
  assumes "mset cs = mset ds"
  shows "mset (Filtered (fst (filt e h p cs))) = mset (Filtered (fst (filt e h p ds)))"
proof (cases "IsError (Some (snd (filt e h p cs)))")
  case True
  then show ?thesis
    using filtered_on_error [of e h p cs] filtered_on_error [of e h p ds]
      error_stable_perm [OF assms] by simp
next
  case False
  then have d: "\<not> IsError (Some (snd (filt e h p ds)))"
    using error_stable_perm [OF assms] by simp
  show ?thesis unfolding pointwise [OF False] pointwise [OF d] mset_filter assms ..
qed

text \<open>Filtering again changes nothing.\<close>

lemma filtered_idem:
  assumes "\<not> IsError (Some (snd (filt e h p cs)))"
  shows "Filtered (fst (filt e h p (Filtered (fst (filt e h p cs))))) = Filtered (fst (filt e h p cs))"
proof -
  let ?fs = "Filtered (fst (filt e h p cs))"
  have "\<not> IsError (Some (snd (filt e h p ?fs)))"
  proof (cases "?fs = []")
    case True
    then show ?thesis using no_error_on_none by simp
  next
    case False
    then have "cs \<noteq> []" using filtered_subset [of e h p cs] by auto
    then have "snd (filt e h p ?fs) = snd (filt e h p cs)"
      using False by (intro error_stable) simp
    then show ?thesis using assms by simp
  qed
  then have "Filtered (fst (filt e h p ?fs)) = filter (\<lambda>c. Filtered (fst (filt e h p [c])) = [c]) ?fs"
    by (rule pointwise)
  also have "\<dots> = ?fs"
    unfolding pointwise [OF assms] filter_filter by simp
  finally show ?thesis .
qed

end

section \<open>Prioritizers\<close>

text \<open>A prioritizer that reports an error returns no score. The clusters it scores are among those
  it was given, and the scores do not depend on the order in which it was given them.\<close>

locale prioritizer_plugin =
  fixes scr :: "PluginEnv \<Rightarrow> Handle \<Rightarrow> Placement \<Rightarrow> ManagedCluster list \<Rightarrow>
      PluginScoreResult \<times> Status"
  assumes scores_on_error: "IsError (Some (snd (scr e h p cs))) \<Longrightarrow>
      PScores (fst (scr e h p cs)) = Map.empty"
    and scores_dom: "dom (PScores (fst (scr e h p cs))) \<subseteq> Name ` set cs"
    and scores_perm: "mset cs = mset ds \<Longrightarrow> distinct (map Name cs) \<Longrightarrow>
      PScores (fst (scr e h p cs)) = PScores (fst (scr e h p ds))"
    and code_perm: "mset cs = mset ds \<Longrightarrow> distinct (map Name cs) \<Longrightarrow>
      code (snd (scr e h p cs)) = code (snd (scr e h p ds))"
begin

lemma scored_is_input: "PScores (fst (scr e h p cs)) n = Some v \<Longrightarrow> n \<in> Name ` set cs"
  using scores_dom [of e h p cs] by blast

lemma no_clusters_no_scores: "PScores (fst (scr e h p [])) = Map.empty"
  using scores_dom [of e h p "[]"] by simp

end

definition in_score_range :: "int64 \<Rightarrow> bool" where
  "in_score_range v \<longleftrightarrow> sint MinClusterScore \<le> sint v \<and> sint v \<le> sint MaxClusterScore"

locale bounded_prioritizer = prioritizer_plugin +
  assumes score_range: "PScores (fst (scr e h p cs)) n = Some v \<Longrightarrow> in_score_range v"
begin

lemma get0_range: "in_score_range (get0 (PScores (fst (scr e h p cs))) n)"
  using score_range [of e h p cs n]
  by (cases "PScores (fst (scr e h p cs)) n") (simp_all add: in_score_range_def MinClusterScore_def
      MaxClusterScore_def)

end

end
