(* ===== verification/PredicatePlugin.thy ===== *)
theory PredicatePlugin
  imports Plugins
begin

text \<open>
  \<open>pkg/plugins/predicate/predicate.go\<close>: the filter that keeps the clusters matching at least one
  predicate of the placement, a predicate being a label selector and a claim selector that must
  both match. The lemmas give the functional specification (\<open>predicate_Filter_spec\<close>), the error
  branch, and the interpretation of the filter interface.
\<close>

definition predicate_Name :: string where
  "predicate_Name = ''Predicate''"

record predicateSelector =
  labelSelector :: Selector
  claimSelector :: Selector

definition getClusterClaims :: "ManagedCluster \<Rightarrow> labels" where
  "getClusterClaims cluster =
     foldl (\<lambda>claims claim. claims(claim_name claim \<mapsto> claim_value claim)) Map.empty
       (ClusterClaims cluster)"

definition convertLabelSelector :: "LabelSelector \<Rightarrow> selector_error + Selector" where
  "convertLabelSelector ls = (case LabelSelectorAsSelector (Some ls) of
       Inl err \<Rightarrow> Inl err
     | Inr selector \<Rightarrow> Inr selector)"

definition convertClaimSelector :: "LabelSelectorRequirement list \<Rightarrow> selector_error + Selector" where
  "convertClaimSelector exprs =
     (case LabelSelectorAsSelector (Some \<lparr>MatchLabels = [], MatchExpressions = exprs\<rparr>) of
       Inl err \<Rightarrow> Inl err
     | Inr selector \<Rightarrow> Inr selector)"

definition build_selectors :: "ClusterPredicate list \<Rightarrow> selector_error + predicateSelector list" where
  "build_selectors preds = for_each (\<lambda>sels pr.
     case convertLabelSelector (PredLabelSelector pr) of
       Inl err \<Rightarrow> Inl err
     | Inr ls \<Rightarrow> (case convertClaimSelector (PredClaimExpressions pr) of
         Inl err \<Rightarrow> Inl err
       | Inr cs \<Rightarrow> Inr (sels @ [\<lparr>labelSelector = ls, claimSelector = cs\<rparr>]))) [] preds"

text \<open>The inner loop over the selectors: \<open>continue\<close> on a mismatch, \<open>break\<close> after the first
  selector that matches.\<close>

fun match_selectors :: "ManagedCluster \<Rightarrow> labels \<Rightarrow> predicateSelector list \<Rightarrow> bool" where
  "match_selectors cluster claims [] = False"
| "match_selectors cluster claims (ps # pss) =
     (if \<not> Matches (labelSelector ps) (ObjLabels cluster) then match_selectors cluster claims pss
      else if \<not> Matches (claimSelector ps) claims then match_selectors cluster claims pss
      else True)"

definition match_clusters :: "predicateSelector list \<Rightarrow> ManagedCluster list \<Rightarrow> ManagedCluster list" where
  "match_clusters pss clusters = foldl (\<lambda>matched cluster.
     let claims = getClusterClaims cluster in
     if match_selectors cluster claims pss then matched @ [cluster] else matched) [] clusters"

definition predicate_Filter ::
  "PluginEnv \<Rightarrow> Handle \<Rightarrow> Placement \<Rightarrow> ManagedCluster list \<Rightarrow> PluginFilterResult \<times> Status" where
  "predicate_Filter e h placement clusters =
     (let status = NewStatus predicate_Name Success [''''] in
      if Predicates (Spec placement) = [] then (\<lparr>Filtered = clusters\<rparr>, status)
      else if clusters = [] then (\<lparr>Filtered = clusters\<rparr>, status)
      else case build_selectors (Predicates (Spec placement)) of
        Inl err \<Rightarrow> (no_filter_result, NewStatus predicate_Name Misconfigured [SelectorErrText e err])
      | Inr pss \<Rightarrow> (\<lparr>Filtered = match_clusters pss clusters\<rparr>, status))"

definition predicate_RequeueAfter :: "Placement \<Rightarrow> PluginRequeueResult \<times> Status" where
  "predicate_RequeueAfter placement = (no_requeue_result, NewStatus predicate_Name Success [''''])"

section \<open>What the filter keeps\<close>

text \<open>A claim name that occurs twice has its last value.\<close>

lemma getClusterClaims_eq:
  "getClusterClaims c = map_of (rev (map (\<lambda>cl. (claim_name cl, claim_value cl)) (ClusterClaims c)))"
proof -
  have "foldl (\<lambda>m cl. m(claim_name cl \<mapsto> claim_value cl)) m cls =
      m ++ map_of (rev (map (\<lambda>cl. (claim_name cl, claim_value cl)) cls))" for m cls
    by (induction cls arbitrary: m) (simp_all add: map_add_upd_left flip: map_add_upd, simp add: map_add_def fun_eq_iff split: option.splits)
  from this [of Map.empty] show ?thesis by (simp add: getClusterClaims_def)
qed

text \<open>A cluster satisfies a predicate when its labels and its claims are as the selectors say.\<close>

definition satisfies_predicate :: "ManagedCluster \<Rightarrow> ClusterPredicate \<Rightarrow> bool" where
  "satisfies_predicate c pr \<longleftrightarrow>
     label_selector_holds (PredLabelSelector pr) (ObjLabels c) \<and>
     (\<forall>x \<in> set (PredClaimExpressions pr). expr_holds x (getClusterClaims c))"

lemma match_selectors_iff:
  "match_selectors c claims pss \<longleftrightarrow>
     (\<exists>ps \<in> set pss. Matches (labelSelector ps) (ObjLabels c) \<and> Matches (claimSelector ps) claims)"
  by (induction pss) auto

lemma match_clusters_eq:
  "match_clusters pss cs = filter (\<lambda>c. match_selectors c (getClusterClaims c) pss) cs"
proof -
  have "foldl (\<lambda>matched c. let claims = getClusterClaims c in
      if match_selectors c claims pss then matched @ [c] else matched) acc cs =
      acc @ filter (\<lambda>c. match_selectors c (getClusterClaims c) pss) cs" for acc
    by (induction cs arbitrary: acc) (simp_all add: Let_def)
  then show ?thesis by (simp add: match_clusters_def)
qed

lemma convertLabelSelector_matches:
  "convertLabelSelector ls = Inr sel \<Longrightarrow> Matches sel lbls \<longleftrightarrow> label_selector_holds ls lbls"
  by (auto simp: convertLabelSelector_def LabelSelectorAsSelector_matches split: sum.splits)

lemma convertClaimSelector_matches:
  "convertClaimSelector xs = Inr sel \<Longrightarrow> Matches sel lbls \<longleftrightarrow> (\<forall>x \<in> set xs. expr_holds x lbls)"
  by (auto simp: convertClaimSelector_def LabelSelectorAsSelector_matches label_selector_holds_def
      split: sum.splits)

definition sel_of :: "predicateSelector \<Rightarrow> ManagedCluster \<Rightarrow> bool" where
  "sel_of ps c \<longleftrightarrow>
     Matches (labelSelector ps) (ObjLabels c) \<and> Matches (claimSelector ps) (getClusterClaims c)"

lemma build_selectors_meaning:
  assumes "build_selectors preds = Inr pss"
  shows "(\<exists>ps \<in> set pss. sel_of ps c) \<longleftrightarrow> (\<exists>pr \<in> set preds. satisfies_predicate c pr)"
proof -
  have "(\<exists>ps \<in> set pss. sel_of ps c) \<longleftrightarrow>
      (\<exists>ps \<in> set acc. sel_of ps c) \<or> (\<exists>pr \<in> set preds. satisfies_predicate c pr)"
    if "for_each (\<lambda>sels pr.
     case convertLabelSelector (PredLabelSelector pr) of
       Inl err \<Rightarrow> Inl err
     | Inr ls \<Rightarrow> (case convertClaimSelector (PredClaimExpressions pr) of
         Inl err \<Rightarrow> Inl err
       | Inr cs \<Rightarrow> Inr (sels @ [\<lparr>labelSelector = ls, claimSelector = cs\<rparr>]))) acc preds = Inr pss" for acc
    using that
  proof (induction preds arbitrary: acc)
    case (Cons pr prs)
    then obtain ls cs where l: "convertLabelSelector (PredLabelSelector pr) = Inr ls"
      and c: "convertClaimSelector (PredClaimExpressions pr) = Inr cs"
      by (auto split: sum.splits)
    have "(\<exists>ps \<in> set pss. sel_of ps c) \<longleftrightarrow>
        (\<exists>ps \<in> set (acc @ [\<lparr>labelSelector = ls, claimSelector = cs\<rparr>]). sel_of ps c) \<or>
        (\<exists>pr \<in> set prs. satisfies_predicate c pr)"
      using Cons.prems by (intro Cons.IH) (simp add: l c)
    then show ?case
      by (auto simp: sel_of_def satisfies_predicate_def convertLabelSelector_matches [OF l]
          convertClaimSelector_matches [OF c])
  qed simp
  then show ?thesis using assms by (simp add: build_selectors_def)
qed

definition predicates_valid :: "Placement \<Rightarrow> bool" where
  "predicates_valid p \<longleftrightarrow> (\<exists>pss. build_selectors (Predicates (Spec p)) = Inr pss)"

text \<open>That is, when both selectors of each predicate are valid.\<close>

definition predicate_valid :: "ClusterPredicate \<Rightarrow> bool" where
  "predicate_valid pr \<longleftrightarrow> label_selector_valid (PredLabelSelector pr) \<and> (\<forall>x \<in> set (PredClaimExpressions pr). expr_valid x)"

lemma predicates_valid_iff: "predicates_valid p \<longleftrightarrow> (\<forall>pr \<in> set (Predicates (Spec p)). predicate_valid pr)"
proof -
  have l: "isl (convertLabelSelector ls) \<longleftrightarrow> \<not> label_selector_valid ls" for ls
    using LabelSelectorAsSelector_isl [of ls]
    by (cases "LabelSelectorAsSelector (Some ls)") (simp_all add: convertLabelSelector_def)
  have c: "isl (convertClaimSelector xs) \<longleftrightarrow> \<not> (\<forall>x \<in> set xs. expr_valid x)" for xs
    using LabelSelectorAsSelector_isl [of "\<lparr>MatchLabels = [], MatchExpressions = xs\<rparr>"]
    by (cases "LabelSelectorAsSelector (Some \<lparr>MatchLabels = [], MatchExpressions = xs\<rparr>)")
      (simp_all add: convertClaimSelector_def label_selector_valid_def)
  have "isl (build_selectors (Predicates (Spec p))) \<longleftrightarrow> (\<exists>pr \<in> set (Predicates (Spec p)). \<not> predicate_valid pr)"
    unfolding build_selectors_def
  proof (rule for_each_isl)
    fix sels pr
    show "isl (case convertLabelSelector (PredLabelSelector pr) of Inl err \<Rightarrow> Inl err
        | Inr ls \<Rightarrow> (case convertClaimSelector (PredClaimExpressions pr) of Inl err \<Rightarrow> Inl err
          | Inr cs \<Rightarrow> Inr (sels @ [\<lparr>labelSelector = ls, claimSelector = cs\<rparr>]))) \<longleftrightarrow> \<not> predicate_valid pr"
      using l [of "PredLabelSelector pr"] c [of "PredClaimExpressions pr"]
      by (cases "convertLabelSelector (PredLabelSelector pr)"; cases "convertClaimSelector (PredClaimExpressions pr)")
        (auto simp: predicate_valid_def)
  qed
  then show ?thesis by (cases "build_selectors (Predicates (Spec p))") (auto simp: predicates_valid_def)
qed

lemma predicate_Filter_valid:
  assumes "predicates_valid p \<or> Predicates (Spec p) = [] \<or> cs = []"
  shows "predicate_Filter e h p cs =
    (\<lparr>Filtered = filter (\<lambda>c. Predicates (Spec p) = [] \<or>
        (\<exists>pr \<in> set (Predicates (Spec p)). satisfies_predicate c pr)) cs\<rparr>,
     NewStatus predicate_Name Success [''''])"
proof (cases "Predicates (Spec p) = [] \<or> cs = []")
  case True
  then show ?thesis by (auto simp: predicate_Filter_def Let_def)
next
  case False
  then obtain pss where b: "build_selectors (Predicates (Spec p)) = Inr pss"
    using assms by (auto simp: predicates_valid_def)
  have "match_clusters pss cs = filter (\<lambda>c. \<exists>pr \<in> set (Predicates (Spec p)). satisfies_predicate c pr) cs"
    unfolding match_clusters_eq match_selectors_iff
    using build_selectors_meaning [OF b] by (simp add: sel_of_def)
  then show ?thesis using False by (simp add: predicate_Filter_def Let_def b)
qed

lemma predicate_Filter_invalid:
  assumes "\<not> predicates_valid p" "Predicates (Spec p) \<noteq> []" "cs \<noteq> []"
  shows "fst (predicate_Filter e h p cs) = no_filter_result"
    and "code (snd (predicate_Filter e h p cs)) = Misconfigured"
  using assms by (auto simp: predicate_Filter_def predicates_valid_def Let_def split: sum.splits)

lemma predicate_error_iff:
  "IsError (Some (snd (predicate_Filter e h p cs))) \<longleftrightarrow>
     \<not> predicates_valid p \<and> Predicates (Spec p) \<noteq> [] \<and> cs \<noteq> []"
  using predicate_Filter_valid [of p cs e h] predicate_Filter_invalid [of p cs e h]
  by (cases "predicates_valid p \<or> Predicates (Spec p) = [] \<or> cs = []") (auto simp: IsError_Some)

interpretation predicate: filter_plugin predicate_Filter
proof
  fix e h p cs ds
  show "IsError (Some (snd (predicate_Filter e h p cs))) \<Longrightarrow>
      Filtered (fst (predicate_Filter e h p cs)) = []"
    using predicate_Filter_invalid(1) [of p cs e h] by (simp add: predicate_error_iff no_filter_result_def)
  show "\<not> IsError (Some (snd (predicate_Filter e h p cs))) \<Longrightarrow>
      Filtered (fst (predicate_Filter e h p cs)) =
      filter (\<lambda>c. Filtered (fst (predicate_Filter e h p [c])) = [c]) cs"
    by (cases "cs = []") (auto simp: predicate_error_iff predicate_Filter_valid intro!: filter_cong)
  show "(cs = [] \<longleftrightarrow> ds = []) \<Longrightarrow> snd (predicate_Filter e h p cs) = snd (predicate_Filter e h p ds)"
    by (auto simp: predicate_Filter_def Let_def split: sum.splits)
  show "\<not> IsError (Some (snd (predicate_Filter e h p [])))"
    by (simp add: predicate_error_iff)
qed


text \<open>C35: the predicate filter keeps, in their order, exactly the clusters that satisfy one of the
  placement's predicates (labels and claims together), all clusters when there is no predicate; with
  a predicate that does not validate it keeps none and reports \<open>Misconfigured\<close>.\<close>

theorem predicate_Filter_spec:
  "Filtered (fst (predicate_Filter e h p cs)) =
    (if Predicates (Spec p) = [] then cs
     else if predicates_valid p
     then filter (\<lambda>c. \<exists>pr \<in> set (Predicates (Spec p)). satisfies_predicate c pr) cs else []) \<and>
   code (snd (predicate_Filter e h p cs)) =
    (if Predicates (Spec p) = [] \<or> cs = [] \<or> predicates_valid p then Success else Misconfigured)"
proof (cases "predicates_valid p \<or> Predicates (Spec p) = [] \<or> cs = []")
  case True
  then show ?thesis by (auto simp: predicate_Filter_valid)
next
  case False
  then show ?thesis using predicate_Filter_invalid [of p cs e h] by (simp add: no_filter_result_def)
qed

end
