(* ===== verification/TaintToleration.thy ===== *)
theory TaintToleration
  imports Plugins
begin

text \<open>
  \<open>pkg/plugins/tainttoleration/taint_toleration.go\<close>: the filter that drops the clusters with a
  taint the placement does not tolerate, and the time after which a placement must be scheduled
  again because a toleration runs out. A requeue result pointer is an option. The clock is read
  once per call of the plugin (\<open>TolerationNow\<close>). \<open>time.Duration(s) * time.Second\<close> is an
  \<open>int64\<close> product and wraps around.
\<close>

definition taintToleration_Name :: string where
  "taintToleration_Name = ''TaintToleration''"

text \<open>The label of \<open>PlacementDecision\<close> objects (constant \<open>placementLabel\<close>), and the names already
  in the placement's decisions; errors of the selector and of the lister yield the empty set.\<close>

definition getDecisionClusterNames :: "Handle \<Rightarrow> Placement \<Rightarrow> string list" where
  "getDecisionClusterNames h placement = (case equals_selector PlacementLabel (Name placement) of
       Inl e \<Rightarrow> []
     | Inr labelSelector \<Rightarrow>
         (case ns_list (DecisionLister h) (Namespace placement) labelSelector of
            Inl e \<Rightarrow> []
          | Inr decisions \<Rightarrow> collect_decisions decisions))"

text \<open>\<open>for c := range decisionClusterNames\<close>: the order of the names is \<open>NameOrder\<close>.\<close>

definition getDecisionClusters ::
  "PluginEnv \<Rightarrow> Handle \<Rightarrow> Placement \<Rightarrow> string list \<times> ManagedCluster list" where
  "getDecisionClusters e h placement =
     (let decisionClusterNames = getDecisionClusterNames h placement;
          decisionClusters = foldl (\<lambda>acc c. case cl_get (ClusterLister h) c of
             Inl er \<Rightarrow> acc | Inr managedCluster \<Rightarrow> acc @ [managedCluster]) []
             (NameOrder e decisionClusterNames)
      in (decisionClusterNames, decisionClusters))"

definition minRequeueTime ::
  "PluginRequeueResult option \<Rightarrow> PluginRequeueResult option \<Rightarrow> PluginRequeueResult option" where
  "minRequeueTime x y = (case x of None \<Rightarrow> y | Some rx \<Rightarrow> (case y of None \<Rightarrow> x | Some ry \<Rightarrow>
     (case RequeueTime rx of None \<Rightarrow> None | Some t1 \<Rightarrow>
       (case RequeueTime ry of None \<Rightarrow> None | Some t2 \<Rightarrow>
          if time_before t1 t2 then x else y))))"

text \<open>The instant at which a toleration of a taint runs out.\<close>

definition toleration_end :: "Taint \<Rightarrow> int64 \<Rightarrow> go_time" where
  "toleration_end taint secs = time_add (TimeAdded taint) (secs * nanos_per_second)"

definition toleration_message :: "PluginEnv \<Rightarrow> Taint \<Rightarrow> int64 \<Rightarrow> string" where
  "toleration_message e taint secs =
     ''Cluster clustername taint is added at '' @ ShowTime e (TimeAdded taint) @
     '', placement toleration seconds is '' @ show_int (sint secs)"

definition isTolerationTimeExpired ::
  "PluginEnv \<Rightarrow> Taint \<Rightarrow> Toleration \<Rightarrow> bool \<times> PluginRequeueResult option \<times> string" where
  "isTolerationTimeExpired e taint toleration = (case TolerationSeconds toleration of
       None \<Rightarrow> (True, None, '''')
     | Some secs \<Rightarrow>
         (let requeueTime = toleration_end taint secs in
          if time_before (TolerationNow e) requeueTime
          then (True, Some \<lparr>RequeueTime = Some requeueTime\<rparr>,
                toleration_message e taint secs)
          else (False, None, '''')))"

definition isTolerated ::
  "PluginEnv \<Rightarrow> Taint \<Rightarrow> Toleration \<Rightarrow> bool \<times> PluginRequeueResult option \<times> string" where
  "isTolerated e taint toleration =
     (if length (tol_effect toleration) > 0 \<and> tol_effect toleration \<noteq> taint_effect taint
        then (False, None, '''')
      else if length (tol_key toleration) > 0 \<and> tol_key toleration \<noteq> taint_key taint
        then (False, None, '''')
      else let taintMatched =
          (if tol_operator toleration = '''' \<or> tol_operator toleration = TolerationOpEqual
             then tol_value toleration = taint_value taint
           else if tol_operator toleration = TolerationOpExists then True
           else False)
        in if taintMatched then isTolerationTimeExpired e taint toleration
           else (False, None, ''''))"

fun tolerated_by_any ::
  "PluginEnv \<Rightarrow> Taint \<Rightarrow> Toleration list \<Rightarrow> string \<Rightarrow> bool \<times> PluginRequeueResult option \<times> string" where
  "tolerated_by_any e taint [] message = (False, None, message)"
| "tolerated_by_any e taint (t # ts) message = (case isTolerated e taint t of
     (tolerated, requeue, msg) \<Rightarrow>
       if tolerated then (True, requeue, msg) else tolerated_by_any e taint ts msg)"

definition isTaintTolerated ::
  "PluginEnv \<Rightarrow> Taint \<Rightarrow> Toleration list \<Rightarrow> bool \<Rightarrow> bool \<times> PluginRequeueResult option \<times> string" where
  "isTaintTolerated e taint tolerations inDecision =
     (if taint_effect taint = TaintEffectPreferNoSelect then (True, None, '''')
      else if taint_effect taint = TaintEffectNoSelectIfNew \<and> inDecision then (True, None, '''')
      else tolerated_by_any e taint tolerations '''')"

fun taints_tolerated ::
  "PluginEnv \<Rightarrow> Taint list \<Rightarrow> Toleration list \<Rightarrow> bool \<Rightarrow> PluginRequeueResult option \<Rightarrow>
     bool \<times> PluginRequeueResult option \<times> string" where
  "taints_tolerated e [] tolerations inDecision minRequeue = (True, minRequeue, '''')"
| "taints_tolerated e (taint # taints) tolerations inDecision minRequeue =
     (case isTaintTolerated e taint tolerations inDecision of (tolerated, requeue, message) \<Rightarrow>
        if \<not> tolerated then (False, None, message)
        else taints_tolerated e taints tolerations inDecision (minRequeueTime minRequeue requeue))"

definition isClusterTolerated ::
  "PluginEnv \<Rightarrow> ManagedCluster \<Rightarrow> Toleration list \<Rightarrow> bool \<Rightarrow>
     bool \<times> PluginRequeueResult option \<times> string" where
  "isClusterTolerated e cluster tolerations inDecision =
     taints_tolerated e (Taints cluster) tolerations inDecision None"

text \<open>The validation loop: the text of the first toleration that is not valid.\<close>

fun validate_tolerations :: "Toleration list \<Rightarrow> string option" where
  "validate_tolerations [] = None"
| "validate_tolerations (t # ts) =
     (if length (tol_key t) = 0 \<and> tol_operator t \<noteq> TolerationOpExists
        then Some ''If the key is empty, operator must be Exists.''
      else if tol_operator t = TolerationOpExists \<and> length (tol_value t) > 0
        then Some ''If the operator is Exists, the value should be empty.''
      else validate_tolerations ts)"

definition taintToleration_Filter ::
  "PluginEnv \<Rightarrow> Handle \<Rightarrow> Placement \<Rightarrow> ManagedCluster list \<Rightarrow> PluginFilterResult \<times> Status" where
  "taintToleration_Filter e h placement clusters =
     (let status = NewStatus taintToleration_Name Success [''''] in
      if length clusters = 0 then (\<lparr>Filtered = clusters\<rparr>, status)
      else case validate_tolerations (Tolerations (Spec placement)) of
        Some msg \<Rightarrow> (no_filter_result, NewStatus taintToleration_Name Misconfigured [msg])
      | None \<Rightarrow>
         (let decisionClusterNames = getDecisionClusterNames h placement;
              matched = foldl (\<lambda>acc cluster.
                 if fst (isClusterTolerated e cluster (Tolerations (Spec placement))
                           (sets_has decisionClusterNames (Name cluster)))
                 then acc @ [cluster] else acc) [] clusters
          in (\<lparr>Filtered = matched\<rparr>, status)))"

fun requeue_clusters ::
  "PluginEnv \<Rightarrow> Toleration list \<Rightarrow> string list \<Rightarrow> ManagedCluster list \<Rightarrow>
     PluginRequeueResult option \<times> Status \<Rightarrow> PluginRequeueResult option \<times> Status" where
  "requeue_clusters e tolerations names [] acc = acc"
| "requeue_clusters e tolerations names (cluster # cs) (minRequeue, status) =
     (case isClusterTolerated e cluster tolerations (sets_has names (Name cluster)) of
        (tolerated, requeue, msg) \<Rightarrow>
          if tolerated
          then requeue_clusters e tolerations names cs (minRequeueTime minRequeue requeue, status)
          else requeue_clusters e tolerations names cs (minRequeue, AppendReason status msg))"

text \<open>The guard against nil sets and slices never applies: both are made with a literal.\<close>

definition taintToleration_RequeueAfter ::
  "PluginEnv \<Rightarrow> Handle \<Rightarrow> Placement \<Rightarrow> PluginRequeueResult \<times> Status" where
  "taintToleration_RequeueAfter e h placement =
     (let status = NewStatus taintToleration_Name Success [''''];
          (names, clusters) = getDecisionClusters e h placement;
          (minRequeue, status') = requeue_clusters e (Tolerations (Spec placement))
             names clusters (None, status)
      in case minRequeue of
           None \<Rightarrow> (no_requeue_result, status')
         | Some r \<Rightarrow> (r, status'))"

section \<open>Which taints are tolerated\<close>

definition taint_matches :: "Taint \<Rightarrow> Toleration \<Rightarrow> bool" where
  "taint_matches taint tol \<longleftrightarrow>
     (tol_effect tol = [] \<or> tol_effect tol = taint_effect taint) \<and>
     (tol_key tol = [] \<or> tol_key tol = taint_key taint) \<and>
     (tol_operator tol \<in> {'''', TolerationOpEqual} \<and> tol_value tol = taint_value taint
      \<or> tol_operator tol = TolerationOpExists)"

definition toleration_live :: "go_time \<Rightarrow> Taint \<Rightarrow> Toleration \<Rightarrow> bool" where
  "toleration_live now taint tol =
     (case TolerationSeconds tol of None \<Rightarrow> True | Some secs \<Rightarrow> now < toleration_end taint secs)"

definition taint_tolerated :: "go_time \<Rightarrow> Taint \<Rightarrow> Toleration list \<Rightarrow> bool \<Rightarrow> bool" where
  "taint_tolerated now taint tols inDecision \<longleftrightarrow>
     taint_effect taint = TaintEffectPreferNoSelect \<or>
     taint_effect taint = TaintEffectNoSelectIfNew \<and> inDecision \<or>
     (\<exists>tol \<in> set tols. taint_matches taint tol \<and> toleration_live now taint tol)"

definition cluster_tolerated :: "go_time \<Rightarrow> ManagedCluster \<Rightarrow> Toleration list \<Rightarrow> bool \<Rightarrow> bool" where
  "cluster_tolerated now c tols inDecision \<longleftrightarrow>
     (\<forall>taint \<in> set (Taints c). taint_tolerated now taint tols inDecision)"

lemma fst_isTolerated:
  "fst (isTolerated e taint tol) \<longleftrightarrow> taint_matches taint tol \<and> toleration_live (TolerationNow e) taint tol"
proof -
  have x: "fst (isTolerationTimeExpired e taint tol) \<longleftrightarrow> toleration_live (TolerationNow e) taint tol"
    by (simp add: isTolerationTimeExpired_def toleration_live_def time_before_def Let_def
        split: option.splits)
  show ?thesis
    unfolding isTolerated_def Let_def taint_matches_def by (simp add: x)
qed

lemma fst_tolerated_by_any:
  "fst (tolerated_by_any e taint tols msg) \<longleftrightarrow>
     (\<exists>tol \<in> set tols. taint_matches taint tol \<and> toleration_live (TolerationNow e) taint tol)"
proof (induction tols arbitrary: msg)
  case (Cons t ts)
  then show ?case using fst_isTolerated [of e taint t]
    by (cases "isTolerated e taint t") auto
qed simp

lemma fst_isTaintTolerated:
  "fst (isTaintTolerated e taint tols inD) \<longleftrightarrow> taint_tolerated (TolerationNow e) taint tols inD"
  unfolding isTaintTolerated_def taint_tolerated_def by (auto simp: fst_tolerated_by_any)

lemma fst_taints_tolerated:
  "fst (taints_tolerated e taints tols inD mr) \<longleftrightarrow>
     (\<forall>taint \<in> set taints. taint_tolerated (TolerationNow e) taint tols inD)"
proof (induction taints arbitrary: mr)
  case (Cons t ts)
  then show ?case using fst_isTaintTolerated [of e t tols inD]
    by (cases "isTaintTolerated e t tols inD") auto
qed simp

lemma fst_isClusterTolerated:
  "fst (isClusterTolerated e c tols inD) \<longleftrightarrow> cluster_tolerated (TolerationNow e) c tols inD"
  by (simp add: isClusterTolerated_def cluster_tolerated_def fst_taints_tolerated)

lemma foldl_filter: "foldl (\<lambda>acc x. if P x then acc @ [x] else acc) acc xs = acc @ filter P xs"
  by (induction xs arbitrary: acc) auto

definition tolerations_valid :: "Placement \<Rightarrow> bool" where
  "tolerations_valid p \<longleftrightarrow> (\<forall>t \<in> set (Tolerations (Spec p)).
     (tol_key t = [] \<longrightarrow> tol_operator t = TolerationOpExists) \<and>
     (tol_operator t = TolerationOpExists \<longrightarrow> tol_value t = []))"

lemma validate_tolerations_None_iff:
  "validate_tolerations ts = None \<longleftrightarrow> (\<forall>t \<in> set ts.
     (tol_key t = [] \<longrightarrow> tol_operator t = TolerationOpExists) \<and>
     (tol_operator t = TolerationOpExists \<longrightarrow> tol_value t = []))"
  by (induction ts) auto

lemma tolerations_valid_iff:
  "tolerations_valid p \<longleftrightarrow> validate_tolerations (Tolerations (Spec p)) = None"
  by (simp add: tolerations_valid_def validate_tolerations_None_iff)

lemma taintToleration_Filter_valid:
  assumes "tolerations_valid p \<or> cs = []"
  shows "taintToleration_Filter e h p cs =
    (\<lparr>Filtered = filter (\<lambda>c. cluster_tolerated (TolerationNow e) c (Tolerations (Spec p))
        (Name c \<in> set (getDecisionClusterNames h p))) cs\<rparr>,
     NewStatus taintToleration_Name Success [''''])"
  using assms
  by (auto simp: taintToleration_Filter_def Let_def tolerations_valid_iff fst_isClusterTolerated
      foldl_filter)

lemma taintToleration_Filter_invalid:
  assumes "\<not> tolerations_valid p" "cs \<noteq> []"
  shows "fst (taintToleration_Filter e h p cs) = no_filter_result"
    and "code (snd (taintToleration_Filter e h p cs)) = Misconfigured"
  using assms by (auto simp: taintToleration_Filter_def Let_def tolerations_valid_iff)

lemma taintToleration_error_iff:
  "IsError (Some (snd (taintToleration_Filter e h p cs))) \<longleftrightarrow> \<not> tolerations_valid p \<and> cs \<noteq> []"
  using taintToleration_Filter_valid [of p cs e h] taintToleration_Filter_invalid [of p cs e h]
  by (cases "tolerations_valid p \<or> cs = []") (auto simp: IsError_Some)

interpretation taint_toleration: filter_plugin taintToleration_Filter
proof
  fix e h p cs ds
  show "IsError (Some (snd (taintToleration_Filter e h p cs))) \<Longrightarrow>
      Filtered (fst (taintToleration_Filter e h p cs)) = []"
    using taintToleration_Filter_invalid(1) [of p cs e h]
    by (simp add: taintToleration_error_iff no_filter_result_def)
  show "\<not> IsError (Some (snd (taintToleration_Filter e h p cs))) \<Longrightarrow>
      Filtered (fst (taintToleration_Filter e h p cs)) =
      filter (\<lambda>c. Filtered (fst (taintToleration_Filter e h p [c])) = [c]) cs"
    by (cases "cs = []")
      (auto simp: taintToleration_error_iff taintToleration_Filter_valid intro!: filter_cong)
  show "(cs = [] \<longleftrightarrow> ds = []) \<Longrightarrow>
      snd (taintToleration_Filter e h p cs) = snd (taintToleration_Filter e h p ds)"
    by (auto simp: taintToleration_Filter_def Let_def split: option.splits)
  show "\<not> IsError (Some (snd (taintToleration_Filter e h p [])))"
    by (simp add: taintToleration_error_iff)
qed

section \<open>When a toleration runs out\<close>

text \<open>For toleration periods up to 292 years the end is the sum of the two; beyond, the product
  wraps around.\<close>

lemma toleration_end_exact:
  assumes "\<bar>sint secs\<bar> \<le> 9223372036"
  shows "toleration_end taint secs = TimeAdded taint + sint secs * 1000000000"
proof -
  have n: "sint nanos_per_second = 1000000000" by (simp add: nanos_per_second_def)
  have "sint (secs * nanos_per_second) = sint secs * sint nanos_per_second"
    by (rule sint_times_int64) (use assms in \<open>simp_all add: n abs_le_iff\<close>)
  then show ?thesis by (simp add: toleration_end_def time_add_def n)
qed

lemma toleration_end_wraps:
  "toleration_end taint secs = TimeAdded taint + ((sint secs * 1000000000 + 2 ^ 63) mod 2 ^ 64 - 2 ^ 63)"
proof -
  have "secs * nanos_per_second = word_of_int (sint secs * 1000000000)" by (simp add: nanos_per_second_def)
  moreover have "sint (word_of_int (sint secs * 1000000000) :: int64) = signed_take_bit 63 (sint secs * 1000000000)"
    by (simp only: sint_sbintrunc') simp
  ultimately have "sint (secs * nanos_per_second) = signed_take_bit 63 (sint secs * 1000000000)" by (simp only:)
  then show ?thesis by (simp add: toleration_end_def time_add_def signed_take_bit_eq_take_bit_shift take_bit_eq_mod)
qed

definition requeue_time :: "PluginRequeueResult option \<Rightarrow> go_time option" where
  "requeue_time r = (case r of None \<Rightarrow> None | Some x \<Rightarrow> RequeueTime x)"

text \<open>\<open>now'\<close> is before the requeue time: an absent requeue result, or one without a time, never
  comes due.\<close>

definition before_requeue :: "go_time \<Rightarrow> PluginRequeueResult option \<Rightarrow> bool" where
  "before_requeue now r = (case requeue_time r of None \<Rightarrow> True | Some t \<Rightarrow> now < t)"

definition has_time :: "PluginRequeueResult option \<Rightarrow> bool" where
  "has_time r \<longleftrightarrow> (\<forall>x. r = Some x \<longrightarrow> RequeueTime x \<noteq> None)"

lemma before_requeue_None [simp]: "before_requeue now None"
  by (simp add: before_requeue_def requeue_time_def)

lemma before_requeue_min:
  "has_time x \<Longrightarrow> has_time y \<Longrightarrow>
     before_requeue now (minRequeueTime x y) \<longleftrightarrow> before_requeue now x \<and> before_requeue now y"
  by (auto simp: before_requeue_def requeue_time_def has_time_def minRequeueTime_def time_before_def
      split: option.splits)

lemma has_time_min: "has_time x \<Longrightarrow> has_time y \<Longrightarrow> has_time (minRequeueTime x y)"
  by (auto simp: has_time_def minRequeueTime_def split: option.splits)

lemma has_time_None [simp]: "has_time None"
  by (simp add: has_time_def)

lemma isTolerated_requeue:
  assumes "isTolerated e taint tol = (True, r, m)"
  shows "has_time r \<and> (before_requeue now' r \<longleftrightarrow> toleration_live now' taint tol)"
  using assms unfolding isTolerated_def isTolerationTimeExpired_def Let_def
  by (auto simp: has_time_def before_requeue_def requeue_time_def toleration_live_def
      split: if_splits option.splits)

lemma tolerated_by_any_requeue:
  "tolerated_by_any e taint tols msg = (True, r, m) \<Longrightarrow> has_time r \<and> (before_requeue now' r \<longrightarrow>
     (\<exists>tol \<in> set tols. taint_matches taint tol \<and> toleration_live now' taint tol))"
proof (induction tols arbitrary: msg)
  case (Cons t ts)
  obtain b r' m' where i: "isTolerated e taint t = (b, r', m')" by (metis prod_cases3)
  show ?case
  proof (cases b)
    case True
    then show ?thesis using Cons.prems i isTolerated_requeue [of e taint t r' m' now']
        fst_isTolerated [of e taint t] by auto
  next
    case False
    then show ?thesis using Cons i by auto
  qed
qed simp

lemma isTaintTolerated_requeue:
  assumes "isTaintTolerated e taint tols inD = (True, r, m)"
  shows "has_time r \<and> (before_requeue now' r \<longrightarrow> taint_tolerated now' taint tols inD)"
  using assms tolerated_by_any_requeue [of e taint tols "''''" r m now']
  by (auto simp: isTaintTolerated_def taint_tolerated_def split: if_splits)

lemma taints_tolerated_requeue:
  "taints_tolerated e taints tols inD mr = (True, r, m) \<Longrightarrow> has_time mr \<Longrightarrow>
     has_time r \<and> (before_requeue now' r \<longrightarrow> before_requeue now' mr \<and>
     (\<forall>taint \<in> set taints. taint_tolerated now' taint tols inD))"
proof (induction taints arbitrary: mr)
  case (Cons t ts)
  obtain b r' m' where i: "isTaintTolerated e t tols inD = (b, r', m')" by (metis prod_cases3)
  with Cons.prems have b: "b" by (auto split: if_splits)
  then have q: "has_time r' \<and> (before_requeue now' r' \<longrightarrow> taint_tolerated now' t tols inD)"
    using isTaintTolerated_requeue i by simp
  have "has_time r \<and> (before_requeue now' r \<longrightarrow> before_requeue now' (minRequeueTime mr r') \<and>
     (\<forall>taint \<in> set ts. taint_tolerated now' taint tols inD))"
    by (rule Cons.IH) (use Cons.prems i b q in \<open>auto intro: has_time_min\<close>)
  then show ?case using q Cons.prems by (auto simp: before_requeue_min)
qed simp

lemma isClusterTolerated_requeue:
  assumes "isClusterTolerated e c tols inD = (True, r, m)"
  shows "has_time r \<and> (before_requeue now' r \<longrightarrow> cluster_tolerated now' c tols inD)"
  using assms taints_tolerated_requeue [of e "Taints c" tols inD None r m now']
  by (auto simp: isClusterTolerated_def cluster_tolerated_def)

lemma requeue_clusters_stable:
  "requeue_clusters e tols names cs (mr, st) = (r, st') \<Longrightarrow> has_time mr \<Longrightarrow>
   has_time r \<and> (before_requeue now' r \<longrightarrow> before_requeue now' mr \<and>
     (\<forall>c \<in> set cs. cluster_tolerated (TolerationNow e) c tols (Name c \<in> set names) \<longrightarrow>
        cluster_tolerated now' c tols (Name c \<in> set names)))"
proof (induction cs arbitrary: mr st)
  case (Cons c cs)
  let ?inD = "Name c \<in> set names"
  obtain b r' m' where i: "isClusterTolerated e c tols ?inD = (b, r', m')"
    by (metis prod_cases3)
  have f: "b \<longleftrightarrow> cluster_tolerated (TolerationNow e) c tols ?inD"
    using fst_isClusterTolerated [of e c tols ?inD] i by simp
  show ?case
  proof (cases b)
    case True
    then have q: "has_time r' \<and> (before_requeue now' r' \<longrightarrow> cluster_tolerated now' c tols ?inD)"
      using isClusterTolerated_requeue i by simp
    have "requeue_clusters e tols names cs (minRequeueTime mr r', st) = (r, st')"
      using Cons.prems i True by simp
    from Cons.IH [OF this] show ?thesis
      using q Cons.prems by (auto simp: before_requeue_min intro: has_time_min)
  next
    case False
    then have "requeue_clusters e tols names cs (mr, AppendReason st m') = (r, st')"
      using Cons.prems i by simp
    from Cons.IH [OF this Cons.prems(2)] show ?thesis using False f by auto
  qed
qed simp

lemma status_requeue_clusters:
  "requeue_clusters e tols names cs (mr, st) = (r, st') \<Longrightarrow> code st' = code st"
proof (induction cs arbitrary: mr st)
  case (Cons c cs)
  then show ?case
    by (cases "isClusterTolerated e c tols (Name c \<in> set names)") (fastforce split: if_splits)
qed simp

text \<open>Where a requeue time comes from: it is the end of a toleration of a taint, still ahead.\<close>

definition requeue_from :: "PluginEnv \<Rightarrow> Taint set \<Rightarrow> Toleration set \<Rightarrow> PluginRequeueResult option \<Rightarrow> bool" where
  "requeue_from e taints tols r \<longleftrightarrow> (\<forall>t. requeue_time r = Some t \<longrightarrow> TolerationNow e < t \<and>
     (\<exists>taint \<in> taints. \<exists>tol \<in> tols. \<exists>secs. TolerationSeconds tol = Some secs \<and> t = toleration_end taint secs))"

lemma requeue_from_None [simp]: "requeue_from e A B None"
  by (simp add: requeue_from_def requeue_time_def)

lemma requeue_from_min:
  "requeue_from e A B x \<Longrightarrow> requeue_from e A B y \<Longrightarrow> requeue_from e A B (minRequeueTime x y)"
  by (auto simp: requeue_from_def requeue_time_def minRequeueTime_def split: option.splits)

lemma requeue_from_mono:
  "requeue_from e A B x \<Longrightarrow> A \<subseteq> A' \<Longrightarrow> B \<subseteq> B' \<Longrightarrow> requeue_from e A' B' x"
  unfolding requeue_from_def by fast

lemma isTolerated_from: "requeue_from e {taint} {tol} (fst (snd (isTolerated e taint tol)))"
  by (auto simp: isTolerated_def isTolerationTimeExpired_def requeue_from_def requeue_time_def
      time_before_def Let_def split: option.splits if_splits)

lemma tolerated_by_any_from:
  "requeue_from e {taint} (set tols) (fst (snd (tolerated_by_any e taint tols msg)))"
proof (induction tols arbitrary: msg)
  case (Cons t ts)
  obtain b r m where i: "isTolerated e taint t = (b, r, m)" by (metis prod_cases3)
  show ?case
    using isTolerated_from [of e taint t] Cons.IH [of m] i
    by (auto intro: requeue_from_mono)
qed simp

lemma isTaintTolerated_from:
  "requeue_from e {taint} (set tols) (fst (snd (isTaintTolerated e taint tols inD)))"
  by (simp add: isTaintTolerated_def tolerated_by_any_from)

lemma taints_tolerated_from:
  "requeue_from e A (set tols) mr \<Longrightarrow> set taints \<subseteq> A \<Longrightarrow>
     requeue_from e A (set tols) (fst (snd (taints_tolerated e taints tols inD mr)))"
proof (induction taints arbitrary: mr)
  case (Cons t ts)
  obtain b r m where i: "isTaintTolerated e t tols inD = (b, r, m)" by (metis prod_cases3)
  have "requeue_from e A (set tols) r"
    using isTaintTolerated_from [of e t tols inD] i Cons.prems(2) by (auto intro: requeue_from_mono)
  then have "requeue_from e A (set tols) (minRequeueTime mr r)" using Cons.prems(1) requeue_from_min by blast
  from Cons.IH [OF this] Cons.prems(2) show ?case by (simp add: i)
qed simp

lemma requeue_clusters_from:
  "requeue_from e A (set tols) mr \<Longrightarrow> (\<And>c. c \<in> set cs \<Longrightarrow> set (Taints c) \<subseteq> A) \<Longrightarrow>
     requeue_from e A (set tols) (fst (requeue_clusters e tols names cs (mr, st)))"
proof (induction cs arbitrary: mr st)
  case (Cons c cs)
  let ?inD = "Name c \<in> set names"
  obtain b r m where i: "isClusterTolerated e c tols ?inD = (b, r, m)" by (metis prod_cases3)
  have "requeue_from e A (set tols) r"
    using taints_tolerated_from [of e A tols None "Taints c" ?inD] i Cons.prems(2)
    by (simp add: isClusterTolerated_def)
  then have "requeue_from e A (set tols) (minRequeueTime mr r)" using Cons.prems(1) requeue_from_min by blast
  then show ?case using Cons by (simp add: i)
qed simp

section \<open>The order of the decision clusters\<close>

text \<open>Nothing but \<open>getDecisionClusters\<close> ranges over a set of names.\<close>

lemma isTolerated_order [simp]: "isTolerated (e\<lparr>NameOrder := f\<rparr>) taint tol = isTolerated e taint tol"
proof -
  have "isTolerationTimeExpired (e\<lparr>NameOrder := f\<rparr>) taint tol = isTolerationTimeExpired e taint tol"
    by (cases "TolerationSeconds tol") (simp_all add: isTolerationTimeExpired_def toleration_message_def Let_def)
  then show ?thesis by (simp add: isTolerated_def)
qed

lemma tolerated_by_any_order [simp]: "tolerated_by_any (e\<lparr>NameOrder := f\<rparr>) taint tols msg = tolerated_by_any e taint tols msg"
  by (induction tols arbitrary: msg) (simp_all split: prod.split)

lemma taints_tolerated_order [simp]: "taints_tolerated (e\<lparr>NameOrder := f\<rparr>) taints tols b mr = taints_tolerated e taints tols b mr"
proof (induction taints arbitrary: mr)
  case (Cons t ts)
  have "isTaintTolerated (e\<lparr>NameOrder := f\<rparr>) t tols b = isTaintTolerated e t tols b" by (simp add: isTaintTolerated_def)
  then show ?case using Cons by (simp split: prod.split)
qed simp

lemma isClusterTolerated_order [simp]: "isClusterTolerated (e\<lparr>NameOrder := f\<rparr>) = isClusterTolerated e"
  by (intro ext) (simp add: isClusterTolerated_def)

text \<open>The least of two instants, of which either may be missing.\<close>

fun earlier :: "go_time option \<Rightarrow> go_time option \<Rightarrow> go_time option" where
  "earlier None y = y"
| "earlier x None = x"
| "earlier (Some s) (Some t) = Some (min s t)"

lemma earlier_swap: "earlier (earlier a x) y = earlier (earlier a y) x"
  by (cases a; cases x; cases y) (simp_all add: ac_simps)

lemma requeue_time_min:
  "has_time x \<Longrightarrow> has_time y \<Longrightarrow> requeue_time (minRequeueTime x y) = earlier (requeue_time x) (requeue_time y)"
  by (cases x; cases y) (auto simp: requeue_time_def has_time_def minRequeueTime_def time_before_def)

lemma requeue_clusters_time:
  "has_time mr \<Longrightarrow> has_time (fst (requeue_clusters e tols names cs (mr, st))) \<and>
   requeue_time (fst (requeue_clusters e tols names cs (mr, st))) =
     fold (\<lambda>c t. case isClusterTolerated e c tols (Name c \<in> set names) of
       (tolerated, r, msg) \<Rightarrow> if tolerated then earlier t (requeue_time r) else t) cs (requeue_time mr)"
proof (induction cs arbitrary: mr st)
  case (Cons c cs)
  obtain b r m where i: "isClusterTolerated e c tols (Name c \<in> set names) = (b, r, m)" by (metis prod_cases3)
  show ?case
  proof (cases b)
    case True
    then have "has_time r" using isClusterTolerated_requeue i by metis
    then show ?thesis using Cons i True by (simp add: requeue_time_min has_time_min)
  qed (use Cons i in simp)
qed simp

lemma requeue_clusters_perm:
  assumes "mset cs = mset ds"
  shows "requeue_time (fst (requeue_clusters e tols names cs (None, st))) =
    requeue_time (fst (requeue_clusters e tols names ds (None, st)))"
proof -
  let ?f = "\<lambda>c t. case isClusterTolerated e c tols (Name c \<in> set names) of
    (tolerated, r, msg) \<Rightarrow> if tolerated then earlier t (requeue_time r) else t"
  have "?f c \<circ> ?f d = ?f d \<circ> ?f c" for c d :: ManagedCluster
    by (rule ext) (simp add: case_prod_unfold earlier_swap)
  then have "fold ?f cs = fold ?f ds" by (intro fold_multiset_equiv [OF _ assms]) simp
  then show ?thesis by (simp add: requeue_clusters_time)
qed

lemma getDecisionClusters_eq:
  "getDecisionClusters e h p = (getDecisionClusterNames h p, concat (map (\<lambda>c. case cl_get (ClusterLister h) c of
     Inl er \<Rightarrow> [] | Inr cl \<Rightarrow> [cl]) (NameOrder e (getDecisionClusterNames h p))))"
proof -
  have "foldl (\<lambda>acc c. case cl_get (ClusterLister h) c of Inl er \<Rightarrow> acc | Inr cl \<Rightarrow> acc @ [cl]) acc xs =
      acc @ concat (map (\<lambda>c. case cl_get (ClusterLister h) c of Inl er \<Rightarrow> [] | Inr cl \<Rightarrow> [cl]) xs)" for acc xs
    by (induction xs arbitrary: acc) (simp_all split: sum.split)
  then show ?thesis by (simp add: getDecisionClusters_def Let_def)
qed

section \<open>The requeue time of a placement\<close>

text \<open>What \<open>RequeueAfter\<close> returns: a time at which a toleration of a cluster in the decisions runs out,
  later than now; and until then (for ever, when it returns no time) every cluster in the decisions
  that is tolerated now stays tolerated.\<close>

lemma taintToleration_RequeueAfter_eq:
  "fst (taintToleration_RequeueAfter e h p) =
    (case fst (requeue_clusters e (Tolerations (Spec p)) (fst (getDecisionClusters e h p))
        (snd (getDecisionClusters e h p)) (None, NewStatus taintToleration_Name Success [''''])) of
      None \<Rightarrow> no_requeue_result | Some r \<Rightarrow> r)"
  by (simp add: taintToleration_RequeueAfter_def case_prod_unfold Let_def split: option.splits)

lemma RequeueAfter_time:
  "RequeueTime (fst (taintToleration_RequeueAfter e h p)) =
    requeue_time (fst (requeue_clusters e (Tolerations (Spec p)) (fst (getDecisionClusters e h p))
        (snd (getDecisionClusters e h p)) (None, NewStatus taintToleration_Name Success [''''])))"
  by (simp add: taintToleration_RequeueAfter_eq requeue_time_def no_requeue_result_def split: option.splits)

text \<open>The requeue time does not depend on the order in which the names of the decision clusters come.\<close>

lemma RequeueAfter_order:
  assumes "mset (g (getDecisionClusterNames h p)) = mset (NameOrder e (getDecisionClusterNames h p))"
  shows "RequeueTime (fst (taintToleration_RequeueAfter (e\<lparr>NameOrder := g\<rparr>) h p)) =
    RequeueTime (fst (taintToleration_RequeueAfter e h p))"
proof -
  have rc: "requeue_clusters (e\<lparr>NameOrder := g\<rparr>) tols names cs acc = requeue_clusters e tols names cs acc"
    for tols names cs acc
    by (induction cs arbitrary: acc) (auto split: prod.split)
  have "mset (concat (map f xs)) = \<Sum>\<^sub># (image_mset (\<lambda>x. mset (f x)) (mset xs))"
    for f :: "string \<Rightarrow> ManagedCluster list" and xs by (induction xs) simp_all
  then have "mset (snd (getDecisionClusters (e\<lparr>NameOrder := g\<rparr>) h p)) = mset (snd (getDecisionClusters e h p))"
    by (simp add: getDecisionClusters_eq assms)
  from requeue_clusters_perm [OF this] show ?thesis
    unfolding RequeueAfter_time rc by (simp add: getDecisionClusters_eq)
qed

lemma RequeueAfter_stable:
  assumes "c \<in> set (snd (getDecisionClusters e h p))"
    "cluster_tolerated (TolerationNow e) c (Tolerations (Spec p)) (Name c \<in> set (getDecisionClusterNames h p))"
    "\<forall>t. RequeueTime (fst (taintToleration_RequeueAfter e h p)) = Some t \<longrightarrow> now' < t"
  shows "cluster_tolerated now' c (Tolerations (Spec p)) (Name c \<in> set (getDecisionClusterNames h p))"
proof -
  let ?names = "getDecisionClusterNames h p" and ?tols = "Tolerations (Spec p)"
  have n: "fst (getDecisionClusters e h p) = ?names" by (simp add: getDecisionClusters_def Let_def)
  obtain r st where rc: "requeue_clusters e ?tols ?names (snd (getDecisionClusters e h p))
      (None, NewStatus taintToleration_Name Success ['''']) = (r, st)" by fastforce
  have "before_requeue now' r"
    using assms(3) by (simp add: RequeueAfter_time n rc before_requeue_def split: option.splits)
  then show ?thesis using requeue_clusters_stable [OF rc has_time_None, of now'] assms(1,2) by blast
qed

lemma RequeueAfter_from:
  assumes "RequeueTime (fst (taintToleration_RequeueAfter e h p)) = Some t"
  shows "TolerationNow e < t \<and> (\<exists>c \<in> set (snd (getDecisionClusters e h p)). \<exists>taint \<in> set (Taints c).
    \<exists>tol \<in> set (Tolerations (Spec p)). \<exists>secs. TolerationSeconds tol = Some secs \<and> t = toleration_end taint secs)"
proof -
  let ?cs = "snd (getDecisionClusters e h p)"
  have "requeue_from e (\<Union>c \<in> set ?cs. set (Taints c)) (set (Tolerations (Spec p)))
      (fst (requeue_clusters e (Tolerations (Spec p)) (fst (getDecisionClusters e h p)) ?cs
        (None, NewStatus taintToleration_Name Success [''''])))"
    by (rule requeue_clusters_from) auto
  then show ?thesis using assms unfolding RequeueAfter_time requeue_from_def by blast
qed

text \<open>C36: the taint filter keeps, in their order, exactly the clusters all of whose taints are
  tolerated: \<open>PreferNoSelect\<close> always is, \<open>NoSelectIfNew\<close> for clusters already among the decisions,
  and any other by a matching toleration that has not run out; an invalid toleration is reported as
  \<open>Misconfigured\<close> and keeps none. A toleration runs out after its seconds whatever its effect is, though
  the API documents that the seconds are ignored unless the effect is \<open>NoSelect\<close> or \<open>PreferNoSelect\<close>.\<close>

theorem taintToleration_Filter_spec:
  "Filtered (fst (taintToleration_Filter e h p cs)) =
    (if tolerations_valid p
     then filter (\<lambda>c. \<forall>taint \<in> set (Taints c).
        taint_effect taint = TaintEffectPreferNoSelect \<or>
        taint_effect taint = TaintEffectNoSelectIfNew \<and> Name c \<in> set (getDecisionClusterNames h p) \<or>
        (\<exists>tol \<in> set (Tolerations (Spec p)). taint_matches taint tol \<and> toleration_live (TolerationNow e) taint tol)) cs
     else []) \<and>
   code (snd (taintToleration_Filter e h p cs)) =
    (if tolerations_valid p \<or> cs = [] then Success else Misconfigured)"
proof (cases "tolerations_valid p \<or> cs = []")
  case True
  then show ?thesis
    unfolding taintToleration_Filter_valid [OF True] cluster_tolerated_def taint_tolerated_def by auto
next
  case False
  then show ?thesis using taintToleration_Filter_invalid [of p cs e h] by (simp add: no_filter_result_def)
qed

text \<open>C40: how long a toleration lasts. \<open>time.Duration(seconds) * time.Second\<close> is an \<open>int64\<close> product: a
  taint is tolerated until its time plus the product wrapped into 64 bits. So for up to \<open>9223372036\<close>
  seconds (292 years) either way it is tolerated exactly that long, while a toleration of \<open>9223372037\<close>
  to \<open>18446744073\<close> seconds is over at every instant since the taint was added. (Beyond, the product
  may be positive again, of another length.)\<close>

theorem toleration_seconds_overflow:
  assumes "TolerationSeconds tol = Some s"
  shows "(fst (isTolerationTimeExpired e taint tol) \<longleftrightarrow>
      TolerationNow e < TimeAdded taint + ((sint s * 1000000000 + 2 ^ 63) mod 2 ^ 64 - 2 ^ 63)) \<and>
    (\<bar>sint s\<bar> \<le> 9223372036 \<longrightarrow>
      (fst (isTolerationTimeExpired e taint tol) \<longleftrightarrow> TolerationNow e < TimeAdded taint + sint s * 1000000000)) \<and>
    (9223372037 \<le> sint s \<and> sint s \<le> 18446744073 \<and> TimeAdded taint \<le> TolerationNow e \<longrightarrow>
      \<not> fst (isTolerationTimeExpired e taint tol))"
proof (intro conjI impI)
  have t: "fst (isTolerationTimeExpired e taint tol) \<longleftrightarrow> TolerationNow e < toleration_end taint s"
    using assms by (simp add: isTolerationTimeExpired_def Let_def time_before_def)
  then show w: "fst (isTolerationTimeExpired e taint tol) \<longleftrightarrow>
      TolerationNow e < TimeAdded taint + ((sint s * 1000000000 + 2 ^ 63) mod 2 ^ 64 - 2 ^ 63)"
    by (simp only: toleration_end_wraps)
  show "fst (isTolerationTimeExpired e taint tol) \<longleftrightarrow> TolerationNow e < TimeAdded taint + sint s * 1000000000"
    if "\<bar>sint s\<bar> \<le> 9223372036"
    using t by (simp only: toleration_end_exact [OF that])
  show "\<not> fst (isTolerationTimeExpired e taint tol)"
    if s: "9223372037 \<le> sint s \<and> sint s \<le> 18446744073 \<and> TimeAdded taint \<le> TolerationNow e"
  proof -
    have "(sint s * 1000000000 + 2 ^ 63) mod 2 ^ 64 = sint s * 1000000000 + 2 ^ 63 - 2 ^ 64"
      by (rule int_mod_pos_eq [where q = 1]) (use s in simp_all)
    then show ?thesis using s by (simp add: w)
  qed
qed

text \<open>A toleration of \<open>9223372037\<close> seconds does not tolerate the taint at the instant it is added.\<close>

definition long_toleration :: Toleration where
  "long_toleration = \<lparr>tol_key = ''k'', tol_operator = TolerationOpExists, tol_value = [], tol_effect = [],
     TolerationSeconds = Some 9223372037\<rparr>"

definition new_taint :: Taint where
  "new_taint = \<lparr>taint_key = ''k'', taint_value = [], taint_effect = TaintEffectNoSelect, TimeAdded = 7\<rparr>"

definition at_once :: PluginEnv where
  "at_once = \<lparr>TolerationNow = 7, AddOnNow = 0, ShowTime = (\<lambda>t. []), SelectorErrText = (\<lambda>er. []), NameOrder = (\<lambda>xs. xs)\<rparr>"

theorem toleration_seconds_overflow_witness: "\<not> fst (isTolerationTimeExpired at_once new_taint long_toleration)"
proof -
  have "TolerationSeconds long_toleration = Some 9223372037" by (simp add: long_toleration_def)
  from toleration_seconds_overflow [OF this, of at_once new_taint] show ?thesis
    by (simp add: at_once_def new_taint_def)
qed

end
