(* ===== verification/Builders.thy ===== *)
theory Builders
  imports Informers
begin

text \<open>
  \<open>pkg/helpers/testing/builders.go\<close>: the objects the tests build, used here for the concrete
  inputs of the witnesses. A builder is the object it builds; the builder methods are functions on
  it and \<open>Build\<close> is the identity. Builders that parse quantities or set conditions are left out.
\<close>

definition meta_of :: "string \<Rightarrow> string \<Rightarrow> ObjectMeta" where
  "meta_of namespace name = empty_meta\<lparr>Namespace := namespace, Name := name\<rparr>"

definition NewPlacement :: "string \<Rightarrow> string \<Rightarrow> Placement" where
  "NewPlacement namespace name = ObjectMeta.extend (meta_of namespace name)
     (Placement.fields
       \<lparr>ClusterSets = [], NumberOfClusters = None, Predicates = [],
        Policy = \<lparr>PolicyMode = '''', Configurations = []\<rparr>, Tolerations = []\<rparr>
       \<lparr>NumberOfSelectedClusters = 0, Conditions = []\<rparr>)"

definition NewPlacementWithAnnotations :: "string \<Rightarrow> string \<Rightarrow> (string \<rightharpoonup> string) \<Rightarrow> Placement" where
  "NewPlacementWithAnnotations namespace name annotations =
     (NewPlacement namespace name)\<lparr>Annotations := annotations\<rparr>"

definition WithUID :: "string \<Rightarrow> Placement \<Rightarrow> Placement" where
  "WithUID uid b = b\<lparr>UID := uid\<rparr>"

definition WithNOC :: "int32 \<Rightarrow> Placement \<Rightarrow> Placement" where
  "WithNOC noc b = b\<lparr>Spec := (Spec b)\<lparr>NumberOfClusters := Some noc\<rparr>\<rparr>"

definition WithPrioritizerPolicy :: "string \<Rightarrow> Placement \<Rightarrow> Placement" where
  "WithPrioritizerPolicy mode b =
     b\<lparr>Spec := (Spec b)\<lparr>Policy := \<lparr>PolicyMode = mode, Configurations = []\<rparr>\<rparr>\<rparr>"

definition add_config :: "PrioritizerConfig \<Rightarrow> Placement \<Rightarrow> Placement" where
  "add_config c b = b\<lparr>Spec := (Spec b)\<lparr>Policy := (Policy (Spec b))\<lparr>
     Configurations := Configurations (Policy (Spec b)) @ [c]\<rparr>\<rparr>\<rparr>"

definition WithPrioritizerConfig :: "string \<Rightarrow> int32 \<Rightarrow> Placement \<Rightarrow> Placement" where
  "WithPrioritizerConfig name weight b = (if length name > 0 then add_config
     \<lparr>ConfigCoordinate = Some \<lparr>CoordType = ScoreCoordinateTypeBuiltIn, CoordBuiltIn = name,
        CoordAddOn = None\<rparr>, Weight = weight\<rparr> b else b)"

text \<open>\<open>ptr\<close> is the address of the new \<open>AddOnScore\<close>.\<close>

definition WithScoreCoordinateAddOn :: "nat \<Rightarrow> string \<Rightarrow> string \<Rightarrow> int32 \<Rightarrow> Placement \<Rightarrow> Placement" where
  "WithScoreCoordinateAddOn ptr resourceName scoreName weight b = add_config
     \<lparr>ConfigCoordinate = Some \<lparr>CoordType = ScoreCoordinateTypeAddOn, CoordBuiltIn = '''',
        CoordAddOn = Some (ptr, \<lparr>ResourceName = resourceName, ScoreName = scoreName\<rparr>)\<rparr>,
      Weight = weight\<rparr> b"

definition WithClusterSets :: "string list \<Rightarrow> Placement \<Rightarrow> Placement" where
  "WithClusterSets clusterSets b = b\<lparr>Spec := (Spec b)\<lparr>ClusterSets := clusterSets\<rparr>\<rparr>"

definition WithDeletionTimestamp :: "go_time \<Rightarrow> 'm ObjectMeta_scheme \<Rightarrow> 'm ObjectMeta_scheme" where
  "WithDeletionTimestamp now b = b\<lparr>DeletionTimestamp := Some now\<rparr>"

definition NewClusterPredicate ::
  "LabelSelector option \<Rightarrow> LabelSelectorRequirement list option \<Rightarrow> ClusterPredicate" where
  "NewClusterPredicate sel claims =
     \<lparr>PredLabelSelector = (case sel of None \<Rightarrow> \<lparr>MatchLabels = [], MatchExpressions = []\<rparr> | Some s \<Rightarrow> s),
      PredClaimExpressions = (case claims of None \<Rightarrow> [] | Some c \<Rightarrow> c)\<rparr>"

definition AddPredicate ::
  "LabelSelector option \<Rightarrow> LabelSelectorRequirement list option \<Rightarrow> Placement \<Rightarrow> Placement" where
  "AddPredicate sel claims b =
     b\<lparr>Spec := (Spec b)\<lparr>Predicates := Predicates (Spec b) @ [NewClusterPredicate sel claims]\<rparr>\<rparr>"

definition AddToleration :: "Toleration \<Rightarrow> Placement \<Rightarrow> Placement" where
  "AddToleration toleration b =
     b\<lparr>Spec := (Spec b)\<lparr>Tolerations := Tolerations (Spec b) @ [toleration]\<rparr>\<rparr>"

definition NewPlacementDecision :: "string \<Rightarrow> string \<Rightarrow> PlacementDecision" where
  "NewPlacementDecision namespace name =
     ObjectMeta.extend (meta_of namespace name) (PlacementDecision.fields [])"

definition WithController :: "string \<Rightarrow> PlacementDecision \<Rightarrow> PlacementDecision" where
  "WithController uid b = b\<lparr>OwnerReferences := OwnerReferences b @
     [\<lparr>or_APIVersion = '''', or_Kind = '''', or_Name = '''', or_UID = uid, or_Controller = True,
       or_BlockOwnerDeletion = False\<rparr>]\<rparr>"

definition WithLabel :: "string \<Rightarrow> string \<Rightarrow> 'm ObjectMeta_scheme \<Rightarrow> 'm ObjectMeta_scheme" where
  "WithLabel name value b = b\<lparr>ObjLabels := (ObjLabels b)(name \<mapsto> value)\<rparr>"

definition WithDecisions :: "string list \<Rightarrow> PlacementDecision \<Rightarrow> PlacementDecision" where
  "WithDecisions clusterNames b = b\<lparr>Decisions :=
     map (\<lambda>n. \<lparr>ClusterName = n, DecisionReason = ''''\<rparr>) clusterNames\<rparr>"

definition NewManagedCluster :: "string \<Rightarrow> ManagedCluster" where
  "NewManagedCluster clusterName = ObjectMeta.extend (meta_of '''' clusterName)
     (ManagedCluster.fields [] Map.empty Map.empty [])"

definition WithTaint :: "Taint \<Rightarrow> ManagedCluster \<Rightarrow> ManagedCluster" where
  "WithTaint taint b = b\<lparr>Taints := Taints b @ [taint]\<rparr>"

definition NewClusterSet :: "string \<Rightarrow> ManagedClusterSet" where
  "NewClusterSet clusterSetName =
     ObjectMeta.extend (meta_of '''' clusterSetName) (ManagedClusterSet.fields '''' None)"

definition WithClusterSelector :: "string \<Rightarrow> LabelSelector option \<Rightarrow> ManagedClusterSet \<Rightarrow> ManagedClusterSet" where
  "WithClusterSelector typ sel b = b\<lparr>SelectorType := typ, SetLabelSelector := sel\<rparr>"

definition NewClusterSetBinding :: "string \<Rightarrow> string \<Rightarrow> ManagedClusterSetBinding" where
  "NewClusterSetBinding namespace clusterSetName =
     ObjectMeta.extend (meta_of namespace clusterSetName) (ManagedClusterSetBinding.fields clusterSetName)"

definition NewAddOnPlacementScore :: "string \<Rightarrow> string \<Rightarrow> AddOnPlacementScore" where
  "NewAddOnPlacementScore clusternamespace name =
     ObjectMeta.extend (meta_of clusternamespace name) (AddOnPlacementScore.fields [] None)"

definition WithScore :: "string \<Rightarrow> int32 \<Rightarrow> AddOnPlacementScore \<Rightarrow> AddOnPlacementScore" where
  "WithScore name score a = a\<lparr>Scores := Scores a @ [\<lparr>item_name = name, item_value = score\<rparr>]\<rparr>"

definition WithValidUntil :: "go_time \<Rightarrow> AddOnPlacementScore \<Rightarrow> AddOnPlacementScore" where
  "WithValidUntil validUntil a = a\<lparr>ValidUntil := Some validUntil\<rparr>"

lemmas record_builders = ObjectMeta.defs Placement.defs PlacementDecision.defs ManagedCluster.defs
  ManagedClusterSet.defs ManagedClusterSetBinding.defs AddOnPlacementScore.defs

lemmas builder_defs = meta_of_def empty_meta_def NewPlacement_def NewPlacementWithAnnotations_def
  WithUID_def WithNOC_def WithPrioritizerPolicy_def add_config_def WithPrioritizerConfig_def
  WithScoreCoordinateAddOn_def WithClusterSets_def WithDeletionTimestamp_def NewClusterPredicate_def
  AddPredicate_def AddToleration_def NewPlacementDecision_def WithController_def WithLabel_def
  WithDecisions_def NewManagedCluster_def WithTaint_def NewClusterSet_def WithClusterSelector_def
  NewClusterSetBinding_def NewAddOnPlacementScore_def WithScore_def WithValidUntil_def

lemma builder_fields [simp]:
  "Name (NewPlacement ns n) = n" "Namespace (NewPlacement ns n) = ns"
  "Name (NewManagedCluster n) = n" "Namespace (NewManagedCluster n) = []"
  "Name (NewClusterSet n) = n" "Namespace (NewClusterSet n) = []"
  "Name (NewClusterSetBinding ns n) = n" "Namespace (NewClusterSetBinding ns n) = ns"
  "Name (NewPlacementDecision ns n) = n" "Namespace (NewPlacementDecision ns n) = ns"
  "Name (WithLabel k v b) = Name b" "Namespace (WithLabel k v b) = Namespace b"
  "Name (WithNOC i p) = Name p" "Namespace (WithNOC i p) = Namespace p"
  by (simp_all add: builder_defs record_builders)

end
