(* ===== verification/Samples.thy ===== *)
theory Samples
  imports Plugins Builders
begin

text \<open>Concrete inputs shared by the witnesses of the plugins and of the scheduler.\<close>

definition sample_plugin_env :: PluginEnv where
  "sample_plugin_env = \<lparr>TolerationNow = 1000, AddOnNow = 1000, ShowTime = show_int,
     SelectorErrText = (\<lambda>er. ''invalid selector''), NameOrder = (\<lambda>xs. xs)\<rparr>"

definition sample_handle ::
  "PlacementDecision list \<Rightarrow> AddOnPlacementScore list \<Rightarrow> ManagedCluster list \<Rightarrow> Handle" where
  "sample_handle ds ss cs = \<lparr>DecisionLister = cache_ns_lister ''placementdecisions'' ds,
     ScoreLister = cache_ns_lister ''addonplacementscores'' ss,
     ClusterLister = cache_cl_lister ''managedclusters'' cs\<rparr>"

definition sample_decision :: "string \<Rightarrow> string \<Rightarrow> string list \<Rightarrow> PlacementDecision" where
  "sample_decision namespace placement clusters = WithDecisions clusters
     (WithLabel PlacementLabel placement (NewPlacementDecision namespace (placement @ ''-decision-1'')))"

lemma sample_handle_simps [simp]:
  "DecisionLister (sample_handle ds ss cs) = cache_ns_lister ''placementdecisions'' ds"
  "ScoreLister (sample_handle ds ss cs) = cache_ns_lister ''addonplacementscores'' ss"
  "ClusterLister (sample_handle ds ss cs) = cache_cl_lister ''managedclusters'' cs"
  by (simp_all add: sample_handle_def)

lemma sample_decision_simps [simp]:
  "Namespace (sample_decision ns p cs) = ns"
  "ObjLabels (sample_decision ns p cs) = [PlacementLabel \<mapsto> p]"
  "map ClusterName (Decisions (sample_decision ns p cs)) = cs"
  "ClusterName ` set (Decisions (sample_decision ns p cs)) = set cs"
  by (simp_all add: sample_decision_def builder_defs record_builders comp_def image_image)

end
