(* ===== verification/Float64.thy ===== *)
theory Float64
  imports Prelude "HOL-Library.Log_Nat"
begin

text \<open>
  Go's \<open>float64\<close>: IEEE 754 binary64 with round-to-nearest-even, as far as the prioritizers use
  it (conversion from and to integers, the four operations, order). A finite value is the
  rational it denotes; the sign of zero is not kept, as no operation of the program can observe
  it. Every operation is the exact one followed by one rounding, as the standard requires.
  \<open>float64_to_int64\<close> truncates towards zero; out of range (where the language leaves the result
  to the implementation) it is the smallest \<open>int64\<close>, the result of the amd64 instruction, and
  the properties of the prioritizers show that they stay in range.
\<close>

section \<open>Rounding\<close>

text \<open>The exponent of a positive rational: the integer part of its binary logarithm.\<close>

definition ilog2 :: "rat \<Rightarrow> int" where
  "ilog2 x = (let (a, b) = quotient_of x; k = bitlen a - bitlen b
     in if 2 powi k \<le> x then k else k - 1)"

text \<open>Round to the nearest integer, ties to even.\<close>

definition rne :: "rat \<Rightarrow> int" where
  "rne x = (let f = \<lfloor>x\<rfloor>; d = x - of_int f
     in if d < 1 / 2 then f else if 1 / 2 < d then f + 1 else if even f then f else f + 1)"

text \<open>The unit in the last place: 53 significant bits, and no exponent below that of the
  subnormal numbers.\<close>

definition ulp_exp :: "rat \<Rightarrow> int" where
  "ulp_exp x = (if x = 0 then - 1074 else max (- 1074) (ilog2 \<bar>x\<bar> - 52))"

definition round53 :: "rat \<Rightarrow> rat" where
  "round53 x = of_int (rne (x / 2 powi ulp_exp x)) * 2 powi ulp_exp x"

datatype float64 = Fin rat | PInf | NInf | NaN

definition rnd64 :: "rat \<Rightarrow> float64" where
  "rnd64 x = (let r = round53 x in
     if r \<ge> 2 ^ 1024 then PInf else if r \<le> - (2 ^ 1024) then NInf else Fin r)"

section \<open>Operations\<close>

fun fneg :: "float64 \<Rightarrow> float64" where
  "fneg (Fin x) = Fin (- x)"
| "fneg PInf = NInf"
| "fneg NInf = PInf"
| "fneg NaN = NaN"

fun fadd :: "float64 \<Rightarrow> float64 \<Rightarrow> float64" where
  "fadd (Fin x) (Fin y) = rnd64 (x + y)"
| "fadd NaN y = NaN"
| "fadd x NaN = NaN"
| "fadd PInf NInf = NaN"
| "fadd NInf PInf = NaN"
| "fadd PInf y = PInf"
| "fadd NInf y = NInf"
| "fadd x PInf = PInf"
| "fadd x NInf = NInf"

definition fsub :: "float64 \<Rightarrow> float64 \<Rightarrow> float64" where
  "fsub x y = fadd x (fneg y)"

definition inf_of_sign :: "rat \<Rightarrow> float64" where
  "inf_of_sign s = (if s > 0 then PInf else if s < 0 then NInf else NaN)"

fun fmul :: "float64 \<Rightarrow> float64 \<Rightarrow> float64" where
  "fmul (Fin x) (Fin y) = rnd64 (x * y)"
| "fmul NaN y = NaN"
| "fmul x NaN = NaN"
| "fmul (Fin x) PInf = inf_of_sign x"
| "fmul (Fin x) NInf = inf_of_sign (- x)"
| "fmul PInf (Fin y) = inf_of_sign y"
| "fmul NInf (Fin y) = inf_of_sign (- y)"
| "fmul PInf PInf = PInf"
| "fmul NInf NInf = PInf"
| "fmul PInf NInf = NInf"
| "fmul NInf PInf = NInf"

text \<open>The program never divides by a zero (\<open>maxCount\<close> is at least the count it divides, and the
  resource score tests the divisor first); the sign of an infinite quotient by zero, which would
  need the sign of that zero, is taken for a positive zero.\<close>

fun fdiv :: "float64 \<Rightarrow> float64 \<Rightarrow> float64" where
  "fdiv (Fin x) (Fin y) = (if y = 0 then inf_of_sign x else rnd64 (x / y))"
| "fdiv NaN y = NaN"
| "fdiv x NaN = NaN"
| "fdiv (Fin x) _ = Fin 0"
| "fdiv PInf (Fin y) = (if y < 0 then NInf else PInf)"
| "fdiv NInf (Fin y) = (if y < 0 then PInf else NInf)"
| "fdiv _ _ = NaN"

text \<open>The order \<open><\<close> of float64 values: no comparison with NaN holds.\<close>

fun flt :: "float64 \<Rightarrow> float64 \<Rightarrow> bool" where
  "flt (Fin x) (Fin y) = (x < y)"
| "flt NInf (Fin y) = True"
| "flt NInf PInf = True"
| "flt (Fin x) PInf = True"
| "flt _ _ = False"

fun is_nan :: "float64 \<Rightarrow> bool" where
  "is_nan NaN = True"
| "is_nan _ = False"

fun is_fin :: "float64 \<Rightarrow> bool" where
  "is_fin (Fin x) = True"
| "is_fin _ = False"

text \<open>The test \<open>x != 0\<close>: true of NaN and of the infinities.\<close>

definition fnonzero :: "float64 \<Rightarrow> bool" where
  "fnonzero x \<longleftrightarrow> x \<noteq> Fin 0"

definition float64_of_int :: "int \<Rightarrow> float64" where
  "float64_of_int i = rnd64 (of_int i)"

definition trunc_rat :: "rat \<Rightarrow> int" where
  "trunc_rat x = (if x < 0 then \<lceil>x\<rceil> else \<lfloor>x\<rfloor>)"

fun float64_to_int64 :: "float64 \<Rightarrow> int64" where
  "float64_to_int64 (Fin x) =
     (let t = trunc_rat x in
      if - (2 ^ 63) \<le> t \<and> t < 2 ^ 63 then word_of_int t else word_of_int (- (2 ^ 63)))"
| "float64_to_int64 _ = word_of_int (- (2 ^ 63))"

text \<open>\<open>math.Pow10\<close>: a product (or a quotient) of two table entries, each the float64 nearest to
  its power of ten.\<close>

definition math_pow10 :: "int \<Rightarrow> float64" where
  "math_pow10 n =
     (if 0 \<le> n \<and> n \<le> 308 then
        fmul (rnd64 (10 ^ (32 * (nat n div 32)))) (rnd64 (10 ^ (nat n mod 32)))
      else if - 323 \<le> n \<and> n \<le> 0 then
        fdiv (rnd64 (1 / 10 ^ (32 * (nat (- n) div 32)))) (rnd64 (10 ^ (nat (- n) mod 32)))
      else if n > 0 then PInf else Fin 0)"

section \<open>Properties of rounding\<close>

lemma rne_of_int [simp]: "rne (of_int i) = i"
  by (simp add: rne_def)

lemma rne_mono: "x \<le> y \<Longrightarrow> rne x \<le> rne y"
proof -
  assume le: "x \<le> y"
  then have f: "\<lfloor>x\<rfloor> \<le> \<lfloor>y\<rfloor>" by (rule floor_mono)
  have b: "rne z \<le> \<lfloor>z\<rfloor> + 1" "\<lfloor>z\<rfloor> \<le> rne z" for z
    by (auto simp: rne_def Let_def)
  show ?thesis
  proof (cases "\<lfloor>x\<rfloor> = \<lfloor>y\<rfloor>")
    case True
    then show ?thesis using le by (auto simp: rne_def Let_def)
  next
    case False
    then have "\<lfloor>x\<rfloor> + 1 \<le> \<lfloor>y\<rfloor>" using f by simp
    then show ?thesis using b(1) [of x] b(2) [of y] by linarith
  qed
qed

lemma rne_minus: "rne (- x) = - rne x"
proof (cases "x = of_int \<lfloor>x\<rfloor>")
  case True
  then have "rne x = \<lfloor>x\<rfloor>" "rne (- x) = - \<lfloor>x\<rfloor>"
    using rne_of_int [of "\<lfloor>x\<rfloor>"] rne_of_int [of "- \<lfloor>x\<rfloor>"] by simp_all
  then show ?thesis by simp
next
  case False
  then have "\<lfloor>- x\<rfloor> = - \<lfloor>x\<rfloor> - 1"
    by (metis ceiling_def ceiling_altdef minus_diff_eq add_diff_cancel_left' diff_minus_eq_add
        add.commute uminus_add_conv_diff minus_add_distrib)
  then show ?thesis by (auto simp: rne_def Let_def)
qed

lemma rne_le: "x \<le> of_int n \<Longrightarrow> rne x \<le> n"
  using rne_mono [of x "of_int n"] by simp

lemma rne_ge: "of_int n \<le> x \<Longrightarrow> n \<le> rne x"
  using rne_mono [of "of_int n" x] by simp

lemma pow2_less_imp: "(2::rat) powi a < 2 powi b \<Longrightarrow> a < b"
  using power_int_increasing [of b a "2::rat"] by (meson leD leI one_le_numeral)

lemma ilog2_bounds:
  assumes "0 < x"
  shows "2 powi ilog2 x \<le> x" and "x < 2 powi (ilog2 x + 1)"
proof -
  obtain a b where q: "quotient_of x = (a, b)" by fastforce
  have b: "0 < b" using quotient_of_denom_pos [OF q] .
  have x: "x = of_int a / of_int b" using quotient_of_div [OF q] .
  have a: "0 < a" using assms b x by (simp add: zero_less_divide_iff)
  have rat_bounds: "2 powi (bitlen i - 1) \<le> (of_int i :: rat)" "(of_int i :: rat) < 2 powi bitlen i"
    if "0 < i" for i
  proof -
    have l: "0 < bitlen i" using that bitlen_nonneg [of i] bitlen_eq_zero_iff [of i] by linarith
    have "(of_int (2 ^ nat (bitlen i - 1)) :: rat) \<le> of_int i"
      and "(of_int i :: rat) < of_int (2 ^ nat (bitlen i))"
      using bitlen_bounds [OF that] by (simp_all only: of_int_le_iff of_int_less_iff)
    then show "2 powi (bitlen i - 1) \<le> (of_int i :: rat)" "(of_int i :: rat) < 2 powi bitlen i"
      using l by (simp_all add: power_int_def)
  qed
  define k where "k = bitlen a - bitlen b"
  have up: "x < 2 powi (k + 1)"
  proof -
    have "x < 2 powi bitlen a / 2 powi (bitlen b - 1)"
      unfolding x using rat_bounds [OF a] rat_bounds [OF b] b
      by (intro frac_less) (simp_all add: a less_imp_le)
    also have "\<dots> = 2 powi (bitlen a - (bitlen b - 1))" by (rule power_int_diff [symmetric]) simp
    also have "\<dots> = 2 powi (k + 1)" by (simp add: k_def algebra_simps)
    finally show ?thesis .
  qed
  have lo: "2 powi (k - 1) \<le> x"
  proof -
    have "2 powi (k - 1) = (2 powi (bitlen a - 1 - bitlen b) :: rat)"
      by (simp add: k_def algebra_simps)
    also have "\<dots> = 2 powi (bitlen a - 1) / 2 powi bitlen b"
      by (rule power_int_diff) simp
    also have "\<dots> \<le> x"
      unfolding x using rat_bounds [OF a] rat_bounds [OF b] b
      by (intro frac_le) (simp_all add: a less_imp_le)
    finally show ?thesis .
  qed
  have "ilog2 x = (if 2 powi k \<le> x then k else k - 1)"
    by (simp add: ilog2_def q k_def Let_def)
  then show "2 powi ilog2 x \<le> x" and "x < 2 powi (ilog2 x + 1)"
    using up lo by (auto split: if_splits)
qed

lemma ilog2_mono: "0 < x \<Longrightarrow> x \<le> y \<Longrightarrow> ilog2 x \<le> ilog2 y"
proof -
  assume "0 < x" "x \<le> y"
  then have "(2::rat) powi ilog2 x < 2 powi (ilog2 y + 1)"
    using ilog2_bounds(1) [of x] ilog2_bounds(2) [of y] by linarith
  then have "ilog2 x < ilog2 y + 1" by (rule pow2_less_imp)
  then show ?thesis by simp
qed

lemma ilog2_less: "0 < x \<Longrightarrow> x < 2 powi e \<Longrightarrow> ilog2 x < e"
proof -
  assume "0 < x" "x < 2 powi e"
  then have "(2::rat) powi ilog2 x < 2 powi e" using ilog2_bounds(1) [of x] by linarith
  then show ?thesis by (rule pow2_less_imp)
qed

lemma ulp_exp_minus [simp]: "ulp_exp (- x) = ulp_exp x"
  by (simp add: ulp_exp_def)

lemma round53_minus: "round53 (- x) = - round53 x"
  by (simp add: round53_def rne_minus)

lemma round53_0 [simp]: "round53 0 = 0"
  by (simp add: round53_def rne_def)

lemma pow2_split: "a \<le> b \<Longrightarrow> (2::rat) powi b / 2 powi a = of_int (2 ^ nat (b - a))"
  using power_int_diff [of "2::rat" b a] by (simp add: power_int_def)

text \<open>Rounding is exact on integers scaled by the rounding's own unit, and does not cross
  them.\<close>

lemma round53_dyadic:
  assumes "ulp_exp x \<le> e" "x = of_int m * 2 powi e"
  shows "round53 x = x"
proof -
  have "x / 2 powi ulp_exp x = of_int (m * 2 ^ nat (e - ulp_exp x))"
    using pow2_split [OF assms(1)] assms(2) by (metis of_int_mult times_divide_eq_right)
  then have "rne (x / 2 powi ulp_exp x) = m * 2 ^ nat (e - ulp_exp x)" by (simp only: rne_of_int)
  then show ?thesis
    unfolding round53_def using \<open>x / 2 powi ulp_exp x = _\<close> by (metis nonzero_divide_eq_eq power_int_not_zero zero_neq_numeral)
qed

text \<open>Every rational with at most 53 significant bits, within the exponent range, is exact.\<close>

lemma round53_exact:
  assumes "\<bar>m\<bar> < 2 ^ 53" "- 1074 \<le> e"
  shows "round53 (of_int m * 2 powi e) = of_int m * 2 powi e"
proof (cases "m = 0")
  case False
  let ?x = "of_int m * 2 powi e :: rat"
  have "\<bar>?x\<bar> < 2 ^ 53 * 2 powi e"
  proof -
    have "(of_int \<bar>m\<bar> :: rat) < of_int (2 ^ 53)" using assms(1) by (simp only: of_int_less_iff)
    then show ?thesis by (simp add: abs_mult)
  qed
  also have "\<dots> = 2 powi (53 + e)" by (simp add: power_int_add)
  finally have "ilog2 \<bar>?x\<bar> < 53 + e" using False by (intro ilog2_less) auto
  then have "ulp_exp ?x \<le> e" using assms(2) False by (simp add: ulp_exp_def)
  then show ?thesis by (rule round53_dyadic) simp
qed simp

lemma round53_mono_pos:
  assumes "0 < x" "x \<le> y"
  shows "round53 x \<le> round53 y"
proof (cases "ulp_exp x = ulp_exp y")
  case True
  have "rne (x / 2 powi ulp_exp y) \<le> rne (y / 2 powi ulp_exp y)"
    by (rule rne_mono) (simp add: assms(2) divide_right_mono)
  then show ?thesis unfolding round53_def True by (simp add: mult_right_mono)
next
  case False
  have y: "0 < y" using assms by simp
  have ex: "ulp_exp x = max (- 1074) (ilog2 x - 52)" and ey: "ulp_exp y = max (- 1074) (ilog2 y - 52)"
    using assms y by (simp_all add: ulp_exp_def)
  have lt: "ilog2 x < ilog2 y" and eq: "ulp_exp y = ilog2 y - 52" and le: "ulp_exp x \<le> ilog2 y"
    using False ex ey ilog2_mono [OF assms] by auto
  let ?b = "2 powi ilog2 y :: rat"
  have "x \<le> ?b"
  proof -
    have "(2::rat) powi (ilog2 x + 1) \<le> ?b" using lt by (intro power_int_increasing) auto
    then show ?thesis using ilog2_bounds(2) [OF assms(1)] by simp
  qed
  have bx: "?b / 2 powi ulp_exp x = of_int (2 ^ nat (ilog2 y - ulp_exp x))"
    by (rule pow2_split [OF le])
  have by': "?b / 2 powi ulp_exp y = of_int (2 ^ nat (ilog2 y - ulp_exp y))"
    by (rule pow2_split) (simp add: eq)
  have "rne (x / 2 powi ulp_exp x) \<le> 2 ^ nat (ilog2 y - ulp_exp x)"
    using \<open>x \<le> ?b\<close> unfolding bx [symmetric] by (intro rne_le) (simp only: bx [symmetric], simp add: divide_right_mono)
  then have "round53 x \<le> of_int (2 ^ nat (ilog2 y - ulp_exp x)) * 2 powi ulp_exp x"
    unfolding round53_def by (intro mult_right_mono) simp_all
  also have "\<dots> = ?b" unfolding bx [symmetric] by simp
  also have "\<dots> = of_int (2 ^ nat (ilog2 y - ulp_exp y)) * 2 powi ulp_exp y"
    unfolding by' [symmetric] by simp
  also have "\<dots> \<le> round53 y"
  proof -
    have "2 ^ nat (ilog2 y - ulp_exp y) \<le> rne (y / 2 powi ulp_exp y)"
      using ilog2_bounds(1) [OF y] by (intro rne_ge) (simp only: by' [symmetric], simp add: divide_right_mono)
    then show ?thesis
      unfolding round53_def by (intro mult_right_mono) simp_all
  qed
  finally show ?thesis .
qed

lemma round53_nonneg: "0 \<le> x \<Longrightarrow> 0 \<le> round53 x"
  using rne_mono [of 0 "x / 2 powi ulp_exp x"] rne_of_int [of 0]
  by (simp add: round53_def)

theorem round53_mono: "x \<le> y \<Longrightarrow> round53 x \<le> round53 y"
proof -
  assume le: "x \<le> y"
  consider "0 < x" | "x \<le> 0" "0 \<le> y" | "y < 0" using le by linarith
  then show ?thesis
  proof cases
    case 1
    then show ?thesis using le by (rule round53_mono_pos)
  next
    case 2
    then show ?thesis using round53_nonneg [of "- x"] round53_nonneg [of y]
      by (simp add: round53_minus)
  next
    case 3
    then show ?thesis using round53_mono_pos [of "- y" "- x"] le by (simp add: round53_minus)
  qed
qed

lemma ilog2_eqI:
  assumes "2 powi k \<le> x" "x < 2 powi (k + 1)"
  shows "ilog2 x = k"
proof -
  have "(0::rat) < 2 powi k" by simp
  then have x: "0 < x" using assms(1) by linarith
  have "ilog2 x < k + 1" by (rule ilog2_less [OF x assms(2)])
  moreover have "(2::rat) powi k < 2 powi (ilog2 x + 1)"
    using assms(1) ilog2_bounds(2) [OF x] by linarith
  then have "k < ilog2 x + 1" by (rule pow2_less_imp)
  ultimately show ?thesis by simp
qed

text \<open>Evaluation: a rational in the binade \<open>[2^k, 2^(k+1))\<close> rounds to the multiple of
  \<open>2^(k-52)\<close> nearest to it.\<close>

lemma round53_eqI:
  assumes "2 powi k \<le> \<bar>x\<bar>" "\<bar>x\<bar> < 2 powi (k + 1)" "- 1022 \<le> k"
  shows "round53 x = of_int (rne (x / 2 powi (k - 52))) * 2 powi (k - 52)"
proof -
  have "(0::rat) < 2 powi k" by simp
  then have "0 < \<bar>x\<bar>" using assms(1) by linarith
  then have "x \<noteq> 0" by simp
  then show ?thesis
    unfolding round53_def ulp_exp_def using ilog2_eqI [OF assms(1,2)] assms(3) by simp
qed

lemma rne_eqI: "\<bar>x - of_int n\<bar> < 1 / 2 \<Longrightarrow> rne x = n"
proof -
  assume *: "\<bar>x - of_int n\<bar> < 1 / 2"
  then have "\<lfloor>x\<rfloor> = n \<or> \<lfloor>x\<rfloor> = n - 1"
    using floor_less_iff [of x "n + 1"] le_floor_iff [of "n - 1" x] by (auto simp: abs_if split: if_splits)
  then show ?thesis using * by (auto simp: rne_def Let_def abs_if split: if_splits)
qed

section \<open>Operations on values of moderate size\<close>

lemma round53_le: "x \<le> of_int m * 2 powi e \<Longrightarrow> \<bar>m\<bar> < 2 ^ 53 \<Longrightarrow> - 1074 \<le> e \<Longrightarrow>
    round53 x \<le> of_int m * 2 powi e"
  using round53_mono [of x "of_int m * 2 powi e"] round53_exact [of m e] by simp

lemma round53_ge: "of_int m * 2 powi e \<le> x \<Longrightarrow> \<bar>m\<bar> < 2 ^ 53 \<Longrightarrow> - 1074 \<le> e \<Longrightarrow>
    of_int m * 2 powi e \<le> round53 x"
  using round53_mono [of "of_int m * 2 powi e" x] round53_exact [of m e] by simp

lemma round53_int: "\<bar>m\<bar> < 2 ^ 53 \<Longrightarrow> round53 (of_int m) = of_int m"
  using round53_exact [of m 0] by simp

lemma round53_half: "\<bar>m\<bar> < 2 ^ 53 \<Longrightarrow> round53 (of_int m / 2) = of_int m / 2"
  using round53_exact [of m "- 1"] by (simp add: power_int_minus field_simps)

lemma round53_in_int:
  assumes "of_int a \<le> x" "x \<le> of_int b" "\<bar>a\<bar> < 2 ^ 53" "\<bar>b\<bar> < 2 ^ 53"
  shows "of_int a \<le> round53 x" "round53 x \<le> of_int b"
  using round53_mono [OF assms(1)] round53_mono [OF assms(2)] round53_int assms(3,4) by simp_all

lemma round53_in_half:
  assumes "of_int a / 2 \<le> x" "x \<le> of_int b / 2" "\<bar>a\<bar> < 2 ^ 53" "\<bar>b\<bar> < 2 ^ 53"
  shows "of_int a / 2 \<le> round53 x" "round53 x \<le> of_int b / 2"
  using round53_mono [OF assms(1)] round53_mono [OF assms(2)]
  unfolding round53_half [OF assms(3)] round53_half [OF assms(4)] .

lemma rnd64_small:
  assumes "\<bar>x\<bar> \<le> 2 ^ 1000"
  shows "rnd64 x = Fin (round53 x)"
proof -
  have "- (2 ^ 1000) \<le> x" "x \<le> 2 ^ 1000" using assms by linarith+
  then have "round53 x \<le> of_int 1 * 2 powi 1000" "of_int (- 1) * 2 powi 1000 \<le> round53 x"
    using round53_le [of x 1 1000] round53_ge [of "- 1" 1000 x] by simp_all
  moreover have "(2::rat) ^ 1000 < 2 ^ 1024" by (rule power_strict_increasing) simp_all
  ultimately have "round53 x < 2 ^ 1024" "- (2 ^ 1024) < round53 x" by simp_all
  then show ?thesis by (simp add: rnd64_def Let_def)
qed

lemma rnd64_le_bound: "\<bar>x\<bar> \<le> of_int b \<Longrightarrow> b \<le> 2 ^ 64 \<Longrightarrow> rnd64 x = Fin (round53 x)"
proof -
  assume "\<bar>x\<bar> \<le> of_int b" "b \<le> 2 ^ 64"
  then have "\<bar>x\<bar> \<le> of_int (2 ^ 64)" using of_int_le_iff [of b "2 ^ 64"] order_trans by blast
  also have "(of_int (2 ^ 64) :: rat) \<le> 2 ^ 1000" by (simp add: power_increasing)
  finally show ?thesis by (rule rnd64_small)
qed

lemma trunc_rat_mono: "x \<le> y \<Longrightarrow> trunc_rat x \<le> trunc_rat y"
proof -
  assume le: "x \<le> y"
  have "\<lceil>x\<rceil> \<le> 0" if "x < 0" using that by (simp add: ceiling_le_iff)
  moreover have "0 \<le> \<lfloor>y\<rfloor>" if "\<not> y < 0" using that by (simp add: le_floor_iff)
  ultimately show ?thesis
    using le floor_mono [OF le] ceiling_mono [OF le]
    unfolding trunc_rat_def by (cases "x < 0"; cases "y < 0"; simp only: if_True if_False simp_thms; linarith)
qed

lemma trunc_rat_of_int [simp]: "trunc_rat (of_int i) = i"
  by (simp add: trunc_rat_def)

lemma trunc_rat_bounds: "of_int a \<le> x \<Longrightarrow> x \<le> of_int b \<Longrightarrow> a \<le> trunc_rat x \<and> trunc_rat x \<le> b"
  using trunc_rat_mono [of "of_int a" x] trunc_rat_mono [of x "of_int b"] by simp

lemma float64_to_int64_small:
  "- 1000 \<le> trunc_rat x \<Longrightarrow> trunc_rat x \<le> 1000 \<Longrightarrow> float64_to_int64 (Fin x) = word_of_int (trunc_rat x)"
  by (simp add: Let_def)

end
