(* ===== verification/Balance.thy ===== *)
theory Balance
  imports Samples Float64
begin

text \<open>
  \<open>pkg/plugins/balance/balance.go\<close>: the prioritizer that prefers the clusters with few decisions
  of other placements. The counts are those of objects in memory, so they are HOL integers; the
  score is computed in \<open>float64\<close> exactly as the code does, rounding after every operation, and
  converted to \<open>int64\<close>. The lemmas show that the counts are the numbers of decisions, that the
  rounding never leaves the documented range, and that more decisions never mean a higher score.
\<close>

definition balance_Name :: string where
  "balance_Name = ''Balance''"

text \<open>\<open>decision.Labels[placementLabel] == placement.Name\<close>: a missing label reads as the empty
  string.\<close>

definition label_value :: "labels \<Rightarrow> string \<Rightarrow> string" where
  "label_value ls k = (case ls k of None \<Rightarrow> '''' | Some v \<Rightarrow> v)"

definition own_decision :: "Placement \<Rightarrow> PlacementDecision \<Rightarrow> bool" where
  "own_decision placement decision \<longleftrightarrow>
     label_value (ObjLabels decision) PlacementLabel = Name placement \<and>
     Namespace decision = Namespace placement"

definition count_decision :: "(string \<rightharpoonup> int) \<times> int \<Rightarrow> ClusterDecision \<Rightarrow> (string \<rightharpoonup> int) \<times> int" where
  "count_decision s d = (case s of (decisionCount, maxCount) \<Rightarrow>
     (let n = (case decisionCount (ClusterName d) of None \<Rightarrow> 0 | Some k \<Rightarrow> k) + 1
      in (decisionCount(ClusterName d \<mapsto> n), if n > maxCount then n else maxCount)))"

definition count_decisions ::
  "Placement \<Rightarrow> PlacementDecision list \<Rightarrow> (string \<rightharpoonup> int) \<times> int" where
  "count_decisions placement decisions = foldl (\<lambda>s decision.
     if own_decision placement decision then s
     else foldl count_decision s (Decisions decision)) (Map.empty, 0) decisions"

definition balance_score :: "int \<Rightarrow> int \<Rightarrow> int64" where
  "balance_score cnt maxCount =
     (let usage = fdiv (float64_of_int cnt) (float64_of_int maxCount)
      in 2 * float64_to_int64 (fmul (float64_of_int (sint MaxClusterScore)) (fsub (Fin (1 / 2)) usage)))"

definition balance_Score ::
  "PluginEnv \<Rightarrow> Handle \<Rightarrow> Placement \<Rightarrow> ManagedCluster list \<Rightarrow> PluginScoreResult \<times> Status" where
  "balance_Score e h placement clusters =
     (let scores = foldl (\<lambda>m c. m(Name c \<mapsto> MaxClusterScore)) Map.empty clusters in
      case lister_list (DecisionLister h) Everything of
        Inl er \<Rightarrow> (no_score_result, NewStatus balance_Name Error [api_err_text er])
      | Inr decisions \<Rightarrow>
         (let (decisionCount, maxCount) = count_decisions placement decisions
          in (\<lparr>PScores = (\<lambda>n. case scores n of None \<Rightarrow> None | Some s \<Rightarrow>
                (case decisionCount n of None \<Rightarrow> Some s
                 | Some cnt \<Rightarrow> Some (balance_score cnt maxCount)))\<rparr>,
              NewStatus balance_Name Success [''''])))"

definition balance_RequeueAfter :: "Placement \<Rightarrow> PluginRequeueResult \<times> Status" where
  "balance_RequeueAfter placement = (no_requeue_result, NewStatus balance_Name Success [''''])"

section \<open>The counts\<close>

text \<open>The names chosen by the decisions of other placements, one entry per decision.\<close>

definition other_choices :: "Placement \<Rightarrow> PlacementDecision list \<Rightarrow> string list" where
  "other_choices p ds = concat (map (\<lambda>d. map ClusterName (Decisions d)) (filter (\<lambda>d. \<not> own_decision p d) ds))"

definition count_map :: "string list \<Rightarrow> (string \<rightharpoonup> int)" where
  "count_map xs = (\<lambda>n. if n \<in> set xs then Some (int (count_list xs n)) else None)"

definition max_count :: "string list \<Rightarrow> int" where
  "max_count xs = Max (insert 0 ((\<lambda>n. int (count_list xs n)) ` set xs))"

lemma count_list_snoc: "count_list (xs @ [x]) n = count_list xs n + (if n = x then 1 else 0)"
  by (induction xs) auto

lemma count_map_snoc:
  "count_map (xs @ [x]) = (count_map xs)(x \<mapsto> int (count_list xs x) + 1)"
  by (auto simp: count_map_def count_list_snoc fun_eq_iff)

lemma count_list_0: "x \<notin> set xs \<Longrightarrow> count_list xs x = 0"
  by (simp add: count_list_0_iff)

lemma max_count_snoc: "max_count (xs @ [x]) = max (max_count xs) (int (count_list xs x) + 1)"
proof -
  let ?c = "\<lambda>xs n. int (count_list xs n)"
  have ge: "?c xs n \<le> max_count xs" for n
    by (cases "n \<in> set xs") (auto simp: max_count_def count_list_0 intro: Max_ge)
  show ?thesis
    unfolding max_count_def [of "xs @ [x]"]
  proof (rule Max_eqI)
    show "y \<le> max (max_count xs) (?c xs x + 1)" if "y \<in> insert 0 (?c (xs @ [x]) ` set (xs @ [x]))" for y
      using that ge order_trans [OF ge] by (auto simp: count_list_snoc max_def split: if_splits)
    show "max (max_count xs) (?c xs x + 1) \<in> insert 0 (?c (xs @ [x]) ` set (xs @ [x]))"
    proof (cases "max_count xs \<le> ?c xs x + 1")
      case True
      then have "max (max_count xs) (?c xs x + 1) = ?c (xs @ [x]) x" by (simp add: count_list_snoc)
      then show ?thesis by auto
    next
      case False
      have "max_count xs \<in> insert 0 (?c xs ` set xs)"
        unfolding max_count_def by (rule Max_in) auto
      with False obtain n where n: "n \<in> set xs" "max_count xs = ?c xs n" by auto
      with False have "max (max_count xs) (?c xs x + 1) = ?c (xs @ [x]) n"
        by (auto simp: count_list_snoc)
      with n show ?thesis by auto
    qed
  qed simp
qed

lemma count_decision_step:
  "count_decision (count_map xs, max_count xs) d = (count_map (xs @ [ClusterName d]), max_count (xs @ [ClusterName d]))"
  by (auto simp: count_decision_def Let_def count_map_snoc max_count_snoc count_map_def count_list_0
      max_def split: option.splits)

lemma count_decisions_eq:
  "count_decisions p ds = (count_map (other_choices p ds), max_count (other_choices p ds))"
proof -
  have inner: "foldl count_decision (count_map xs, max_count xs) cds =
      (count_map (xs @ map ClusterName cds), max_count (xs @ map ClusterName cds))" for xs cds
    by (induction cds arbitrary: xs) (simp_all add: count_decision_step)
  have "foldl (\<lambda>s d. if own_decision p d then s else foldl count_decision s (Decisions d))
      (count_map xs, max_count xs) ds =
      (count_map (xs @ other_choices p ds), max_count (xs @ other_choices p ds))" for xs
    by (induction ds arbitrary: xs) (simp_all add: inner other_choices_def)
  from this [of "[]"] show ?thesis
    by (simp add: count_decisions_def count_map_def max_count_def fun_eq_iff)
qed

lemma count_le_max: "n \<in> set xs \<Longrightarrow> int (count_list xs n) \<le> max_count xs"
  by (simp add: max_count_def)

lemma count_pos: "n \<in> set xs \<Longrightarrow> 0 < int (count_list xs n)"
  by (metis count_list_0_iff of_nat_0_less_iff gr0I)

section \<open>The score of a count\<close>

text \<open>The value \<open>100 * (0.5 - count / maxCount)\<close> before it is truncated, with the rounding of
  every step.\<close>

definition balance_value :: "int \<Rightarrow> int \<Rightarrow> rat" where
  "balance_value c m = round53 (100 * round53 (1 / 2 -
     round53 (round53 (of_int c) / round53 (of_int m))))"

lemma round53_pos_int: "0 < i \<Longrightarrow> 1 \<le> round53 (of_int i)"
  using round53_mono [of 1 "of_int i"] round53_int [of 1] by simp

lemma usage_range:
  assumes "0 < c" "c \<le> m"
  shows "0 \<le> round53 (round53 (of_int c) / round53 (of_int m))"
    and "round53 (round53 (of_int c) / round53 (of_int m)) \<le> 1"
proof -
  have cm: "1 \<le> round53 (of_int c)" "round53 (of_int c) \<le> round53 (of_int m)"
    using assms round53_pos_int by (auto intro: round53_mono)
  then have "0 \<le> round53 (of_int c) / round53 (of_int m)" "round53 (of_int c) / round53 (of_int m) \<le> 1"
    by simp_all
  then show "0 \<le> round53 (round53 (of_int c) / round53 (of_int m))"
    and "round53 (round53 (of_int c) / round53 (of_int m)) \<le> 1"
    using round53_in_int [of 0 _ 1] by simp_all
qed

lemma balance_half_range:
  assumes "0 < c" "c \<le> m"
  shows "- 1 / 2 \<le> round53 (1 / 2 - round53 (round53 (of_int c) / round53 (of_int m)))"
    and "round53 (1 / 2 - round53 (round53 (of_int c) / round53 (of_int m))) \<le> 1 / 2"
  using usage_range [OF assms] round53_in_half [of "- 1" _ 1] by simp_all

lemma balance_value_range:
  assumes "0 < c" "c \<le> m"
  shows "- 50 \<le> balance_value c m" and "balance_value c m \<le> 50"
  using balance_half_range [OF assms] round53_in_int [of "- 50" _ 50]
  by (simp_all add: balance_value_def)

lemma float64_of_pos_int:
  assumes "0 < c"
  shows "float64_of_int c = Fin (round53 (of_int c)) \<and> round53 (of_int c) < 2 ^ 1024 \<or>
    float64_of_int c = PInf \<and> 2 ^ 1024 \<le> round53 (of_int c)"
proof -
  have "1 \<le> round53 (of_int c)" using assms by (rule round53_pos_int)
  moreover have "(0::rat) < 2 ^ 1024" by simp
  ultimately have "\<not> round53 (of_int c) \<le> - (2 ^ 1024)" by linarith
  then show ?thesis by (auto simp: float64_of_int_def rnd64_def Let_def simp del: power_numeral)
qed

lemma fin_ops:
  "\<bar>x - y\<bar> \<le> 1000 \<Longrightarrow> fsub (Fin x) (Fin y) = Fin (round53 (x - y))"
  "\<bar>x * y\<bar> \<le> 1000 \<Longrightarrow> fmul (Fin x) (Fin y) = Fin (round53 (x * y))"
  using rnd64_le_bound [of "x - y" 1000] rnd64_le_bound [of "x * y" 1000]
  by (simp_all add: fsub_def)

lemma float64_100: "float64_of_int (sint MaxClusterScore) = Fin 100"
  using round53_int [of 100] rnd64_le_bound [of 100 100]
  by (simp add: float64_of_int_def MaxClusterScore_def)

lemma sint_double:
  assumes "- 50 \<le> i" "i \<le> 50"
  shows "sint (2 * (word_of_int i :: int64)) = 2 * i"
proof -
  have "sint (word_of_int i :: int64) = i" by (rule sint_of_int64) (use assms in auto)
  then show ?thesis
    using sint_times_int64 [of 2 "word_of_int i"] assms by simp
qed

text \<open>When both counts are finite as float64 (always, below 2^1024), the score is twice the
  truncated value, and in range.\<close>

lemma balance_score_fin:
  assumes "0 < c" "c \<le> m" "float64_of_int c = Fin (round53 (of_int c))"
    "float64_of_int m = Fin (round53 (of_int m))"
  shows "sint (balance_score c m) = 2 * trunc_rat (balance_value c m)"
    and "in_score_range (balance_score c m)"
proof -
  let ?c = "round53 (of_int c)" and ?m = "round53 (of_int m)"
  have m1: "1 \<le> ?m" and c1: "1 \<le> ?c" and cm: "?c \<le> ?m"
    using round53_pos_int [of c] round53_pos_int [of m] assms by (auto intro: round53_mono)
  have "\<bar>?c / ?m\<bar> \<le> of_int 1" using m1 c1 cm by simp
  then have u: "fdiv (float64_of_int c) (float64_of_int m) = Fin (round53 (?c / ?m))"
    using assms(3,4) m1 by (simp add: rnd64_le_bound [where b = 1])
  note ur = usage_range [OF assms(1,2)] and hr = balance_half_range [OF assms(1,2)]
  have s: "fsub (Fin (1 / 2)) (Fin (round53 (?c / ?m))) = Fin (round53 (1 / 2 - round53 (?c / ?m)))"
    by (rule fin_ops) (use ur in linarith)
  have p: "fmul (Fin 100) (Fin (round53 (1 / 2 - round53 (?c / ?m)))) = Fin (balance_value c m)"
    unfolding balance_value_def by (rule fin_ops) (use hr in linarith)
  have t: "- 50 \<le> trunc_rat (balance_value c m)" "trunc_rat (balance_value c m) \<le> 50"
    using trunc_rat_bounds [of "- 50" "balance_value c m" 50] balance_value_range [OF assms(1,2)] by simp_all
  have "balance_score c m = 2 * word_of_int (trunc_rat (balance_value c m))"
    unfolding balance_score_def Let_def u s float64_100 p
    by (subst float64_to_int64_small) (use t in auto)
  then show i: "sint (balance_score c m) = 2 * trunc_rat (balance_value c m)"
    using sint_double t by simp
  show "in_score_range (balance_score c m)"
    using i t by (simp add: in_score_range_def MinClusterScore_def MaxClusterScore_def)
qed

lemma float64_of_count: "0 < i \<Longrightarrow> i < 2 ^ 63 \<Longrightarrow> float64_of_int i = Fin (round53 (of_int i))"
proof -
  assume "0 < i" "i < 2 ^ 63"
  then have "\<bar>of_int i :: rat\<bar> \<le> of_int (2 ^ 63)"
    by (simp only: of_int_abs [symmetric] of_int_le_iff)
  then show ?thesis unfolding float64_of_int_def by (rule rnd64_le_bound) simp
qed

lemma sint_balance_score:
  "0 < c \<Longrightarrow> c \<le> m \<Longrightarrow> m < 2 ^ 63 \<Longrightarrow> sint (balance_score c m) = 2 * trunc_rat (balance_value c m)"
  by (rule balance_score_fin) (simp_all add: float64_of_count)

lemma balance_score_range:
  assumes "0 < c" "c \<le> m"
  shows "in_score_range (balance_score c m)"
proof (cases "m < 2 ^ 63")
  case True
  then show ?thesis using assms by (intro balance_score_fin) (simp_all add: float64_of_count)
next
  case False
  let ?r = "\<lambda>i. round53 (of_int i)"
  have m0: "0 < m" using assms by simp
  consider (fin) "float64_of_int c = Fin (?r c)" "float64_of_int m = Fin (?r m)"
    | (small) "float64_of_int c = Fin (?r c)" "float64_of_int m = PInf"
    | (inf) "float64_of_int c = PInf" "float64_of_int m = PInf"
  proof -
    have "?r c \<le> ?r m" by (rule round53_mono) (simp add: assms)
    then show ?thesis
      using that float64_of_pos_int [OF assms(1)] float64_of_pos_int [OF m0]
      by (metis order.strict_trans1 linorder_not_le)
  qed
  then show ?thesis
  proof cases
    case fin
    then show ?thesis using balance_score_fin [OF assms] by simp
  next
    case small
    have "fsub (Fin (1 / 2)) (Fin 0) = Fin (1 / 2)" "fmul (Fin 100) (Fin (1 / 2)) = Fin 50"
      using fin_ops(1) [of "1 / 2" 0] fin_ops(2) [of 100 "1 / 2"] round53_half [of 1] round53_int [of 50]
      by simp_all
    then have "balance_score c m = 2 * float64_to_int64 (Fin 50)"
      by (simp add: balance_score_def small float64_100)
    then show ?thesis
      by (simp add: in_score_range_def MinClusterScore_def MaxClusterScore_def trunc_rat_def)
  next
    case inf
    then have "balance_score c m = 2 * word_of_int (- (2 ^ 63))"
      by (simp add: balance_score_def fsub_def float64_100)
    then show ?thesis by (simp add: in_score_range_def MinClusterScore_def MaxClusterScore_def)
  qed
qed

lemma balance_value_mono:
  assumes "0 < c" "c \<le> c'" "c' \<le> m"
  shows "balance_value c' m \<le> balance_value c m"
proof -
  have "0 \<le> round53 (of_int m)" using round53_pos_int [of m] assms by simp
  moreover have "round53 (of_int c) \<le> round53 (of_int c')" by (rule round53_mono) (simp add: assms)
  ultimately have "round53 (of_int c) / round53 (of_int m) \<le> round53 (of_int c') / round53 (of_int m)"
    by (rule divide_right_mono [rotated])
  then show ?thesis
    unfolding balance_value_def by (intro round53_mono mult_left_mono diff_left_mono) auto
qed

text \<open>More decisions never mean a higher score, even where a count is beyond \<open>float64\<close>.\<close>

lemma balance_score_mono:
  assumes "0 < c" "c \<le> c'" "c' \<le> m"
  shows "sint (balance_score c' m) \<le> sint (balance_score c m)"
proof -
  let ?r = "\<lambda>i. round53 (of_int i)"
  have pos: "0 < c'" "0 < m" and le: "?r c \<le> ?r c'" "?r c' \<le> ?r m" using assms by (auto intro: round53_mono)
  note f = float64_of_pos_int [OF assms(1)] float64_of_pos_int [OF pos(1)] float64_of_pos_int [OF pos(2)]
  consider (fin) "float64_of_int c = Fin (?r c)" "float64_of_int c' = Fin (?r c')" "float64_of_int m = Fin (?r m)"
    | (small) "float64_of_int c = Fin (?r c)" "float64_of_int m = PInf"
    | (inf) "float64_of_int c = PInf" "float64_of_int c' = PInf" "float64_of_int m = PInf"
    using f le by (metis order.strict_trans1 order.trans linorder_not_le)
  then show ?thesis
  proof cases
    case fin
    then show ?thesis using assms trunc_rat_mono [OF balance_value_mono [OF assms]]
      by (simp add: balance_score_fin)
  next
    case small
    have "fsub (Fin (1 / 2)) (Fin 0) = Fin (1 / 2)" "fmul (Fin 100) (Fin (1 / 2)) = Fin 50"
      using fin_ops(1) [of "1 / 2" 0] fin_ops(2) [of 100 "1 / 2"] round53_half [of 1] round53_int [of 50]
      by simp_all
    then have "balance_score c m = 2 * float64_to_int64 (Fin 50)"
      by (simp add: balance_score_def small float64_100)
    then have "balance_score c m = MaxClusterScore" by (simp add: MaxClusterScore_def trunc_rat_def)
    then show ?thesis using balance_score_range [of c' m] assms by (simp add: in_score_range_def)
  next
    case inf
    then show ?thesis by (simp add: balance_score_def)
  qed
qed

text \<open>The most loaded cluster gets the lowest score.\<close>

lemma balance_score_most_loaded:
  assumes "0 < m" "m < 2 ^ 63"
  shows "balance_score m m = MinClusterScore"
proof -
  have "1 \<le> round53 (of_int m)" using round53_pos_int assms by simp
  then have "balance_value m m = - 50"
    using round53_int [of 1] round53_half [of "- 1"] round53_int [of "- 50"]
    by (simp add: balance_value_def)
  then have "sint (balance_score m m) = sint MinClusterScore"
    using sint_balance_score [of m m] assms by (simp add: MinClusterScore_def trunc_rat_def)
  then show ?thesis by (simp add: signed_word_eqI)
qed

section \<open>The plugin\<close>

lemma foldl_scores:
  "foldl (\<lambda>m c. m(Name c \<mapsto> s)) m0 cs = (\<lambda>n. if n \<in> Name ` set cs then Some s else m0 n)"
  by (induction cs arbitrary: m0) (auto simp: fun_eq_iff)

lemma balance_Score_Inr:
  assumes "lister_list (DecisionLister h) Everything = Inr ds"
  shows "balance_Score e h p cs =
    (\<lparr>PScores = (\<lambda>n. if n \<in> Name ` set cs
        then Some (if n \<in> set (other_choices p ds)
                   then balance_score (int (count_list (other_choices p ds) n)) (max_count (other_choices p ds))
                   else MaxClusterScore)
        else None)\<rparr>, NewStatus balance_Name Success [''''])"
  by (auto simp: balance_Score_def assms foldl_scores count_decisions_eq count_map_def Let_def
      fun_eq_iff split: option.splits)

lemma balance_Score_Inl:
  assumes "lister_list (DecisionLister h) Everything = Inl er"
  shows "balance_Score e h p cs = (no_score_result, NewStatus balance_Name Error [api_err_text er])"
  by (simp add: balance_Score_def assms)

lemma choice_score_range:
  "n \<in> set xs \<Longrightarrow> in_score_range (balance_score (int (count_list xs n)) (max_count xs))"
  using count_pos [of n xs] count_le_max [of n xs] by (intro balance_score_range)

lemma MaxClusterScore_range [simp]: "in_score_range MaxClusterScore"
  by (simp add: in_score_range_def MaxClusterScore_def MinClusterScore_def)

lemma Name_image_mset: "mset cs = mset ds \<Longrightarrow> Name ` set cs = Name ` set ds"
  by (metis set_mset_mset)

interpretation balance: bounded_prioritizer balance_Score
proof
  fix e p cs ds n v and h :: Handle
  consider (ok) xs where "lister_list (DecisionLister h) Everything = Inr xs"
    | (fail) er where "lister_list (DecisionLister h) Everything = Inl er"
    by (cases "lister_list (DecisionLister h) Everything") auto
  note cases = this
  show "IsError (Some (snd (balance_Score e h p cs))) \<Longrightarrow> PScores (fst (balance_Score e h p cs)) = Map.empty"
    by (cases rule: cases) (auto simp: balance_Score_Inr balance_Score_Inl no_score_result_def)
  show "dom (PScores (fst (balance_Score e h p cs))) \<subseteq> Name ` set cs"
    by (cases rule: cases)
      (auto simp: balance_Score_Inr balance_Score_Inl no_score_result_def dom_def split: if_splits)
  assume perm: "mset cs = mset ds"
  show "PScores (fst (balance_Score e h p cs)) = PScores (fst (balance_Score e h p ds))"
    by (cases rule: cases) (simp_all add: balance_Score_Inr balance_Score_Inl Name_image_mset [OF perm])
  show "code (snd (balance_Score e h p cs)) = code (snd (balance_Score e h p ds))"
    by (cases rule: cases) (simp_all add: balance_Score_Inr balance_Score_Inl)
next
  fix e p cs n v and h :: Handle
  assume "PScores (fst (balance_Score e h p cs)) n = Some v"
  then show "in_score_range v"
    by (cases "lister_list (DecisionLister h) Everything")
      (auto simp: balance_Score_Inr balance_Score_Inl no_score_result_def choice_score_range
        split: if_splits)
qed


text \<open>C37: the balance score decreases with the load. Of two candidate clusters, the one chosen at
  least as often by other placements does not score higher, rounding included; every score is in the
  documented range; a cluster no other placement chose scores 100 and the most chosen one -100.\<close>

theorem balance_Score_monotone:
  fixes e :: PluginEnv and h :: Handle and p :: Placement and cs :: "ManagedCluster list" and a b :: string
  assumes "lister_list (DecisionLister h) Everything = Inr ds" "a \<in> Name ` set cs" "b \<in> Name ` set cs"
    "count_list (other_choices p ds) a \<le> count_list (other_choices p ds) b"
  defines "score \<equiv> get0 (PScores (fst (balance_Score e h p cs)))"
  shows "sint (score b) \<le> sint (score a) \<and> in_score_range (score a) \<and> in_score_range (score b) \<and>
    (a \<notin> set (other_choices p ds) \<longrightarrow> score a = MaxClusterScore) \<and>
    (b \<in> set (other_choices p ds) \<longrightarrow> int (count_list (other_choices p ds) b) = max_count (other_choices p ds) \<longrightarrow>
       max_count (other_choices p ds) < 2 ^ 63 \<longrightarrow> score b = MinClusterScore)"
proof -
  let ?xs = "other_choices p ds"
  have s: "score n = (if n \<in> set ?xs then balance_score (int (count_list ?xs n)) (max_count ?xs) else MaxClusterScore)"
    if "n \<in> Name ` set cs" for n
    using that by (simp add: score_def balance_Score_Inr [OF assms(1)] get0_def)
  have r: "in_score_range (score n)" for n unfolding score_def by (rule balance.get0_range)
  have mono: "sint (score b) \<le> sint (score a)"
  proof (cases "a \<in> set ?xs")
    case True
    then have "b \<in> set ?xs" using assms(4) count_pos [of a ?xs] count_list_0 [of b ?xs] by fastforce
    then show ?thesis
      using True s [OF assms(2)] s [OF assms(3)] assms(4) count_pos [OF True] count_le_max [of b ?xs]
        balance_score_mono [of "int (count_list ?xs a)" "int (count_list ?xs b)" "max_count ?xs"]
      by simp
  next
    case False
    then show ?thesis using s [OF assms(2)] r [of b] by (simp add: in_score_range_def)
  qed
  moreover have "score b = MinClusterScore" if "b \<in> set ?xs" "int (count_list ?xs b) = max_count ?xs" "max_count ?xs < 2 ^ 63"
    using that s [OF assms(3)] count_pos [OF that(1)]
      balance_score_most_loaded [of "max_count ?xs"] by simp
  moreover have "score a = MaxClusterScore" if "a \<notin> set ?xs" using that s [OF assms(2)] by simp
  ultimately show ?thesis using r by blast
qed

theorem balance_Score_monotone_witness:
  "sint (get0 (PScores (fst (balance_Score sample_plugin_env (sample_handle [sample_decision ''ns2'' ''q'' [''c2'']] [] [])
       (NewPlacement ''ns'' ''p'') [NewManagedCluster ''c1'', NewManagedCluster ''c2'']))) ''c2'')
     \<le> sint (get0 (PScores (fst (balance_Score sample_plugin_env (sample_handle [sample_decision ''ns2'' ''q'' [''c2'']] [] [])
       (NewPlacement ''ns'' ''p'') [NewManagedCluster ''c1'', NewManagedCluster ''c2'']))) ''c1'') \<and>
   get0 (PScores (fst (balance_Score sample_plugin_env (sample_handle [sample_decision ''ns2'' ''q'' [''c2'']] [] [])
       (NewPlacement ''ns'' ''p'') [NewManagedCluster ''c1'', NewManagedCluster ''c2'']))) ''c2'' = MinClusterScore"
proof -
  let ?ds = "[sample_decision ''ns2'' ''q'' [''c2'']]" and ?p = "NewPlacement ''ns'' ''p''"
  let ?cs = "[NewManagedCluster ''c1'', NewManagedCluster ''c2'']"
  have l: "lister_list (DecisionLister (sample_handle ?ds [] [])) Everything = Inr ?ds"
    by (simp add: ListAll_eq)
  have x: "other_choices ?p ?ds = [''c2'']"
    by (simp add: other_choices_def own_decision_def)
  have m: "max_count (other_choices ?p ?ds) = 1" by (simp add: x max_count_def)
  have b: "max_count (other_choices ?p ?ds) < 2 ^ 63"
    "count_list (other_choices ?p ?ds) ''c1'' \<le> count_list (other_choices ?p ?ds) ''c2''"
    unfolding m by (simp_all add: x)
  have n: "''c1'' \<in> Name ` set ?cs" "''c2'' \<in> Name ` set ?cs" by simp_all
  have "''c2'' \<in> set (other_choices ?p ?ds)"
    "int (count_list (other_choices ?p ?ds) ''c2'') = max_count (other_choices ?p ?ds)"
    unfolding m by (simp_all add: x)
  then show ?thesis
    using b(1) balance_Score_monotone [OF l n b(2), of sample_plugin_env] by blast
qed

end
