(* ===== verification/Steady.thy ===== *)
theory Steady
  imports Samples
begin

text \<open>
  \<open>pkg/plugins/steady/steady.go\<close>: the prioritizer that prefers the clusters the placement has
  already chosen: 100 for those, 0 for the others.
\<close>

definition steady_Name :: string where
  "steady_Name = ''Steady''"

definition steady_Score ::
  "PluginEnv \<Rightarrow> Handle \<Rightarrow> Placement \<Rightarrow> ManagedCluster list \<Rightarrow> PluginScoreResult \<times> Status" where
  "steady_Score e h placement clusters =
     (case equals_selector PlacementLabel (Name placement) of
        Inl er \<Rightarrow> (no_score_result, NewStatus steady_Name Error [SelectorErrText e er])
      | Inr labelSelector \<Rightarrow>
         (case ns_list (DecisionLister h) (Namespace placement) labelSelector of
            Inl er \<Rightarrow> (no_score_result, NewStatus steady_Name Error [api_err_text er])
          | Inr decisions \<Rightarrow>
             (let existingDecisions = collect_decisions decisions;
                  scores = foldl (\<lambda>m cluster.
                     if sets_has existingDecisions (Name cluster)
                     then m(Name cluster \<mapsto> MaxClusterScore)
                     else m(Name cluster \<mapsto> 0)) Map.empty clusters
              in (\<lparr>PScores = scores\<rparr>, NewStatus steady_Name Success ['''']))))"

definition steady_RequeueAfter :: "Placement \<Rightarrow> PluginRequeueResult \<times> Status" where
  "steady_RequeueAfter placement = (no_requeue_result, NewStatus steady_Name Success [''''])"

lemma foldl_name_scores:
  "foldl (\<lambda>m c. if P (Name c) then m(Name c \<mapsto> a) else m(Name c \<mapsto> b)) m0 cs =
     (\<lambda>n. if n \<in> Name ` set cs then Some (if P n then a else b) else m0 n)"
  by (induction cs arbitrary: m0) (auto simp: fun_eq_iff)

text \<open>The decisions the placement already has: those labelled with its name in its namespace.\<close>

definition own_pds :: "Handle \<Rightarrow> Placement \<Rightarrow> PlacementDecision list \<Rightarrow> bool" where
  "own_pds h p ds \<longleftrightarrow> (\<exists>sel. equals_selector PlacementLabel (Name p) = Inr sel \<and>
     ns_list (DecisionLister h) (Namespace p) sel = Inr ds)"

lemma steady_Score_ok:
  assumes "own_pds h p ds"
  shows "steady_Score e h p cs =
    (\<lparr>PScores = (\<lambda>n. if n \<in> Name ` set cs
        then Some (if n \<in> set (collect_decisions ds) then MaxClusterScore else 0) else None)\<rparr>,
     NewStatus steady_Name Success [''''])"
proof -
  obtain sel where sel: "equals_selector PlacementLabel (Name p) = Inr sel"
    "ns_list (DecisionLister h) (Namespace p) sel = Inr ds"
    using assms by (auto simp: own_pds_def)
  have f: "foldl (\<lambda>m cluster.
       if sets_has (collect_decisions ds) (Name cluster)
       then m(Name cluster \<mapsto> MaxClusterScore) else m(Name cluster \<mapsto> 0)) Map.empty cs =
     (\<lambda>n. if n \<in> Name ` set cs
        then Some (if n \<in> set (collect_decisions ds) then MaxClusterScore else 0) else None)"
    unfolding sets_has_def
    by (rule foldl_name_scores [of "\<lambda>n. n \<in> set (collect_decisions ds)"])
  show ?thesis unfolding steady_Score_def sel sum.case Let_def f ..
qed

lemma steady_Score_error:
  assumes "\<nexists>ds. own_pds h p ds"
  shows "fst (steady_Score e h p cs) = no_score_result" "code (snd (steady_Score e h p cs)) = Error"
  using assms by (auto simp: own_pds_def steady_Score_def split: sum.splits)

interpretation steady: bounded_prioritizer steady_Score
proof
  fix e p cs ds n v and h :: Handle
  consider (ok) xs where "own_pds h p xs" | (fail) "\<nexists>ds. own_pds h p ds" by blast
  note cases = this
  show "IsError (Some (snd (steady_Score e h p cs))) \<Longrightarrow> PScores (fst (steady_Score e h p cs)) = Map.empty"
    by (cases rule: cases) (auto simp: steady_Score_ok steady_Score_error no_score_result_def)
  show "dom (PScores (fst (steady_Score e h p cs))) \<subseteq> Name ` set cs"
    by (cases rule: cases)
      (auto simp: steady_Score_ok steady_Score_error no_score_result_def dom_def split: if_splits)
  assume perm: "mset cs = mset ds"
  then have n: "Name ` set cs = Name ` set ds" by (metis set_mset_mset)
  show "PScores (fst (steady_Score e h p cs)) = PScores (fst (steady_Score e h p ds))"
    by (cases rule: cases) (simp_all add: steady_Score_ok steady_Score_error n)
  show "code (snd (steady_Score e h p cs)) = code (snd (steady_Score e h p ds))"
    by (cases rule: cases) (simp_all add: steady_Score_ok steady_Score_error)
next
  fix e p cs n v and h :: Handle
  assume s: "PScores (fst (steady_Score e h p cs)) n = Some v"
  then show "in_score_range v"
    by (cases "\<exists>ds. own_pds h p ds")
      (auto simp: steady_Score_ok steady_Score_error no_score_result_def in_score_range_def
        MaxClusterScore_def MinClusterScore_def split: if_splits)
qed

text \<open>With a decision lister that obeys the lister laws, the decisions are those of the
  placement.\<close>

lemma own_pds_cache:
  assumes "DecisionLister h = cache_ns_lister resource pds" "Namespace p \<noteq> []"
    "is_valid_label_value (Name p)" "is_qualified_name PlacementLabel"
  shows "\<exists>ds. own_pds h p ds \<and> set ds =
    {d \<in> set pds. Namespace d = Namespace p \<and> ObjLabels d PlacementLabel = Some (Name p)}"
proof -
  obtain sel where sel: "equals_selector PlacementLabel (Name p) = Inr sel"
    using equals_selector_ok assms(3,4) by blast
  let ?ds = "ListAllByNamespace pds (Namespace p) sel"
  have l: "ns_list (cache_ns_lister resource pds) (Namespace p) sel = Inr ?ds" by simp
  from ns_cache.list_ns_set [OF assms(2) l] show ?thesis
    using sel l assms(1) by (auto simp: own_pds_def equals_selector_matches)
qed


text \<open>The steady score. Over a cache of decisions, a candidate cluster scores 100 when one of the
  placement's own decisions already names it and 0 otherwise.\<close>

theorem steady_Score_spec:
  assumes "DecisionLister h = cache_ns_lister resource pds" "Namespace p \<noteq> []"
    "is_valid_label_value (Name p)" "c \<in> set cs"
  shows "get0 (PScores (fst (steady_Score e h p cs))) (Name c) =
    (if \<exists>d \<in> set pds. Namespace d = Namespace p \<and> ObjLabels d PlacementLabel = Some (Name p) \<and>
          Name c \<in> ClusterName ` set (Decisions d)
     then 100 else 0)"
proof -
  have q: "is_qualified_name PlacementLabel" by code_simp
  obtain ds where ds: "own_pds h p ds"
    "set ds = {d \<in> set pds. Namespace d = Namespace p \<and> ObjLabels d PlacementLabel = Some (Name p)}"
    using own_pds_cache [OF assms(1-3) q] by blast
  show ?thesis using assms(4) by (auto simp: steady_Score_ok [OF ds(1)] ds(2) get0_def MaxClusterScore_def)
qed

theorem steady_Score_spec_witness:
  "get0 (PScores (fst (steady_Score sample_plugin_env (sample_handle [sample_decision ''ns'' ''p'' [''c1'']] [] [])
     (NewPlacement ''ns'' ''p'') [NewManagedCluster ''c1'']))) ''c1'' = 100"
proof -
  have v: "is_valid_label_value (Name (NewPlacement ''ns'' ''p''))" by code_simp
  from steady_Score_spec [OF sample_handle_simps(1) _ v, of "NewManagedCluster ''c1''" "[NewManagedCluster ''c1'']"
      sample_plugin_env "[sample_decision ''ns'' ''p'' [''c1'']]" "[]" "[]"]
  show ?thesis by simp
qed

end
