(* ===== verification/AddOn.thy ===== *)
theory AddOn
  imports Samples
begin

text \<open>
  \<open>pkg/plugins/addon/addon.go\<close>: the prioritizer that reads the score of a cluster from the
  \<open>AddOnPlacementScore\<close> of a given name in the cluster's namespace. A missing or expired object,
  or one without the score asked for, counts as 0; expired ones are reported as a warning.
\<close>

record AddOn =
  prioritizerName :: string
  resourceName :: string
  scoreName :: string

definition NewAddOnPrioritizerBuilder :: AddOn where
  "NewAddOnPrioritizerBuilder = \<lparr>prioritizerName = [], resourceName = [], scoreName = []\<rparr>"

definition WithResourceName :: "string \<Rightarrow> AddOn \<Rightarrow> AddOn" where
  "WithResourceName name c = c\<lparr>resourceName := name\<rparr>"

definition WithScoreName :: "string \<Rightarrow> AddOn \<Rightarrow> AddOn" where
  "WithScoreName name c = c\<lparr>scoreName := name\<rparr>"

definition addon_Build :: "AddOn \<Rightarrow> AddOn" where
  "addon_Build c = c\<lparr>prioritizerName := ''AddOn'' @ ''/'' @ resourceName c @ ''/'' @ scoreName c\<rparr>"

definition addon_Name :: "AddOn \<Rightarrow> string" where
  "addon_Name c = prioritizerName c"

text \<open>The inner loop over the scores of an object: the last one of the name wins.\<close>

definition find_score :: "string \<Rightarrow> AddOnPlacementScoreItem list \<Rightarrow> int64 \<Rightarrow> int64" where
  "find_score name items init = foldl (\<lambda>s v.
     if item_name v = name then scast (item_value v) else s) init items"

definition score_expired :: "go_time \<Rightarrow> AddOnPlacementScore \<Rightarrow> bool" where
  "score_expired now s = (case ValidUntil s of None \<Rightarrow> False | Some t \<Rightarrow> time_after now t)"

definition addon_step ::
  "PluginEnv \<Rightarrow> Handle \<Rightarrow> AddOn \<Rightarrow> (string \<rightharpoonup> int64) \<times> string \<Rightarrow> ManagedCluster \<Rightarrow>
     (string \<rightharpoonup> int64) \<times> string" where
  "addon_step e h c st cluster = (case st of (scores, expiredScores) \<Rightarrow>
     (let namespace = Name cluster; scores = scores(Name cluster \<mapsto> 0) in
      case ns_get (ScoreLister h) namespace (resourceName c) of
        Inl er \<Rightarrow> (scores, expiredScores)
      | Inr addOnScores \<Rightarrow>
          if score_expired (AddOnNow e) addOnScores
          then (scores, expiredScores @ '' '' @ namespace @ ''/'' @ resourceName c)
          else (scores(Name cluster \<mapsto> find_score (scoreName c) (Scores addOnScores) 0), expiredScores)))"

definition addon_Score ::
  "AddOn \<Rightarrow> PluginEnv \<Rightarrow> Handle \<Rightarrow> Placement \<Rightarrow> ManagedCluster list \<Rightarrow> PluginScoreResult \<times> Status" where
  "addon_Score c e h placement clusters =
     (let (scores, expiredScores) = foldl (addon_step e h c) (Map.empty, '''') clusters;
          status = (if length expiredScores > 0
             then NewStatus (addon_Name c) Warning [''AddOnPlacementScores'' @ expiredScores @ '' expired'']
             else NewStatus (addon_Name c) Success [''''])
      in (\<lparr>PScores = scores\<rparr>, status))"

definition addon_RequeueAfter :: "AddOn \<Rightarrow> Placement \<Rightarrow> PluginRequeueResult \<times> Status" where
  "addon_RequeueAfter c placement = (no_requeue_result, NewStatus (addon_Name c) Success [''''])"

section \<open>The score of a cluster\<close>

definition cluster_expired :: "PluginEnv \<Rightarrow> Handle \<Rightarrow> AddOn \<Rightarrow> string \<Rightarrow> bool" where
  "cluster_expired e h c n = (case ns_get (ScoreLister h) n (resourceName c) of
     Inl er \<Rightarrow> False | Inr s \<Rightarrow> score_expired (AddOnNow e) s)"

definition addon_value :: "PluginEnv \<Rightarrow> Handle \<Rightarrow> AddOn \<Rightarrow> string \<Rightarrow> int64" where
  "addon_value e h c n = (case ns_get (ScoreLister h) n (resourceName c) of
     Inl er \<Rightarrow> 0
   | Inr s \<Rightarrow> if score_expired (AddOnNow e) s then 0 else find_score (scoreName c) (Scores s) 0)"

lemma addon_step_eq:
  "addon_step e h c (m, s) cl = (m(Name cl \<mapsto> addon_value e h c (Name cl)),
     s @ (if cluster_expired e h c (Name cl) then '' '' @ Name cl @ ''/'' @ resourceName c else []))"
  by (simp add: addon_step_def addon_value_def cluster_expired_def Let_def split: sum.splits)

lemma foldl_addon_step:
  "fst (foldl (addon_step e h c) (m, s) cs) =
     (\<lambda>n. if n \<in> Name ` set cs then Some (addon_value e h c n) else m n)"
  "snd (foldl (addon_step e h c) (m, s) cs) = [] \<longleftrightarrow>
     s = [] \<and> (\<forall>cl \<in> set cs. \<not> cluster_expired e h c (Name cl))"
  by (induction cs arbitrary: m s) (auto simp: addon_step_eq fun_eq_iff)

lemma addon_Score_scores:
  "PScores (fst (addon_Score c e h p cs)) =
     (\<lambda>n. if n \<in> Name ` set cs then Some (addon_value e h c n) else None)"
  using foldl_addon_step(1) [of e h c Map.empty "''''" cs]
  by (auto simp: addon_Score_def case_prod_unfold Let_def)

lemma addon_Score_code:
  "code (snd (addon_Score c e h p cs)) =
     (if \<exists>cl \<in> set cs. cluster_expired e h c (Name cl) then Warning else Success)"
  using foldl_addon_step(2) [of e h c Map.empty "''''" cs]
  by (auto simp: addon_Score_def case_prod_unfold Let_def)

lemma addon_no_error: "\<not> IsError (Some (snd (addon_Score c e h p cs)))"
  by (simp add: IsError_Some addon_Score_code)

interpretation addon: prioritizer_plugin "addon_Score c" for c
proof
  fix e p cs ds and h :: Handle
  show "IsError (Some (snd (addon_Score c e h p cs))) \<Longrightarrow> PScores (fst (addon_Score c e h p cs)) = Map.empty"
    by (simp add: addon_no_error)
  show "dom (PScores (fst (addon_Score c e h p cs))) \<subseteq> Name ` set cs"
    by (auto simp: addon_Score_scores split: if_splits)
  assume perm: "mset cs = mset ds"
  then have s: "set cs = set ds" by (metis set_mset_mset)
  show "PScores (fst (addon_Score c e h p cs)) = PScores (fst (addon_Score c e h p ds))"
    by (simp add: addon_Score_scores s)
  show "code (snd (addon_Score c e h p cs)) = code (snd (addon_Score c e h p ds))"
    by (simp add: addon_Score_code s)
qed

text \<open>A score read from an object is one of its items, or 0; with items in the range the API
  validates (\<open>-100\<close> to \<open>100\<close>) it is in range.\<close>

lemma find_score_last:
  "find_score n (items @ [v]) i = (if item_name v = n then scast (item_value v) else find_score n items i)"
  by (simp add: find_score_def)

lemma find_score_cases:
  "find_score n items i = i \<or> (\<exists>v \<in> set items. item_name v = n \<and> find_score n items i = scast (item_value v))"
proof (induction items rule: rev_induct)
  case Nil
  then show ?case by (simp add: find_score_def)
next
  case (snoc v items)
  then show ?case by (auto simp: find_score_last)
qed

definition valid_score_item :: "AddOnPlacementScoreItem \<Rightarrow> bool" where
  "valid_score_item v \<longleftrightarrow> - 100 \<le> sint (item_value v) \<and> sint (item_value v) \<le> 100"

definition valid_scores :: "Handle \<Rightarrow> bool" where
  "valid_scores h \<longleftrightarrow> (\<forall>ns n s. ns_get (ScoreLister h) ns n = Inr s \<longrightarrow> list_all valid_score_item (Scores s))"

lemma find_score_range:
  assumes "list_all valid_score_item items"
  shows "in_score_range (find_score n items 0)"
  using find_score_cases [of n items 0] assms
  by (auto simp: valid_score_item_def list_all_iff in_score_range_def MinClusterScore_def
      MaxClusterScore_def sint_scast_int32_int64)

lemma addon_value_range:
  assumes "valid_scores h"
  shows "in_score_range (addon_value e h c n)"
proof (cases "ns_get (ScoreLister h) n (resourceName c)")
  case (Inl er)
  then show ?thesis
    by (simp add: addon_value_def in_score_range_def MinClusterScore_def MaxClusterScore_def)
next
  case (Inr s)
  with assms have "list_all valid_score_item (Scores s)" by (auto simp: valid_scores_def)
  from find_score_range [OF this] have f: "in_score_range (find_score (scoreName c) (Scores s) 0)" .
  have z: "in_score_range 0"
    by (simp add: in_score_range_def MinClusterScore_def MaxClusterScore_def)
  show ?thesis using Inr f z by (simp add: addon_value_def)
qed


text \<open>C39: the addon score of a candidate cluster is the last item of the configured name in the
  \<open>AddOnPlacementScore\<close> of the configured name in the cluster's namespace, and 0 when there is no
  such object, no such item, or the object has expired; and the run is a warning exactly when some
  candidate's object has expired, never an error.\<close>

theorem addon_Score_spec:
  assumes "c \<in> set cs"
  shows "get0 (PScores (fst (addon_Score a e h p cs))) (Name c) =
    (case ns_get (ScoreLister h) (Name c) (resourceName a) of
       Inl er \<Rightarrow> 0
     | Inr s \<Rightarrow> if (case ValidUntil s of None \<Rightarrow> False | Some t \<Rightarrow> t < AddOnNow e) then 0
         else (case filter (\<lambda>v. item_name v = scoreName a) (Scores s) of
             [] \<Rightarrow> 0 | vs \<Rightarrow> scast (item_value (last vs)))) \<and>
    code (snd (addon_Score a e h p cs)) = (if \<exists>d \<in> set cs. cluster_expired e h a (Name d) then Warning else Success)"
proof -
  have f: "find_score n items 0 = (case filter (\<lambda>v. item_name v = n) items of
      [] \<Rightarrow> 0 | vs \<Rightarrow> scast (item_value (last vs)))" for n items
    by (induction items rule: rev_induct) (auto simp: find_score_last find_score_def split: list.splits)
  show ?thesis
    using assms by (auto simp: addon_Score_scores addon_Score_code get0_def addon_value_def
        score_expired_def time_after_def f split: sum.splits option.splits)
qed

theorem addon_Score_spec_witness:
  "get0 (PScores (fst (addon_Score \<lparr>prioritizerName = ''AddOn/demo/cpu'', resourceName = ''demo'', scoreName = ''cpu''\<rparr>
     sample_plugin_env (sample_handle [] [WithScore ''cpu'' 30 (NewAddOnPlacementScore ''c1'' ''demo'')] [])
     (NewPlacement ''ns'' ''p'') [NewManagedCluster ''c1'']))) ''c1'' = 30"
proof -
  have g: "ns_get (cache_ns_lister ''addonplacementscores'' [WithScore ''cpu'' 30 (NewAddOnPlacementScore ''c1'' ''demo'')])
      ''c1'' ''demo'' = Inr (WithScore ''cpu'' 30 (NewAddOnPlacementScore ''c1'' ''demo''))"
    by (simp add: cache_ns_lister_def GetByKey_def MetaNamespaceKey_def builder_defs record_builders slash_def)
  have s: "ValidUntil (WithScore ''cpu'' 30 (NewAddOnPlacementScore ''c1'' ''demo'')) = None"
    "Scores (WithScore ''cpu'' 30 (NewAddOnPlacementScore ''c1'' ''demo'')) = [\<lparr>item_name = ''cpu'', item_value = 30\<rparr>]"
    by (simp_all add: builder_defs record_builders)
  show ?thesis
    using addon_Score_spec [of "NewManagedCluster ''c1''" "[NewManagedCluster ''c1'']"
        "\<lparr>prioritizerName = ''AddOn/demo/cpu'', resourceName = ''demo'', scoreName = ''cpu''\<rparr>" sample_plugin_env
        "sample_handle [] [WithScore ''cpu'' 30 (NewAddOnPlacementScore ''c1'' ''demo'')] []" "NewPlacement ''ns'' ''p''"]
    by (simp add: g s)
qed

end
