(* ===== verification/Resource.thy ===== *)
theory Resource
  imports Samples Float64
begin

text \<open>
  \<open>pkg/plugins/resource/resource.go\<close>: the prioritizers \<open>ResourceAllocatableCPU\<close> and
  \<open>ResourceAllocatableMemory\<close>. The name is split into words by the regular expression
  \<open>[A-Z]+[a-z]*\<close>; the score places the allocatable amount of a cluster between the least and the
  greatest of the clusters, in \<open>float64\<close>, rounding after every operation.
\<close>

section \<open>The name of the prioritizer\<close>

definition is_upper_char :: "char \<Rightarrow> bool" where
  "is_upper_char c \<longleftrightarrow> 65 \<le> (of_char c :: nat) \<and> (of_char c :: nat) \<le> 90"

definition is_lower_char :: "char \<Rightarrow> bool" where
  "is_lower_char c \<longleftrightarrow> 97 \<le> (of_char c :: nat) \<and> (of_char c :: nat) \<le> 122"

text \<open>\<open>regexp.MustCompile("[A-Z]+[a-z]*").FindAllString(s, -1)\<close>: the leftmost matches, each as
  long as possible, without overlap.\<close>

function find_words :: "string \<Rightarrow> string list" where
  "find_words s = (case dropWhile (\<lambda>c. \<not> is_upper_char c) s of
     [] \<Rightarrow> []
   | c # r \<Rightarrow>
      (let rest = dropWhile is_upper_char r
       in (c # takeWhile is_upper_char r @ takeWhile is_lower_char rest)
            # find_words (dropWhile is_lower_char rest)))"
  by pat_completeness auto
termination
proof (relation "measure length")
  fix s c r rest
  assume s: "dropWhile (\<lambda>c. \<not> is_upper_char c) s = c # r" and rest: "rest = dropWhile is_upper_char r"
  have "length (dropWhile is_lower_char rest) \<le> length r"
    unfolding rest by (meson length_dropWhile_le order_trans)
  also have "length r < length s"
    using length_dropWhile_le [of "\<lambda>c. \<not> is_upper_char c" s] s by simp
  finally show "(dropWhile is_lower_char rest, s) \<in> measure length" by simp
qed simp

declare find_words.simps [simp del]

definition ResourceCPU :: string where "ResourceCPU = ''cpu''"
definition ResourceMemory :: string where "ResourceMemory = ''memory''"

definition resourceMap :: "string \<Rightarrow> string" where
  "resourceMap s = (if s = ''CPU'' then ResourceCPU else if s = ''Memory'' then ResourceMemory else '''')"

definition parsePrioritizerName :: "string \<Rightarrow> string \<times> string" where
  "parsePrioritizerName prioritizerName = (let s = find_words prioritizerName in
     if length s = 3 then (s ! 1, resourceMap (s ! 2)) else ('''', ''''))"

record ResourcePrioritizer =
  resPrioritizerName :: string
  algorithm :: string
  resource :: string

definition NewResourcePrioritizerBuilder :: ResourcePrioritizer where
  "NewResourcePrioritizerBuilder = \<lparr>resPrioritizerName = [], algorithm = [], resource = []\<rparr>"

definition WithPrioritizerName :: "string \<Rightarrow> ResourcePrioritizer \<Rightarrow> ResourcePrioritizer" where
  "WithPrioritizerName name r = r\<lparr>resPrioritizerName := name\<rparr>"

definition resource_Build :: "ResourcePrioritizer \<Rightarrow> ResourcePrioritizer" where
  "resource_Build r = (let (a, res) = parsePrioritizerName (resPrioritizerName r)
     in r\<lparr>algorithm := a, resource := res\<rparr>)"

definition resource_Name :: "ResourcePrioritizer \<Rightarrow> string" where
  "resource_Name r = resPrioritizerName r"

section \<open>Amounts\<close>

text \<open>\<open>Quantity.AsApproximateFloat64\<close>: a base and a decimal exponent.\<close>

fun quantity_parts :: "Quantity \<Rightarrow> float64 \<times> int" where
  "quantity_parts (Int64Amount v s) = (float64_of_int (sint v), sint s)"
| "quantity_parts (DecAmount u s) = (float64_of_int u, sint (- s))"

definition AsApproximateFloat64 :: "Quantity \<Rightarrow> float64" where
  "AsApproximateFloat64 q = (let (base, exponent) = quantity_parts q in
     if exponent = 0 then base else fmul base (math_pow10 exponent))"

text \<open>Both the allocatable amount and the capacity must be there; \<open>None\<close> is the error.\<close>

definition getClusterResource :: "ManagedCluster \<Rightarrow> string \<Rightarrow> (float64 \<times> float64) option" where
  "getClusterResource cluster resourceName =
     (case Allocatable cluster resourceName of None \<Rightarrow> None
      | Some v \<Rightarrow> let allocatable = AsApproximateFloat64 v in
         (case Capacity cluster resourceName of None \<Rightarrow> None
          | Some w \<Rightarrow> Some (allocatable, AsApproximateFloat64 w)))"

text \<open>\<open>sort.Float64s\<close> orders NaN before every other value.\<close>

definition float64_less :: "float64 \<Rightarrow> float64 \<Rightarrow> bool" where
  "float64_less x y \<longleftrightarrow> flt x y \<or> is_nan x \<and> \<not> is_nan y"

definition sort_float64s :: "float64 list \<Rightarrow> float64 list" where
  "sort_float64s xs = slice_stable float64_less xs"

definition allocatable_amounts :: "ManagedCluster list \<Rightarrow> string \<Rightarrow> float64 list" where
  "allocatable_amounts clusters resourceName = foldl (\<lambda>acc c.
     case getClusterResource c resourceName of None \<Rightarrow> acc | Some (alloc, _) \<Rightarrow> acc @ [alloc]) [] clusters"

definition getClustersMinMaxAllocatableResource ::
  "ManagedCluster list \<Rightarrow> string \<Rightarrow> (float64 \<times> float64) option" where
  "getClustersMinMaxAllocatableResource clusters resourceName =
     (let allocatable = allocatable_amounts clusters resourceName in
      if length allocatable = 0 then None
      else let s = sort_float64s allocatable in Some (s ! 0, s ! (length s - 1)))"

definition allocatable_score :: "float64 \<Rightarrow> float64 \<Rightarrow> float64 \<Rightarrow> int64" where
  "allocatable_score minAllocatable maxAllocatable allocatable =
     (if fnonzero (fsub maxAllocatable minAllocatable) then
        let ratio = fdiv (fsub allocatable minAllocatable) (fsub maxAllocatable minAllocatable)
        in float64_to_int64 (fmul (fmul (fsub ratio (Fin (1 / 2))) (Fin 2)) (Fin 100))
      else 100)"

definition mostResourceAllocatableScores :: "string \<Rightarrow> ManagedCluster list \<Rightarrow> PluginScoreResult" where
  "mostResourceAllocatableScores resourceName clusters =
     (case getClustersMinMaxAllocatableResource clusters resourceName of
        None \<Rightarrow> \<lparr>PScores = Map.empty\<rparr>
      | Some (minAllocatable, maxAllocatable) \<Rightarrow>
          \<lparr>PScores = foldl (\<lambda>scores c. case getClusterResource c resourceName of
             None \<Rightarrow> scores
           | Some (allocatable, _) \<Rightarrow>
               scores(Name c \<mapsto> allocatable_score minAllocatable maxAllocatable allocatable))
            Map.empty clusters\<rparr>)"

definition resource_Score ::
  "ResourcePrioritizer \<Rightarrow> PluginEnv \<Rightarrow> Handle \<Rightarrow> Placement \<Rightarrow> ManagedCluster list \<Rightarrow>
     PluginScoreResult \<times> Status" where
  "resource_Score r e h placement clusters =
     (let status = NewStatus (resource_Name r) Success [''''] in
      if algorithm r = ''Allocatable''
      then (mostResourceAllocatableScores (resource r) clusters, status)
      else (no_score_result, status))"

definition resource_RequeueAfter :: "ResourcePrioritizer \<Rightarrow> Placement \<Rightarrow> PluginRequeueResult \<times> Status" where
  "resource_RequeueAfter r placement =
     (no_requeue_result, NewStatus (resource_Name r) Success [''''])"

section \<open>The order of the amounts\<close>

instantiation float64 :: linorder
begin

definition less_float64 :: "float64 \<Rightarrow> float64 \<Rightarrow> bool" where
  "less_float64 x y \<longleftrightarrow> float64_less x y"

definition less_eq_float64 :: "float64 \<Rightarrow> float64 \<Rightarrow> bool" where
  "less_eq_float64 x y \<longleftrightarrow> x = y \<or> float64_less x y"

instance
proof
  fix x y z :: float64
  show "(x < y) = (x \<le> y \<and> \<not> y \<le> x)"
    by (cases x; cases y) (auto simp: less_float64_def less_eq_float64_def float64_less_def)
  show "x \<le> x" by (simp add: less_eq_float64_def)
  show "x \<le> y \<Longrightarrow> y \<le> z \<Longrightarrow> x \<le> z"
    by (cases x; cases y; cases z) (auto simp: less_eq_float64_def float64_less_def)
  show "x \<le> y \<Longrightarrow> y \<le> x \<Longrightarrow> x = y"
    by (cases x; cases y) (auto simp: less_eq_float64_def float64_less_def)
  show "x \<le> y \<or> y \<le> x"
    by (cases x; cases y) (auto simp: less_eq_float64_def float64_less_def)
qed

end

lemma Fin_le_iff [simp]: "Fin x \<le> Fin y \<longleftrightarrow> x \<le> y"
  by (auto simp: less_eq_float64_def float64_less_def)

lemma sort_float64s_eq: "sort_float64s xs = sort xs"
  unfolding sort_float64s_def by (rule slice_stable_key) (simp add: less_float64_def)

lemma sort_first: "xs \<noteq> [] \<Longrightarrow> sort xs ! 0 = Min (set (xs :: 'a::linorder list))"
proof -
  assume n: "xs \<noteq> []"
  then obtain y ys where y: "sort xs = y # ys" by (cases "sort xs") (auto dest: arg_cong [of _ _ mset])
  have "sorted (y # ys)" unfolding y [symmetric] by simp
  then have "Min (set (y # ys)) = y" by (intro Min_eqI) auto
  then show ?thesis unfolding y [symmetric] set_sort by (simp add: y)
qed

lemma sort_last: "xs \<noteq> [] \<Longrightarrow> sort xs ! (length xs - 1) = Max (set (xs :: 'a::linorder list))"
proof -
  assume n: "xs \<noteq> []"
  have l: "0 < length (sort xs)" using n by simp
  have "Max (set (sort xs)) = sort xs ! (length xs - 1)"
  proof (rule Max_eqI)
    show "sort xs ! (length xs - 1) \<in> set (sort xs)" using l nth_mem [of "length xs - 1" "sort xs"] by simp
    fix y assume "y \<in> set (sort xs)"
    then obtain i where "i < length (sort xs)" "y = sort xs ! i" by (metis in_set_conv_nth)
    then show "y \<le> sort xs ! (length xs - 1)" by (auto intro: sorted_nth_mono)
  qed simp
  then show ?thesis by simp
qed

section \<open>The scores of the clusters\<close>

definition cluster_amount :: "string \<Rightarrow> ManagedCluster \<Rightarrow> float64 option" where
  "cluster_amount res c = map_option fst (getClusterResource c res)"

lemma allocatable_amounts_eq: "allocatable_amounts cs res = List.map_filter (cluster_amount res) cs"
proof -
  have "foldl (\<lambda>acc c. case getClusterResource c res of None \<Rightarrow> acc | Some (alloc, _) \<Rightarrow> acc @ [alloc]) acc cs
      = acc @ List.map_filter (cluster_amount res) cs" for acc
    by (induction cs arbitrary: acc)
      (auto simp: cluster_amount_def map_filter_def split: option.splits)
  then show ?thesis by (simp add: allocatable_amounts_def)
qed

lemma set_allocatable_amounts:
  "set (allocatable_amounts cs res) = {a. \<exists>c \<in> set cs. cluster_amount res c = Some a}"
  by (force simp: allocatable_amounts_eq map_filter_def)

lemma min_max_eq:
  "getClustersMinMaxAllocatableResource cs res =
     (let xs = set (allocatable_amounts cs res) in if xs = {} then None else Some (Min xs, Max xs))"
  by (simp add: getClustersMinMaxAllocatableResource_def Let_def sort_float64s_eq sort_first
      sort_last [simplified])

lemma min_max_perm: "set cs = set ds \<Longrightarrow>
    getClustersMinMaxAllocatableResource cs res = getClustersMinMaxAllocatableResource ds res"
  by (simp add: min_max_eq set_allocatable_amounts)

text \<open>Every cluster with the resource has a score, the score of its own amount.\<close>

lemma foldl_amount_scores:
  assumes "distinct (map Name cs)"
  shows "foldl (\<lambda>scores c. case getClusterResource c res of None \<Rightarrow> scores
       | Some (allocatable, _) \<Rightarrow> scores(Name c \<mapsto> allocatable_score mn mx allocatable)) m0 cs n =
     (case find (\<lambda>c. Name c = n) cs of None \<Rightarrow> m0 n
      | Some c \<Rightarrow> (case cluster_amount res c of None \<Rightarrow> m0 n | Some a \<Rightarrow> Some (allocatable_score mn mx a)))"
  using assms
proof (induction cs arbitrary: m0)
  case (Cons c cs)
  have "Name c \<notin> Name ` set cs" using Cons.prems by simp
  then have f: "find (\<lambda>d. Name d = Name c) cs = None"
    unfolding find_None_iff by (metis imageI)
  show ?case using Cons.prems f
    by (cases "Name c = n"; cases "getClusterResource c res")
      (auto simp: Cons.IH cluster_amount_def split: option.splits)
qed simp

definition amount_of :: "string \<Rightarrow> ManagedCluster list \<Rightarrow> string \<Rightarrow> float64 option" where
  "amount_of res cs n = (case find (\<lambda>c. Name c = n) cs of None \<Rightarrow> None | Some c \<Rightarrow> cluster_amount res c)"

lemma amount_of_in: "amount_of res cs n = Some a \<Longrightarrow> \<exists>c \<in> set cs. Name c = n \<and> cluster_amount res c = Some a"
  by (auto simp: amount_of_def find_Some_iff split: option.splits)

lemma amount_of_iff:
  assumes "distinct (map Name cs)"
  shows "amount_of res cs n = Some a \<longleftrightarrow> (\<exists>c \<in> set cs. Name c = n \<and> cluster_amount res c = Some a)"
proof
  assume "\<exists>c \<in> set cs. Name c = n \<and> cluster_amount res c = Some a"
  then obtain c where c: "c \<in> set cs" "Name c = n" "cluster_amount res c = Some a" by blast
  then obtain d where d: "find (\<lambda>c. Name c = n) cs = Some d"
    by (cases "find (\<lambda>c. Name c = n) cs") (auto simp: find_None_iff)
  then have "d \<in> set cs" "Name d = n" by (auto simp: find_Some_iff)
  then have "d = c" using c assms by (metis distinct_map inj_onD)
  then show "amount_of res cs n = Some a" using d c by (simp add: amount_of_def)
qed (rule amount_of_in)

lemma most_scores_eq:
  assumes "distinct (map Name cs)"
    "getClustersMinMaxAllocatableResource cs res = Some (mn, mx)"
  shows "PScores (mostResourceAllocatableScores res cs) n =
    map_option (allocatable_score mn mx) (amount_of res cs n)"
  using foldl_amount_scores [OF assms(1), where res = res and mn = mn and mx = mx and ?m0.0 = Map.empty and n = n]
  by (auto simp: mostResourceAllocatableScores_def assms(2) amount_of_def split: option.splits)

lemma most_scores_none:
  assumes "getClustersMinMaxAllocatableResource cs res = None"
  shows "PScores (mostResourceAllocatableScores res cs) = Map.empty"
  by (simp add: mostResourceAllocatableScores_def assms)

lemma most_scores_dom: "dom (PScores (mostResourceAllocatableScores res cs)) \<subseteq> Name ` set cs"
proof (cases "getClustersMinMaxAllocatableResource cs res")
  case (Some mm)
  have "dom (foldl (\<lambda>scores c. case getClusterResource c res of None \<Rightarrow> scores
       | Some (allocatable, _) \<Rightarrow> scores(Name c \<mapsto> allocatable_score mn mx allocatable)) m0 xs)
      \<subseteq> dom m0 \<union> Name ` set xs" for m0 mn mx and xs :: "ManagedCluster list"
    by (induction xs arbitrary: m0) (fastforce split: option.splits)+
  from this [of _ _ Map.empty cs] show ?thesis
    by (cases mm) (simp add: mostResourceAllocatableScores_def Some)
qed (simp add: most_scores_none)

lemma most_scores_perm:
  assumes "mset cs = mset ds" "distinct (map Name cs)"
  shows "PScores (mostResourceAllocatableScores res cs) = PScores (mostResourceAllocatableScores res ds)"
proof -
  have s: "set cs = set ds" using assms(1) by (metis set_mset_mset)
  have d: "distinct (map Name ds)" using assms by (metis mset_eq_imp_distinct_iff mset_map)
  have a: "amount_of res cs n = amount_of res ds n" for n
    using amount_of_iff [OF assms(2), of res n] amount_of_iff [OF d, of res n] unfolding s
    by (metis option.exhaust)
  show ?thesis
  proof (cases "getClustersMinMaxAllocatableResource cs res")
    case None
    then show ?thesis using min_max_perm [OF s, of res] by (simp add: most_scores_none)
  next
    case (Some mm)
    then show ?thesis using min_max_perm [OF s, of res]
      by (cases mm) (simp add: fun_eq_iff most_scores_eq assms(2) d a)
  qed
qed

interpretation resource: prioritizer_plugin "resource_Score r" for r
proof
  fix e p cs ds and h :: Handle
  show "IsError (Some (snd (resource_Score r e h p cs))) \<Longrightarrow> PScores (fst (resource_Score r e h p cs)) = Map.empty"
    by (simp add: resource_Score_def Let_def split: if_splits)
  show "dom (PScores (fst (resource_Score r e h p cs))) \<subseteq> Name ` set cs"
    using most_scores_dom by (simp add: resource_Score_def Let_def no_score_result_def)
  show "mset cs = mset ds \<Longrightarrow> distinct (map Name cs) \<Longrightarrow>
      PScores (fst (resource_Score r e h p cs)) = PScores (fst (resource_Score r e h p ds))"
    by (simp add: resource_Score_def Let_def most_scores_perm)
  show "mset cs = mset ds \<Longrightarrow> distinct (map Name cs) \<Longrightarrow>
      code (snd (resource_Score r e h p cs)) = code (snd (resource_Score r e h p ds))"
    by (simp add: resource_Score_def Let_def)
qed

section \<open>The range and the order of the scores\<close>

text \<open>The differences of amounts below 2^900 are finite; every quantity an API server stores is far
  below (1E18 with an \<open>int64\<close> amount is below 2^60).\<close>

definition amount_bound :: rat where
  "amount_bound = 2 ^ 900"

definition moderate :: "float64 \<Rightarrow> bool" where
  "moderate a \<longleftrightarrow> (\<exists>x. a = Fin (round53 x) \<and> \<bar>round53 x\<bar> \<le> amount_bound)"

lemma moderateD:
  "moderate (Fin x) \<Longrightarrow> \<bar>x\<bar> \<le> amount_bound"
  "moderate (Fin x) \<Longrightarrow> \<exists>y. x = round53 y"
  "moderate z \<Longrightarrow> \<exists>y. z = Fin y"
  by (auto simp: moderate_def)

lemma round53_grid: "\<exists>m. round53 x = of_int m * 2 powi (- 1074)"
proof -
  have e: "- 1074 \<le> ulp_exp x" by (simp add: ulp_exp_def)
  have "2 powi ulp_exp x = of_int (2 ^ nat (ulp_exp x - (- 1074))) * (2 powi (- 1074) :: rat)"
    unfolding pow2_split [OF e, symmetric] by simp
  then have "round53 x = of_int (rne (x / 2 powi ulp_exp x) * 2 ^ nat (ulp_exp x - (- 1074))) * 2 powi (- 1074)"
    unfolding round53_def by (simp add: mult.assoc)
  then show ?thesis ..
qed

text \<open>Different amounts have a nonzero difference: subtraction does not underflow to zero.\<close>

lemma round53_diff_pos:
  assumes "round53 a < round53 b"
  shows "0 < round53 (round53 b - round53 a)"
proof -
  let ?u = "2 powi (- 1074) :: rat"
  obtain m n where m: "round53 b = of_int m * ?u" and n: "round53 a = of_int n * ?u"
    using round53_grid by blast
  have u: "0 < ?u" by simp
  have "of_int n * ?u < of_int m * ?u" using assms m n by simp
  then have nm: "n < m" using u by (simp only: mult_less_cancel_right_pos of_int_less_iff)
  then have "of_int 1 * ?u \<le> of_int (m - n) * ?u"
    using u by (intro mult_right_mono) (simp_all only: of_int_le_iff)
  also have "of_int (m - n) * ?u = round53 b - round53 a" by (simp only: m n of_int_diff left_diff_distrib)
  finally have "of_int 1 * ?u \<le> round53 (round53 b - round53 a)"
    by (rule round53_ge) simp_all
  then show ?thesis using u by simp
qed

text \<open>The value before truncation.\<close>

definition ratio_value :: "rat \<Rightarrow> rat \<Rightarrow> rat \<Rightarrow> rat" where
  "ratio_value mn mx a = round53 (round53 (round53 (round53 (round53 (a - mn) / round53 (mx - mn)) - 1 / 2) * 2) * 100)"

lemma diff_moderate:
  assumes "\<bar>x\<bar> \<le> amount_bound" "\<bar>y\<bar> \<le> amount_bound"
  shows "fsub (Fin x) (Fin y) = Fin (round53 (x - y))"
proof -
  have "\<bar>x - y\<bar> \<le> 2 ^ 900 + 2 ^ 900" using assms unfolding amount_bound_def by linarith
  also have "\<dots> = (2::rat) ^ 901" by simp
  also have "\<dots> \<le> 2 ^ 1000" by (rule power_increasing) simp_all
  finally have "rnd64 (x - y) = Fin (round53 (x - y))" by (rule rnd64_small)
  then show ?thesis by (simp add: fsub_def)
qed

lemma ratio_range:
  assumes "mn \<le> a" "a \<le> mx" "0 < round53 (mx - mn)"
  shows "0 \<le> round53 (round53 (a - mn) / round53 (mx - mn))"
    and "round53 (round53 (a - mn) / round53 (mx - mn)) \<le> 1"
proof -
  have "0 \<le> round53 (a - mn)" using assms by (intro round53_nonneg) simp
  moreover have "round53 (a - mn) \<le> round53 (mx - mn)" using assms by (intro round53_mono) simp
  ultimately have "0 \<le> round53 (a - mn) / round53 (mx - mn)" "round53 (a - mn) / round53 (mx - mn) \<le> 1"
    using assms(3) by simp_all
  then show "0 \<le> round53 (round53 (a - mn) / round53 (mx - mn))"
    and "round53 (round53 (a - mn) / round53 (mx - mn)) \<le> 1"
    using round53_in_int [of 0 _ 1] by simp_all
qed

lemma ratio_steps:
  assumes "mn \<le> a" "a \<le> mx" "0 < round53 (mx - mn)"
  defines "r \<equiv> round53 (round53 (a - mn) / round53 (mx - mn))"
  shows "- 1 / 2 \<le> round53 (r - 1 / 2)" "round53 (r - 1 / 2) \<le> 1 / 2"
    "- 1 \<le> round53 (round53 (r - 1 / 2) * 2)" "round53 (round53 (r - 1 / 2) * 2) \<le> 1"
    "- 100 \<le> ratio_value mn mx a" "ratio_value mn mx a \<le> 100"
proof -
  have r: "0 \<le> r" "r \<le> 1" unfolding r_def using ratio_range [OF assms(1-3)] by simp_all
  then show h: "- 1 / 2 \<le> round53 (r - 1 / 2)" "round53 (r - 1 / 2) \<le> 1 / 2"
    using round53_in_half [of "- 1" "r - 1 / 2" 1] by simp_all
  then show d: "- 1 \<le> round53 (round53 (r - 1 / 2) * 2)" "round53 (round53 (r - 1 / 2) * 2) \<le> 1"
    using round53_in_int [of "- 1" "round53 (r - 1 / 2) * 2" 1] by simp_all
  then show "- 100 \<le> ratio_value mn mx a" "ratio_value mn mx a \<le> 100"
    unfolding ratio_value_def r_def [symmetric]
    using round53_in_int [of "- 100" "round53 (round53 (r - 1 / 2) * 2) * 100" 100] by simp_all
qed

lemma allocatable_score_value:
  assumes "mn \<le> a" "a \<le> mx" "0 < round53 (mx - mn)"
    "\<bar>a\<bar> \<le> amount_bound" "\<bar>mn\<bar> \<le> amount_bound" "\<bar>mx\<bar> \<le> amount_bound"
  shows "sint (allocatable_score (Fin mn) (Fin mx) (Fin a)) = trunc_rat (ratio_value mn mx a)"
proof -
  let ?r = "round53 (round53 (a - mn) / round53 (mx - mn))"
  note st = ratio_steps [OF assms(1-3)] and rr = ratio_range [OF assms(1-3)]
  have nz: "fnonzero (fsub (Fin mx) (Fin mn))"
    using assms by (simp add: diff_moderate fnonzero_def)
  have div_le: "\<bar>round53 (a - mn) / round53 (mx - mn)\<bar> \<le> of_int 1"
  proof -
    have "0 \<le> round53 (a - mn)" using assms by (intro round53_nonneg) simp
    moreover have "round53 (a - mn) \<le> round53 (mx - mn)" using assms by (intro round53_mono) simp
    ultimately show ?thesis using assms(3) by simp
  qed
  have d: "fdiv (fsub (Fin a) (Fin mn)) (fsub (Fin mx) (Fin mn)) = Fin ?r"
    using assms div_le by (simp add: diff_moderate rnd64_le_bound [where b = 1])
  have small: "rnd64 x = Fin (round53 x)" if "\<bar>x\<bar> \<le> 1000" for x
    using that rnd64_le_bound [of x 1000] by simp
  have s1: "fsub (Fin ?r) (Fin (1 / 2)) = Fin (round53 (?r - 1 / 2))"
    using rr by (simp add: fsub_def small)
  have s2: "fmul (Fin (round53 (?r - 1 / 2))) (Fin 2) = Fin (round53 (round53 (?r - 1 / 2) * 2))"
    using st(1,2) by (simp add: small)
  have s3: "fmul (Fin (round53 (round53 (?r - 1 / 2) * 2))) (Fin 100) = Fin (ratio_value mn mx a)"
    using st(3,4) by (simp add: small ratio_value_def)
  have t: "- 100 \<le> trunc_rat (ratio_value mn mx a)" "trunc_rat (ratio_value mn mx a) \<le> 100"
    using trunc_rat_bounds [of "- 100" "ratio_value mn mx a" 100] st(5,6) by simp_all
  have "allocatable_score (Fin mn) (Fin mx) (Fin a) = word_of_int (trunc_rat (ratio_value mn mx a))"
    unfolding allocatable_score_def if_P [OF nz] Let_def d s1 s2 s3
    by (rule float64_to_int64_small) (use t in simp_all)
  then show ?thesis using t by (simp add: sint_of_int64)
qed

lemma ratio_value_mono:
  assumes "a \<le> b" "0 < round53 (mx - mn)"
  shows "ratio_value mn mx a \<le> ratio_value mn mx b"
  using assms unfolding ratio_value_def
  by (intro round53_mono mult_right_mono diff_right_mono divide_right_mono) simp_all

lemma ratio_value_min: "ratio_value mn mx mn = - 100"
  using round53_half [of "- 1"] round53_int [of "- 1"] round53_int [of "- 100"]
  by (simp add: ratio_value_def)

lemma ratio_value_max: "0 < round53 (mx - mn) \<Longrightarrow> ratio_value mn mx mx = 100"
  using round53_half [of 1] round53_int [of 1] round53_int [of 100]
  by (simp add: ratio_value_def)

definition moderate_amounts :: "string \<Rightarrow> ManagedCluster list \<Rightarrow> bool" where
  "moderate_amounts res cs \<longleftrightarrow> (\<forall>a \<in> set (allocatable_amounts cs res). moderate a)"

lemma finite_amounts [simp]: "finite (set (allocatable_amounts cs res))"
  by simp

text \<open>The least and the greatest amount, for clusters of moderate amounts.\<close>

lemma min_max_moderate:
  assumes "moderate_amounts res cs" "getClustersMinMaxAllocatableResource cs res = Some (a, b)"
  obtains mn mx where "a = Fin mn" "b = Fin mx" "moderate a" "moderate b" "mn \<le> mx"
    "Fin mn \<in> set (allocatable_amounts cs res)" "Fin mx \<in> set (allocatable_amounts cs res)"
    "\<And>x. x \<in> set (allocatable_amounts cs res) \<Longrightarrow> Fin mn \<le> x \<and> x \<le> Fin mx"
proof -
  let ?S = "set (allocatable_amounts cs res)"
  have ne: "?S \<noteq> {}" and a: "a = Min ?S" and b: "b = Max ?S"
    using assms(2) by (auto simp: min_max_eq Let_def split: if_splits)
  have ia: "a \<in> ?S" and ib: "b \<in> ?S" using a b ne by (simp_all add: Min_in Max_in)
  then have m: "moderate a" "moderate b" using assms(1) by (auto simp: moderate_amounts_def)
  obtain mn mx where e: "a = Fin mn" "b = Fin mx" using m by (auto simp: moderate_def)
  have le: "Fin mn \<le> x \<and> x \<le> Fin mx" if "x \<in> ?S" for x
    unfolding e [symmetric] a b using that by simp
  show ?thesis
  proof (rule that)
    show "mn \<le> mx" using le [OF ib] e by simp
    show "Fin mn \<le> x \<and> x \<le> Fin mx" if "x \<in> ?S" for x by (rule le [OF that])
  qed (use e m ia ib in simp_all)
qed

text \<open>The score of an amount between the two.\<close>

lemma moderate_score:
  assumes "moderate (Fin mn)" "moderate (Fin mx)" "moderate (Fin a)" "mn \<le> a" "a \<le> mx"
  shows "mn = mx \<Longrightarrow> allocatable_score (Fin mn) (Fin mx) (Fin a) = 100"
    and "mn < mx \<Longrightarrow> sint (allocatable_score (Fin mn) (Fin mx) (Fin a)) = trunc_rat (ratio_value mn mx a)"
    and "mn < mx \<Longrightarrow> 0 < round53 (mx - mn)"
proof -
  note b = moderateD(1) [OF assms(1)] moderateD(1) [OF assms(2)] moderateD(1) [OF assms(3)]
  show "mn = mx \<Longrightarrow> allocatable_score (Fin mn) (Fin mx) (Fin a) = 100"
    using b by (simp add: allocatable_score_def diff_moderate fnonzero_def)
  show pos: "mn < mx \<Longrightarrow> 0 < round53 (mx - mn)"
    using moderateD(2) [OF assms(1)] moderateD(2) [OF assms(2)] by (auto intro: round53_diff_pos)
  show "mn < mx \<Longrightarrow> sint (allocatable_score (Fin mn) (Fin mx) (Fin a)) = trunc_rat (ratio_value mn mx a)"
    using assms(4,5) pos b by (intro allocatable_score_value)
qed

lemma sint_100: "sint (100 :: int64) = 100"
  by simp

lemma moderate_score_range:
  assumes "moderate (Fin mn)" "moderate (Fin mx)" "moderate (Fin a)" "mn \<le> a" "a \<le> mx"
  shows "in_score_range (allocatable_score (Fin mn) (Fin mx) (Fin a))"
proof (cases "mn = mx")
  case True
  then show ?thesis
    using moderate_score(1) [OF assms] by (simp add: in_score_range_def MinClusterScore_def MaxClusterScore_def)
next
  case False
  then have lt: "mn < mx" using assms by simp
  have "- 100 \<le> trunc_rat (ratio_value mn mx a)" "trunc_rat (ratio_value mn mx a) \<le> 100"
    using trunc_rat_bounds [of "- 100" "ratio_value mn mx a" 100]
      ratio_steps(5,6) [OF assms(4,5) moderate_score(3) [OF assms lt]] by simp_all
  then show ?thesis
    using moderate_score(2) [OF assms lt]
    by (simp add: in_score_range_def MinClusterScore_def MaxClusterScore_def)
qed

lemma moderate_score_mono:
  assumes "moderate (Fin mn)" "moderate (Fin mx)" "moderate (Fin a)" "moderate (Fin b)"
    "mn \<le> a" "a \<le> b" "b \<le> mx"
  shows "sint (allocatable_score (Fin mn) (Fin mx) (Fin a)) \<le> sint (allocatable_score (Fin mn) (Fin mx) (Fin b))"
proof -
  have i: "a \<le> mx" "mn \<le> b" using assms by simp_all
  note ma = moderate_score [OF assms(1-3,5) i(1)] and mb = moderate_score [OF assms(1,2,4) i(2) assms(7)]
  show ?thesis
  proof (cases "mn = mx")
    case True
    then show ?thesis using ma(1) mb(1) by simp
  next
    case False
    then have lt: "mn < mx" using assms by simp
    show ?thesis unfolding ma(2) [OF lt] mb(2) [OF lt]
      by (intro trunc_rat_mono ratio_value_mono assms ma(3) lt)
  qed
qed

lemma moderate_score_extremes:
  assumes "moderate (Fin mn)" "moderate (Fin mx)" "mn < mx"
  shows "allocatable_score (Fin mn) (Fin mx) (Fin mn) = MinClusterScore"
    and "allocatable_score (Fin mn) (Fin mx) (Fin mx) = MaxClusterScore"
proof -
  have le: "mn \<le> mx" using assms by simp
  note lo = moderate_score [OF assms(1,2,1) order.refl le] and hi = moderate_score [OF assms(1,2,2) le order.refl]
  have "sint (allocatable_score (Fin mn) (Fin mx) (Fin mn)) = sint MinClusterScore"
    unfolding lo(2) [OF assms(3)] by (simp add: ratio_value_min MinClusterScore_def trunc_rat_def)
  then show "allocatable_score (Fin mn) (Fin mx) (Fin mn) = MinClusterScore" by (rule signed_word_eqI)
  have "sint (allocatable_score (Fin mn) (Fin mx) (Fin mx)) = sint MaxClusterScore"
    unfolding hi(2) [OF assms(3)] ratio_value_max [OF hi(3) [OF assms(3)]]
    by (simp add: MaxClusterScore_def trunc_rat_def)
  then show "allocatable_score (Fin mn) (Fin mx) (Fin mx) = MaxClusterScore" by (rule signed_word_eqI)
qed

text \<open>A quantity held as an \<open>int64\<close> without scale is moderate.\<close>

lemma moderate_int64: "moderate (AsApproximateFloat64 (Int64Amount v 0))"
proof -
  have "\<bar>of_int (sint v) :: rat\<bar> \<le> of_int (2 ^ 63)"
    using sint_range_size [of v]
    by (simp only: of_int_abs [symmetric] of_int_le_iff) (simp add: word_size abs_le_iff)
  then have r: "rnd64 (of_int (sint v)) = Fin (round53 (of_int (sint v)))"
    and "- of_int (2 ^ 63) \<le> (of_int (sint v) :: rat)" "(of_int (sint v) :: rat) \<le> of_int (2 ^ 63)"
    by (auto intro: rnd64_le_bound [where b = "2 ^ 63"])
  then have "of_int (- 1) * 2 powi 63 \<le> round53 (of_int (sint v))" "round53 (of_int (sint v)) \<le> of_int 1 * 2 powi 63"
    using round53_ge [of "- 1" 63 "of_int (sint v)"] round53_le [of "of_int (sint v)" 1 63] by simp_all
  then have "\<bar>round53 (of_int (sint v) :: rat)\<bar> \<le> 2 ^ 63" by (simp add: abs_le_iff)
  also have "\<dots> \<le> amount_bound" unfolding amount_bound_def by (rule power_increasing) simp_all
  finally show ?thesis using r
    by (auto simp: moderate_def AsApproximateFloat64_def float64_of_int_def)
qed

text \<open>The scores of the plugin under these conditions.\<close>

lemma resource_scores_range:
  assumes "distinct (map Name cs)" "moderate_amounts res cs"
    "PScores (mostResourceAllocatableScores res cs) n = Some v"
  shows "in_score_range v"
proof (cases "getClustersMinMaxAllocatableResource cs res")
  case None
  then show ?thesis using assms(3) by (simp add: most_scores_none)
next
  case (Some mm)
  then obtain a b where mm: "getClustersMinMaxAllocatableResource cs res = Some (a, b)" by (cases mm) auto
  from min_max_moderate [OF assms(2) mm] obtain mn mx where
    m: "a = Fin mn" "b = Fin mx" "moderate a" "moderate b"
      "\<And>x. x \<in> set (allocatable_amounts cs res) \<Longrightarrow> Fin mn \<le> x \<and> x \<le> Fin mx" by metis
  obtain x where x: "amount_of res cs n = Some x" "v = allocatable_score a b x"
    using assms(3) by (auto simp: most_scores_eq [OF assms(1) mm])
  then have "x \<in> set (allocatable_amounts cs res)"
    unfolding set_allocatable_amounts using amount_of_in by blast
  with assms(2) m(5) obtain y where "x = Fin y" "moderate x" "mn \<le> y" "y \<le> mx"
    by (force simp: moderate_amounts_def moderate_def)
  then show ?thesis using x m moderate_score_range by simp
qed

text \<open>The name of a resource prioritizer is read as the scheduler's documentation says:
  \<open>ResourceAllocatableCPU\<close> ranks by the allocatable \<open>cpu\<close>, \<open>ResourceAllocatableMemory\<close> by the
  allocatable \<open>memory\<close>; a name with another number of words has no algorithm, and then no cluster is
  scored.\<close>

theorem parsePrioritizerName_spec:
  "parsePrioritizerName ''ResourceAllocatableCPU'' = (''Allocatable'', ''cpu'') \<and>
   parsePrioritizerName ''ResourceAllocatableMemory'' = (''Allocatable'', ''memory'') \<and>
   (length (find_words name) \<noteq> 3 \<longrightarrow>
      PScores (fst (resource_Score (resource_Build (WithPrioritizerName name NewResourcePrioritizerBuilder)) e h p cs))
        = Map.empty)"
proof (intro conjI impI)
  show "parsePrioritizerName ''ResourceAllocatableCPU'' = (''Allocatable'', ''cpu'')" by code_simp
  show "parsePrioritizerName ''ResourceAllocatableMemory'' = (''Allocatable'', ''memory'')" by code_simp
  assume "length (find_words name) \<noteq> 3"
  then show "PScores (fst (resource_Score (resource_Build (WithPrioritizerName name NewResourcePrioritizerBuilder)) e h p cs))
        = Map.empty"
    by (simp add: resource_Score_def resource_Build_def WithPrioritizerName_def NewResourcePrioritizerBuilder_def
        parsePrioritizerName_def no_score_result_def Let_def)
qed

theorem parsePrioritizerName_spec_witness:
  "PScores (fst (resource_Score (resource_Build (WithPrioritizerName ''Allocatable'' NewResourcePrioritizerBuilder))
      sample_plugin_env (sample_handle [] [] []) (NewPlacement ''ns'' ''p'') [NewManagedCluster ''c1''])) = Map.empty"
proof -
  have "length (find_words ''Allocatable'') \<noteq> 3" by code_simp
  then show ?thesis using parsePrioritizerName_spec by blast
qed

text \<open>C38: the resource score. For clusters whose amounts are finite and moderate, every score is in
  the documented range; a cluster with more of the resource does not score lower than one with less;
  when the amounts differ the clusters with the most score 100 and those with the least -100, and
  when they do not, all score 100. All rounding steps of the \<open>float64\<close> computation are included.\<close>

theorem resource_score_spec:
  assumes "distinct (map Name cs)" "moderate_amounts res cs" "c \<in> set cs" "d \<in> set cs"
    "cluster_amount res c = Some a" "cluster_amount res d = Some b" "a \<le> b"
  defines "score \<equiv> get0 (PScores (mostResourceAllocatableScores res cs))"
  shows "in_score_range (score (Name c)) \<and> sint (score (Name c)) \<le> sint (score (Name d)) \<and>
    (a = b \<longrightarrow> (\<forall>x \<in> set (allocatable_amounts cs res). x = a) \<longrightarrow> score (Name c) = MaxClusterScore) \<and>
    (a \<noteq> b \<longrightarrow> (\<forall>x \<in> set (allocatable_amounts cs res). a \<le> x \<and> x \<le> b) \<longrightarrow>
       score (Name c) = MinClusterScore \<and> score (Name d) = MaxClusterScore)"
proof -
  let ?S = "set (allocatable_amounts cs res)"
  have ia: "a \<in> ?S" and ib: "b \<in> ?S" using assms(3-6) by (auto simp: set_allocatable_amounts)
  then have "allocatable_amounts cs res \<noteq> []" by auto
  then obtain u v where mm: "getClustersMinMaxAllocatableResource cs res = Some (u, v)"
    by (simp add: min_max_eq Let_def)
  from min_max_moderate [OF assms(2) mm] obtain mn mx where m: "u = Fin mn" "v = Fin mx" "moderate u" "moderate v" "mn \<le> mx" "Fin mn \<in> ?S" "Fin mx \<in> ?S"
    and le: "\<And>x. x \<in> ?S \<Longrightarrow> Fin mn \<le> x \<and> x \<le> Fin mx"
    by metis
  have mod: "moderate a" "moderate b" using ia ib assms(2) by (auto simp: moderate_amounts_def)
  obtain a' b' where f: "a = Fin a'" "b = Fin b'" using moderateD(3) mod by meson
  have ab: "mn \<le> a'" "a' \<le> b'" "b' \<le> mx" using le [OF ia] le [OF ib] assms(7) by (simp_all add: f)
  have s: "score (Name c) = allocatable_score u v a" "score (Name d) = allocatable_score u v b"
    using assms(3-6) amount_of_iff [OF assms(1), of res "Name c" a] amount_of_iff [OF assms(1), of res "Name d" b]
    by (auto simp: score_def most_scores_eq [OF assms(1) mm] get0_def)
  have am: "a' \<le> mx" using ab by linarith
  have "in_score_range (score (Name c))"
    using moderate_score_range [of mn mx a'] m mod ab am by (simp add: s f)
  moreover have "sint (score (Name c)) \<le> sint (score (Name d))"
    using moderate_score_mono [of mn mx a' b'] m mod ab by (simp add: s f)
  moreover have "score (Name c) = MaxClusterScore" if "\<forall>x \<in> ?S. x = a"
  proof -
    have "mn = a'" "mx = a'" using that m(6,7) f by auto
    then show ?thesis using moderate_score(1) [of mn mx a'] m mod f
      by (simp add: s MaxClusterScore_def)
  qed
  moreover have "score (Name c) = MinClusterScore \<and> score (Name d) = MaxClusterScore"
    if "a \<noteq> b" "\<forall>x \<in> ?S. a \<le> x \<and> x \<le> b"
  proof -
    have "a' \<le> mn" "mx \<le> b'" using that(2) m(6,7) f by auto
    then have e: "a' = mn" "b' = mx" using ab by linarith+
    then have "mn < mx" using that(1) f ab by auto
    then show ?thesis using moderate_score_extremes [of mn mx] m by (simp add: s f e)
  qed
  ultimately show ?thesis by blast
qed

definition cpu_cluster :: "string \<Rightarrow> int64 \<Rightarrow> ManagedCluster" where
  "cpu_cluster name v = (NewManagedCluster name)\<lparr>Allocatable := [''cpu'' \<mapsto> Int64Amount v 0],
     Capacity := [''cpu'' \<mapsto> Int64Amount v 0]\<rparr>"

theorem resource_score_spec_witness:
  "get0 (PScores (mostResourceAllocatableScores ''cpu'' [cpu_cluster ''c1'' 4, cpu_cluster ''c2'' 8])) ''c1'' = - 100 \<and>
   get0 (PScores (mostResourceAllocatableScores ''cpu'' [cpu_cluster ''c1'' 4, cpu_cluster ''c2'' 8])) ''c2'' = 100"
proof -
  let ?cs = "[cpu_cluster ''c1'' 4, cpu_cluster ''c2'' 8]"
  have n: "Name (cpu_cluster nm v) = nm" for nm v
    by (simp add: cpu_cluster_def builder_defs record_builders)
  have fl: "AsApproximateFloat64 (Int64Amount 4 0) = Fin 4" "AsApproximateFloat64 (Int64Amount 8 0) = Fin 8"
    using round53_int [of 4] round53_int [of 8] rnd64_le_bound [of 4 8] rnd64_le_bound [of 8 8]
    by (simp_all add: AsApproximateFloat64_def float64_of_int_def)
  have am: "cluster_amount ''cpu'' (cpu_cluster nm v) = Some (AsApproximateFloat64 (Int64Amount v 0))" for nm v
    by (simp add: cluster_amount_def getClusterResource_def cpu_cluster_def Let_def)
  have S: "set (allocatable_amounts ?cs ''cpu'') = {Fin 4, Fin 8}"
    by (auto simp: set_allocatable_amounts am fl)
  have "moderate_amounts ''cpu'' ?cs"
    using moderate_int64 [of 4] moderate_int64 [of 8] by (simp add: moderate_amounts_def S fl)
  then show ?thesis
    using resource_score_spec [of ?cs "''cpu''" "cpu_cluster ''c1'' 4" "cpu_cluster ''c2'' 8" "Fin 4" "Fin 8"]
    by (simp add: n am fl S MinClusterScore_def MaxClusterScore_def)
qed

end
