(* ===== verification/Scheduler.thy ===== *)
theory Scheduler
  imports PredicatePlugin TaintToleration Balance Steady AddOn Resource
begin

text \<open>
  \<open>pkg/controllers/scheduling/schedule.go\<close>: the scheduler. The plugins it can use are two
  datatypes, \<open>Filter\<close> and \<open>Prioritizer\<close>, dispatched to their theories (the two Go interfaces).
  A \<open>map[ScoreCoordinate]_\<close> is an association list with distinct keys; the order in which a
  \<open>range\<close> visits it is a function of \<open>SchedEnv\<close>, which may be any permutation. \<open>SchedEnv\<close> also
  holds what the plugins read of the world at each call. A run-time panic is \<open>None\<close>; logging is
  left out.

  \<open>sort.SliceStable\<close> sorts the slice that the last filter returned, in place; that slice is also
  the last filter record (\<open>TaintToleration\<close>, the last filter, returns a slice of its own whenever
  there is something to sort), so the model updates the record with it.
\<close>

section \<open>The plugins\<close>

definition PrioritizerBalance :: string where
  "PrioritizerBalance = ''Balance''"
definition PrioritizerSteady :: string where
  "PrioritizerSteady = ''Steady''"
definition PrioritizerResourceAllocatableCPU :: string where
  "PrioritizerResourceAllocatableCPU = ''ResourceAllocatableCPU''"
definition PrioritizerResourceAllocatableMemory :: string where
  "PrioritizerResourceAllocatableMemory = ''ResourceAllocatableMemory''"

datatype Filter = PredicateFilter | TaintTolerationFilter

datatype Prioritizer = BalancePrioritizer | SteadyPrioritizer
  | ResourcePrioritizer ResourcePrioritizer | AddOnPrioritizer AddOn

fun filter_Name :: "Filter \<Rightarrow> string" where
  "filter_Name PredicateFilter = predicate_Name"
| "filter_Name TaintTolerationFilter = taintToleration_Name"

fun filter_Filter ::
  "Filter \<Rightarrow> PluginEnv \<Rightarrow> Handle \<Rightarrow> Placement \<Rightarrow> ManagedCluster list \<Rightarrow> PluginFilterResult \<times> Status" where
  "filter_Filter PredicateFilter e h p cs = predicate_Filter e h p cs"
| "filter_Filter TaintTolerationFilter e h p cs = taintToleration_Filter e h p cs"

fun filter_RequeueAfter :: "Filter \<Rightarrow> PluginEnv \<Rightarrow> Handle \<Rightarrow> Placement \<Rightarrow> PluginRequeueResult \<times> Status" where
  "filter_RequeueAfter PredicateFilter e h p = predicate_RequeueAfter p"
| "filter_RequeueAfter TaintTolerationFilter e h p = taintToleration_RequeueAfter e h p"

fun prioritizer_Name :: "Prioritizer \<Rightarrow> string" where
  "prioritizer_Name BalancePrioritizer = balance_Name"
| "prioritizer_Name SteadyPrioritizer = steady_Name"
| "prioritizer_Name (ResourcePrioritizer r) = resource_Name r"
| "prioritizer_Name (AddOnPrioritizer a) = addon_Name a"

fun prioritizer_Score ::
  "Prioritizer \<Rightarrow> PluginEnv \<Rightarrow> Handle \<Rightarrow> Placement \<Rightarrow> ManagedCluster list \<Rightarrow> PluginScoreResult \<times> Status" where
  "prioritizer_Score BalancePrioritizer e h p cs = balance_Score e h p cs"
| "prioritizer_Score SteadyPrioritizer e h p cs = steady_Score e h p cs"
| "prioritizer_Score (ResourcePrioritizer r) e h p cs = resource_Score r e h p cs"
| "prioritizer_Score (AddOnPrioritizer a) e h p cs = addon_Score a e h p cs"

fun prioritizer_RequeueAfter :: "Prioritizer \<Rightarrow> Placement \<Rightarrow> PluginRequeueResult \<times> Status" where
  "prioritizer_RequeueAfter BalancePrioritizer p = balance_RequeueAfter p"
| "prioritizer_RequeueAfter SteadyPrioritizer p = steady_RequeueAfter p"
| "prioritizer_RequeueAfter (ResourcePrioritizer r) p = resource_RequeueAfter r p"
| "prioritizer_RequeueAfter (AddOnPrioritizer a) p = addon_RequeueAfter a p"

lemma filter_dispatch:
  "filter_Filter PredicateFilter = predicate_Filter"
  "filter_Filter TaintTolerationFilter = taintToleration_Filter"
  by (intro ext; simp)+

lemma prioritizer_dispatch:
  "prioritizer_Score BalancePrioritizer = balance_Score"
  "prioritizer_Score SteadyPrioritizer = steady_Score"
  "prioritizer_Score (ResourcePrioritizer r) = resource_Score r"
  "prioritizer_Score (AddOnPrioritizer a) = addon_Score a"
  by (intro ext; simp)+

interpretation sched_filter: filter_plugin "filter_Filter f" for f
  by (cases f; simp only: filter_dispatch predicate.filter_plugin_axioms
      taint_toleration.filter_plugin_axioms)

interpretation sched_prioritizer: prioritizer_plugin "prioritizer_Score pr" for pr
  by (cases pr; simp only: prioritizer_dispatch balance.prioritizer_plugin_axioms
      steady.prioritizer_plugin_axioms resource.prioritizer_plugin_axioms addon.prioritizer_plugin_axioms)

section \<open>The result and the environment\<close>

type_synonym PrioritizerScore = "string \<rightharpoonup> int64"

record FilterResult =
  FilterResultName :: string
  FilteredClusters :: "string list"

record PrioritizerResult =
  PrioritizerResultName :: string
  PrioritizerResultWeight :: int32
  PrioritizerResultScores :: PrioritizerScore

record scheduleResult =
  feasibleClusters :: "ManagedCluster list"
  scheduledDecisions :: "ClusterDecision list"
  unscheduledDecisions :: int
  filteredRecords :: "(string \<times> ManagedCluster list) list"
  scoreRecords :: "PrioritizerResult list"
  scoreSum :: PrioritizerScore
  requeueAfter :: "duration option"

type_synonym weights = "(ScoreCoordinate \<times> int32) list"
type_synonym prioritizers = "(ScoreCoordinate \<times> Prioritizer) list"

record SchedEnv =
  FilterEnv :: "Filter \<Rightarrow> PluginEnv"
  ScoreEnv :: "ScoreCoordinate \<Rightarrow> PluginEnv"
  RequeueEnv :: "Filter \<Rightarrow> PluginEnv"
  UntilNow :: go_time
  WeightOrder :: "weights \<Rightarrow> weights"
  ScoreOrder :: "prioritizers \<Rightarrow> prioritizers"
  RequeueOrder :: "prioritizers \<Rightarrow> prioritizers"

definition env_orders :: "SchedEnv \<Rightarrow> bool" where
  "env_orders e \<longleftrightarrow> is_iter (WeightOrder e) \<and> is_iter (ScoreOrder e) \<and> is_iter (RequeueOrder e)"

record pluginScheduler =
  handle :: Handle
  filters :: "Filter list"
  prioritizerWeights :: weights

definition builtin_coordinate :: "string \<Rightarrow> ScoreCoordinate" where
  "builtin_coordinate name =
     \<lparr>CoordType = ScoreCoordinateTypeBuiltIn, CoordBuiltIn = name, CoordAddOn = None\<rparr>"

definition defaultPrioritizerConfig :: weights where
  "defaultPrioritizerConfig =
     [(builtin_coordinate PrioritizerBalance, 1), (builtin_coordinate PrioritizerSteady, 1)]"

definition NewSchedulerHandler ::
  "PlacementDecision NsLister \<Rightarrow> AddOnPlacementScore NsLister \<Rightarrow> ManagedCluster ClLister \<Rightarrow> Handle" where
  "NewSchedulerHandler pdLister sLister cLister =
     \<lparr>DecisionLister = pdLister, ScoreLister = sLister, ClusterLister = cLister\<rparr>"

definition NewPluginScheduler :: "Handle \<Rightarrow> pluginScheduler" where
  "NewPluginScheduler h = \<lparr>handle = h, filters = [PredicateFilter, TaintTolerationFilter],
     prioritizerWeights = defaultPrioritizerConfig\<rparr>"

section \<open>Weights and prioritizers\<close>

definition merge_config :: "weights \<Rightarrow> PrioritizerConfig \<Rightarrow> Status + weights" where
  "merge_config ws c = (case ConfigCoordinate c of
     Some sc \<Rightarrow> Inr (AList.update sc (Weight c) ws)
   | None \<Rightarrow> Inl (NewStatus '''' Misconfigured [''scoreCoordinate field is required'']))"

definition mergeWeights :: "weights \<Rightarrow> PrioritizerConfig list \<Rightarrow> weights \<times> Status" where
  "mergeWeights defaultWeight customizedWeight =
     (let ws = foldl (\<lambda>ws (sc, w). AList.update sc w ws) [] defaultWeight;
          status = NewStatus '''' Success ['''']
      in case for_each merge_config ws customizedWeight of
           Inl st \<Rightarrow> ([], st) | Inr ws' \<Rightarrow> (ws', status))"

definition getWeights :: "weights \<Rightarrow> Placement \<Rightarrow> weights \<times> Status" where
  "getWeights defaultWeight placement =
     (let mode = PolicyMode (Policy (Spec placement)); configs = Configurations (Policy (Spec placement)) in
      if mode = PrioritizerPolicyModeExact then mergeWeights [] configs
      else if mode = PrioritizerPolicyModeAdditive \<or> mode = '''' then mergeWeights defaultWeight configs
      else ([], NewStatus '''' Misconfigured [''incorrect prioritizer policy mode: '' @ mode]))"

text \<open>The prioritizer of a coordinate, or the reason there is none.\<close>

definition make_prioritizer :: "ScoreCoordinate \<Rightarrow> string + Prioritizer" where
  "make_prioritizer k =
     (if CoordType k = ScoreCoordinateTypeBuiltIn then
        (if CoordBuiltIn k = PrioritizerBalance then Inr BalancePrioritizer
         else if CoordBuiltIn k = PrioritizerSteady then Inr SteadyPrioritizer
         else if CoordBuiltIn k = PrioritizerResourceAllocatableCPU \<or>
                 CoordBuiltIn k = PrioritizerResourceAllocatableMemory
         then Inr (ResourcePrioritizer (resource_Build
                (WithPrioritizerName (CoordBuiltIn k) NewResourcePrioritizerBuilder)))
         else Inl (''incorrect builtin prioritizer: '' @ CoordBuiltIn k))
      else case CoordAddOn k of
        None \<Rightarrow> Inl ''addOn should not be empty''
      | Some (ptr, a) \<Rightarrow> Inr (AddOnPrioritizer (addon_Build (WithScoreName (ScoreName a)
            (WithResourceName (ResourceName a) NewAddOnPrioritizerBuilder)))))"

definition prioritizer_step :: "prioritizers \<Rightarrow> ScoreCoordinate \<times> int32 \<Rightarrow> Status + prioritizers" where
  "prioritizer_step result kv = (case kv of (k, v) \<Rightarrow>
     if v = 0 then Inr result
     else case make_prioritizer k of
       Inl msg \<Rightarrow> Inl (NewStatus '''' Misconfigured [msg])
     | Inr p \<Rightarrow> Inr (AList.update k p result))"

definition getPrioritizers :: "SchedEnv \<Rightarrow> weights \<Rightarrow> prioritizers \<times> Status" where
  "getPrioritizers e ws =
     (case for_each prioritizer_step [] (WeightOrder e ws) of
        Inl st \<Rightarrow> ([], st) | Inr result \<Rightarrow> (result, NewStatus '''' Success ['''']))"

section \<open>Schedule\<close>

text \<open>The \<open>switch\<close> after a call that returned a status: the final status is replaced by a
  warning.\<close>

definition note_warning :: "Status \<Rightarrow> Status \<Rightarrow> Status" where
  "note_warning finalStatus status =
     (if Code (Some status) = Warning then status else finalStatus)"

definition empty_result :: scheduleResult where
  "empty_result = \<lparr>feasibleClusters = [], scheduledDecisions = [], unscheduledDecisions = 0,
     filteredRecords = [], scoreRecords = [], scoreSum = Map.empty, requeueAfter = None\<rparr>"

type_synonym failed = "scheduleResult \<times> Status"

definition filter_step ::
  "SchedEnv \<Rightarrow> Handle \<Rightarrow> Placement \<Rightarrow> ManagedCluster list \<times> string list \<times> scheduleResult \<times> Status \<Rightarrow>
     Filter \<Rightarrow> failed + ManagedCluster list \<times> string list \<times> scheduleResult \<times> Status" where
  "filter_step e h placement st f = (case st of (filtered, filterPipline, results, finalStatus) \<Rightarrow>
     (let (filterResult, status) = filter_Filter f (FilterEnv e f) h placement filtered;
          filtered' = Filtered filterResult
      in if IsError (Some status) then Inl (results, status)
         else let filterPipline' = filterPipline @ [filter_Name f]
           in Inr (filtered', filterPipline',
                results\<lparr>filteredRecords :=
                  AList.update (join_sep '','' filterPipline') filtered' (filteredRecords results)\<rparr>,
                note_warning finalStatus status)))"

definition add_scores :: "PrioritizerScore \<Rightarrow> PrioritizerScore \<Rightarrow> int32 \<Rightarrow> PrioritizerScore" where
  "add_scores totals score weight = (\<lambda>name. case score name of
     None \<Rightarrow> totals name | Some val \<Rightarrow> Some (get0 totals name + val * scast weight))"

definition weight_of :: "weights \<Rightarrow> ScoreCoordinate \<Rightarrow> int32" where
  "weight_of ws sc = (case map_of ws sc of None \<Rightarrow> 0 | Some w \<Rightarrow> w)"

definition score_step ::
  "SchedEnv \<Rightarrow> Handle \<Rightarrow> Placement \<Rightarrow> ManagedCluster list \<Rightarrow> weights \<Rightarrow>
     PrioritizerScore \<times> scheduleResult \<times> Status \<Rightarrow> ScoreCoordinate \<times> Prioritizer \<Rightarrow>
     failed + PrioritizerScore \<times> scheduleResult \<times> Status" where
  "score_step e h placement filtered ws st scp =
     (case st of (totals, results, finalStatus) \<Rightarrow> case scp of (sc, p) \<Rightarrow>
      (let (scoreResult, status) = prioritizer_Score p (ScoreEnv e sc) h placement filtered;
           score = PScores scoreResult
       in if IsError (Some status) then Inl (results, status)
          else let weight = weight_of ws sc
            in Inr (add_scores totals score weight,
                 results\<lparr>scoreRecords := scoreRecords results @
                   [\<lparr>PrioritizerResultName = prioritizer_Name p, PrioritizerResultWeight = weight,
                     PrioritizerResultScores = score\<rparr>]\<rparr>,
                 note_warning finalStatus status)))"

definition score_less :: "PrioritizerScore \<Rightarrow> ManagedCluster \<Rightarrow> ManagedCluster \<Rightarrow> bool" where
  "score_less totals ci cj =
     (if get0 totals (Name ci) = get0 totals (Name cj) then Name ci < Name cj
      else sint (get0 totals (Name ci)) > sint (get0 totals (Name cj)))"

text \<open>\<open>clusters[:n]\<close> with a negative bound panics.\<close>

definition selectClusters :: "Placement \<Rightarrow> ManagedCluster list \<Rightarrow> ClusterDecision list option" where
  "selectClusters placement clusters =
     (let numOfDecisions = (case NumberOfClusters (Spec placement) of
            None \<Rightarrow> int (length clusters) | Some n \<Rightarrow> sint n);
          decide = map (\<lambda>c. \<lparr>ClusterName = Name c, DecisionReason = ''''\<rparr>)
      in if numOfDecisions < int (length clusters)
         then (if numOfDecisions < 0 then None else Some (decide (take (nat numOfDecisions) clusters)))
         else Some (decide clusters))"

definition setRequeueAfter :: "duration option \<Rightarrow> duration option \<Rightarrow> duration option" where
  "setRequeueAfter requeue newRequeue = (case newRequeue of
     None \<Rightarrow> requeue
   | Some n \<Rightarrow> (case requeue of
        None \<Rightarrow> newRequeue
      | Some r \<Rightarrow> if sint n < sint r then newRequeue else requeue))"

definition note_requeue :: "go_time \<Rightarrow> duration option \<Rightarrow> PluginRequeueResult \<Rightarrow> duration option" where
  "note_requeue now requeue r = (case RequeueTime r of
     None \<Rightarrow> requeue | Some t \<Rightarrow> setRequeueAfter requeue (Some (time_sub t now)))"

definition requeue_after ::
  "SchedEnv \<Rightarrow> pluginScheduler \<Rightarrow> Placement \<Rightarrow> prioritizers \<Rightarrow> duration option" where
  "requeue_after e s placement prs =
     (let r = foldl (\<lambda>r f. note_requeue (UntilNow e) r
                (fst (filter_RequeueAfter f (RequeueEnv e f) (handle s) placement))) None (filters s)
      in foldl (\<lambda>r (sc, p). note_requeue (UntilNow e) r (fst (prioritizer_RequeueAfter p placement)))
           r (RequeueOrder e prs))"

text \<open>The end of \<open>Schedule\<close>, from the sort on.\<close>

definition finish ::
  "SchedEnv \<Rightarrow> pluginScheduler \<Rightarrow> Placement \<Rightarrow> ManagedCluster list \<Rightarrow> string list \<Rightarrow> prioritizers \<Rightarrow>
     PrioritizerScore \<Rightarrow> scheduleResult \<Rightarrow> scheduleResult option" where
  "finish e s placement filtered filterPipline prs totals results =
     (let sorted_clusters = slice_stable (score_less totals) filtered;
          results = results\<lparr>filteredRecords := (if filterPipline = [] then filteredRecords results
             else AList.update (join_sep '','' filterPipline) sorted_clusters (filteredRecords results)),
            feasibleClusters := sorted_clusters, scoreSum := totals\<rparr>
      in case selectClusters placement sorted_clusters of
           None \<Rightarrow> None
         | Some decisions \<Rightarrow>
            (let scheduled = int (length decisions);
                 unscheduled = (case NumberOfClusters (Spec placement) of
                   None \<Rightarrow> 0 | Some n \<Rightarrow> sint n - scheduled)
             in Some (results\<lparr>scheduledDecisions := decisions, unscheduledDecisions := unscheduled,
                  requeueAfter := requeue_after e s placement prs\<rparr>)))"

definition initial_scores :: "ManagedCluster list \<Rightarrow> PrioritizerScore" where
  "initial_scores filtered = foldl (\<lambda>m c. m(Name c \<mapsto> 0)) Map.empty filtered"

definition Schedule ::
  "SchedEnv \<Rightarrow> pluginScheduler \<Rightarrow> Placement \<Rightarrow> ManagedCluster list \<Rightarrow> (scheduleResult \<times> Status) option" where
  "Schedule e s placement clusters =
     (case for_each (filter_step e (handle s) placement)
             (clusters, [], empty_result, NewStatus '''' Success ['''']) (filters s) of
        Inl failed \<Rightarrow> Some failed
      | Inr (filtered, filterPipline, results, finalStatus) \<Rightarrow>
         (case getWeights (prioritizerWeights s) placement of (ws, status) \<Rightarrow>
          if IsError (Some status) then Some (results, status)
          else let finalStatus = note_warning finalStatus status in
          case getPrioritizers e ws of (prs, status) \<Rightarrow>
          if IsError (Some status) then Some (results, status)
          else let finalStatus = note_warning finalStatus status in
          case for_each (score_step e (handle s) placement filtered ws)
                 (initial_scores filtered, results, finalStatus) (ScoreOrder e prs) of
            Inl failed \<Rightarrow> Some failed
          | Inr (totals, results, finalStatus) \<Rightarrow>
             map_option (\<lambda>r. (r, finalStatus))
               (finish e s placement filtered filterPipline prs totals results)))"

section \<open>The accessors of the result\<close>

text \<open>\<open>order\<close> is the iteration order of the map of filter records.\<close>

definition FilterResults :: "(string list \<Rightarrow> string list) \<Rightarrow> scheduleResult \<Rightarrow> FilterResult list" where
  "FilterResults order r =
     (let filteredRecordsKey = order (map fst (filteredRecords r));
          keys = slice_stable (\<lambda>a b. length a < length b) filteredRecordsKey
      in map (\<lambda>name. \<lparr>FilterResultName = name, FilteredClusters = map Name
            (case map_of (filteredRecords r) name of None \<Rightarrow> [] | Some cs \<Rightarrow> cs)\<rparr>) keys)"

definition PrioritizerResults :: "scheduleResult \<Rightarrow> PrioritizerResult list" where
  "PrioritizerResults r = scoreRecords r"

definition PrioritizerScores :: "scheduleResult \<Rightarrow> PrioritizerScore" where
  "PrioritizerScores r = scoreSum r"

definition sched_Decisions :: "scheduleResult \<Rightarrow> ClusterDecision list" where
  "sched_Decisions r = scheduledDecisions r"

definition NumOfUnscheduled :: "scheduleResult \<Rightarrow> int" where
  "NumOfUnscheduled r = unscheduledDecisions r"

definition sched_RequeueAfter :: "scheduleResult \<Rightarrow> duration option" where
  "sched_RequeueAfter r = requeueAfter r"

end
