(* ===== verification/Controller.thy ===== *)
theory Controller
  imports Scheduler
begin

text \<open>
  \<open>pkg/controllers/scheduling/scheduling_controller.go\<close>: one reconciliation of a placement. The
  listers, the client and the scheduler are fields of the controller, as in the code. The client's
  calls are recorded in a trace, each with its success; a reply of the API server, and what the
  caches of placements and decisions show, may depend on the whole trace, so the server may fail any call
  and the cache may lag behind or not. An error is its text; a run-time panic is \<open>None\<close>. The
  iteration order of a Go map is a field of the environment, as are the clock and the texts of
  values printed with \<open>%v\<close> and \<open>%q\<close>.
\<close>

definition maxNumOfClusterDecisions :: nat where "maxNumOfClusterDecisions = 100"
definition maxEventMessageLength :: nat where "maxEventMessageLength = 1000"

abbreviation ClusterSetLabel :: string where
  "ClusterSetLabel \<equiv> ''cluster.open-cluster-management.io/clusterset''"

section \<open>The world of the controller\<close>

datatype action =
    CreatePD PlacementDecision
  | UpdatePDStatus PlacementDecision
  | DeletePD string string
  | UpdatePlacementStatus Placement
  | Eventf string string string string
  | AddAfter string duration

type_synonym trace = "(action \<times> bool) list"

record clusterClient =
  client_CreatePD :: "trace \<Rightarrow> PlacementDecision \<Rightarrow> api_error + PlacementDecision"
  client_UpdatePDStatus :: "trace \<Rightarrow> PlacementDecision \<Rightarrow> api_error + PlacementDecision"
  client_DeletePD :: "trace \<Rightarrow> string \<Rightarrow> string \<Rightarrow> api_error option"
  client_UpdatePlacementStatus :: "trace \<Rightarrow> Placement \<Rightarrow> api_error option"

record ControllerEnv =
  AvailableOrder :: "ManagedCluster list \<Rightarrow> ManagedCluster list"
  ScoreRange :: "PrioritizerScore \<Rightarrow> (string \<times> int64) list"
  StatusNow :: "string \<Rightarrow> go_time"
  SetErrText :: "selector_error \<Rightarrow> string"
  ShowQ :: "nat \<Rightarrow> string"

record schedulingController =
  client :: clusterClient
  clusterLister :: "ManagedCluster ClLister"
  clusterSetLister :: "ManagedClusterSet ClLister"
  clusterSetBindingLister :: "ManagedClusterSetBinding NsLister"
  placementLister :: "trace \<Rightarrow> Placement NsLister"
  placementDecisionLister :: "trace \<Rightarrow> PlacementDecision NsLister"
  scheduler :: "trace \<Rightarrow> Placement \<Rightarrow> ManagedCluster list \<Rightarrow> (scheduleResult \<times> Status) option"
  cenv :: ControllerEnv

definition event :: "string \<Rightarrow> string \<Rightarrow> string \<Rightarrow> string \<Rightarrow> trace \<Rightarrow> trace" where
  "event etype reason act note tr = tr @ [(Eventf etype reason act note, True)]"

section \<open>Cluster sets (vendored helpers)\<close>

definition BuildClusterSelector :: "ControllerEnv \<Rightarrow> ManagedClusterSet \<Rightarrow> string + Selector" where
  "BuildClusterSelector ce clusterSet =
     (let selectorType = SelectorType clusterSet in
      if selectorType = '''' \<or> selectorType = ''ExclusiveClusterSetLabel''
      then Inr (SelectorFromSet [(ClusterSetLabel, Name clusterSet)])
      else if selectorType = ''LabelSelector''
      then (case LabelSelectorAsSelector (SetLabelSelector clusterSet) of
              Inl er \<Rightarrow> Inl (SetErrText ce er) | Inr sel \<Rightarrow> Inr sel)
      else Inl (''selectorType is not right: '' @ selectorType))"

definition GetClustersFromClusterSet ::
  "ControllerEnv \<Rightarrow> ManagedClusterSet \<Rightarrow> ManagedCluster ClLister \<Rightarrow> string + ManagedCluster list" where
  "GetClustersFromClusterSet ce clusterSet clustersGetter =
     (case BuildClusterSelector ce clusterSet of
        Inl er \<Rightarrow> Inl er
      | Inr clusterSelector \<Rightarrow>
         (case cl_list clustersGetter clusterSelector of
            Inl er \<Rightarrow> Inl (''failed to list ManagedClusters: '' @ api_err_text er)
          | Inr clusters \<Rightarrow> Inr clusters))"

definition sets_of_cluster_step ::
  "ControllerEnv \<Rightarrow> ManagedCluster \<Rightarrow> ManagedClusterSet list \<Rightarrow> ManagedClusterSet \<Rightarrow>
     string + ManagedClusterSet list" where
  "sets_of_cluster_step ce cluster acc clusterSet =
     (case BuildClusterSelector ce clusterSet of
        Inl er \<Rightarrow> Inl er
      | Inr sel \<Rightarrow> Inr (if Matches sel (ObjLabels cluster) then acc @ [clusterSet] else acc))"

definition GetClusterSetsOfCluster ::
  "ControllerEnv \<Rightarrow> ManagedCluster \<Rightarrow> ManagedClusterSet ClLister \<Rightarrow> string + ManagedClusterSet list" where
  "GetClusterSetsOfCluster ce cluster clusterSetsGetter =
     (case cl_list clusterSetsGetter Everything of
        Inl er \<Rightarrow> Inl (api_err_text er)
      | Inr allClusterSets \<Rightarrow> for_each (sets_of_cluster_step ce cluster) [] allClusterSets)"

section \<open>The clusters of a placement\<close>

definition binding_step ::
  "schedulingController \<Rightarrow> ManagedClusterSetBinding list \<Rightarrow> ManagedClusterSetBinding \<Rightarrow>
     string + ManagedClusterSetBinding list" where
  "binding_step c validBindings binding = (case cl_get (clusterSetLister c) (Name binding) of
     Inl er \<Rightarrow> if IsNotFound er then Inr validBindings else Inl (api_err_text er)
   | Inr _ \<Rightarrow> Inr (validBindings @ [binding]))"

definition getValidManagedClusterSetBindings ::
  "schedulingController \<Rightarrow> string \<Rightarrow> string + ManagedClusterSetBinding list" where
  "getValidManagedClusterSetBindings c placementNamespace =
     (case ns_list (clusterSetBindingLister c) placementNamespace Everything of
        Inl er \<Rightarrow> Inl (api_err_text er)
      | Inr bindings \<Rightarrow> for_each (binding_step c) [] bindings)"

definition getEligibleClusterSets :: "Placement \<Rightarrow> ManagedClusterSetBinding list \<Rightarrow> string list" where
  "getEligibleClusterSets placement bindings =
     (let clusterSetNames = sets_insert_all [] (map Name bindings);
          clusterSetNames = (if length (ClusterSets (Spec placement)) \<noteq> 0
            then filter (sets_has (sets_insert_all [] (ClusterSets (Spec placement)))) clusterSetNames
            else clusterSetNames)
      in sets_list clusterSetNames)"

definition available_step ::
  "schedulingController \<Rightarrow> (string \<times> ManagedCluster) list \<Rightarrow> string \<Rightarrow>
     string + (string \<times> ManagedCluster) list" where
  "available_step c availableClusters name = (case cl_get (clusterSetLister c) name of
     Inl er \<Rightarrow> if IsNotFound er then Inr availableClusters else Inl (api_err_text er)
   | Inr clusterSet \<Rightarrow>
      (case GetClustersFromClusterSet (cenv c) clusterSet (clusterLister c) of
         Inl er \<Rightarrow> Inl (''failed to get clusterset: '' @ Name clusterSet @ '', clusters, Error: '' @ er)
       | Inr clusters \<Rightarrow> Inr (foldl (\<lambda>m cl. AList.update (Name cl) cl m) availableClusters clusters)))"

definition getAvailableClusters :: "schedulingController \<Rightarrow> string list \<Rightarrow> string + ManagedCluster list" where
  "getAvailableClusters c clusterSetNames =
     (if length clusterSetNames = 0 then Inr []
      else case for_each (available_step c) [] clusterSetNames of
        Inl er \<Rightarrow> Inl er
      | Inr availableClusters \<Rightarrow>
          if length availableClusters = 0 then Inr []
          else Inr (AvailableOrder (cenv c) (map snd availableClusters)))"

section \<open>Conditions and the status of a placement\<close>

definition condition :: "string \<Rightarrow> string \<Rightarrow> string \<Rightarrow> string \<Rightarrow> Condition" where
  "condition typ status reason message = \<lparr>cond_Type = typ, cond_Status = status, cond_Reason = reason,
     cond_Message = message, ObservedGeneration = 0, LastTransitionTime = zero_time\<rparr>"

definition newSatisfiedCondition ::
  "string list \<Rightarrow> string list \<Rightarrow> nat \<Rightarrow> nat \<Rightarrow> nat \<Rightarrow> int \<Rightarrow> Status \<Rightarrow> Condition" where
  "newSatisfiedCondition clusterSetsInSpec eligibleClusterSets numOfBindings numOfAvailableClusters
       numOfFeasibleClusters numOfUnscheduledDecisions status =
     (let cond = condition PlacementConditionSatisfied in
      if numOfBindings = 0 then cond ConditionFalse ''NoManagedClusterSetBindings''
        ''No valid ManagedClusterSetBindings found in placement namespace''
      else if length eligibleClusterSets = 0 then cond ConditionFalse ''NoIntersection''
        (''None of ManagedClusterSets ['' @ join_sep '','' clusterSetsInSpec @ ''] is bound to placement namespace'')
      else if numOfAvailableClusters = 0 then cond ConditionFalse ''AllManagedClusterSetsEmpty''
        (''All ManagedClusterSets ['' @ join_sep '','' eligibleClusterSets @ ''] have no member ManagedCluster'')
      else if Code (Some status) = Error then cond ConditionFalse ''NotAllDecisionsScheduled''
        (case AsError (Some status) of None \<Rightarrow> '''' | Some msg \<Rightarrow> msg)
      else if numOfFeasibleClusters = 0 then cond ConditionFalse ''NoManagedClusterMatched''
        ''No ManagedCluster matches any of the cluster predicate''
      else if numOfUnscheduledDecisions = 0 then cond ConditionTrue ''AllDecisionsScheduled''
        ''All cluster decisions scheduled''
      else cond ConditionFalse ''NotAllDecisionsScheduled''
        (show_int numOfUnscheduledDecisions @ '' cluster decisions unscheduled''))"

definition newMisconfiguredCondition :: "Status \<Rightarrow> Condition" where
  "newMisconfiguredCondition status =
     (if Code (Some status) = Misconfigured
      then condition PlacementConditionMisconfigured ConditionTrue ''Misconfigured''
        (Plugin status @ '':'' @ Message (Some status))
      else condition PlacementConditionMisconfigured ConditionFalse ''Succeedconfigured''
        ''Placement configurations check pass'')"

text \<open>\<open>meta.SetStatusCondition\<close> (vendored): the first condition of the type is updated in place, its
  transition time only when the status changes; \<open>now\<close> is the clock at the call.\<close>

definition FindStatusCondition :: "Condition list \<Rightarrow> string \<Rightarrow> Condition option" where
  "FindStatusCondition conditions conditionType = find (\<lambda>c. cond_Type c = conditionType) conditions"

definition update_existing :: "go_time \<Rightarrow> Condition \<Rightarrow> Condition \<Rightarrow> Condition" where
  "update_existing now newCondition existing =
     (let existing = (if cond_Status existing \<noteq> cond_Status newCondition
        then existing\<lparr>cond_Status := cond_Status newCondition,
               LastTransitionTime := if LastTransitionTime newCondition \<noteq> zero_time
                 then LastTransitionTime newCondition else now\<rparr>
        else existing)
      in existing\<lparr>cond_Reason := cond_Reason newCondition, cond_Message := cond_Message newCondition,
           ObservedGeneration := ObservedGeneration newCondition\<rparr>)"

fun update_first :: "('a \<Rightarrow> bool) \<Rightarrow> ('a \<Rightarrow> 'a) \<Rightarrow> 'a list \<Rightarrow> 'a list" where
  "update_first P f [] = []"
| "update_first P f (x # xs) = (if P x then f x # xs else x # update_first P f xs)"

definition SetStatusCondition :: "go_time \<Rightarrow> Condition list \<Rightarrow> Condition \<Rightarrow> Condition list" where
  "SetStatusCondition now conditions newCondition =
     (case FindStatusCondition conditions (cond_Type newCondition) of
        None \<Rightarrow> conditions @ [if LastTransitionTime newCondition = zero_time
          then newCondition\<lparr>LastTransitionTime := now\<rparr> else newCondition]
      | Some _ \<Rightarrow> update_first (\<lambda>c. cond_Type c = cond_Type newCondition)
          (update_existing now newCondition) conditions)"

definition new_status :: "ControllerEnv \<Rightarrow> PlacementStatus \<Rightarrow> int32 \<Rightarrow> Condition list \<Rightarrow> PlacementStatus" where
  "new_status ce st numberOfSelectedClusters conditions =
     \<lparr>NumberOfSelectedClusters = numberOfSelectedClusters,
      Conditions = foldl (\<lambda>cs c. SetStatusCondition (StatusNow ce (cond_Type c)) cs c)
        (Conditions st) conditions\<rparr>"

definition updateStatus ::
  "schedulingController \<Rightarrow> Placement \<Rightarrow> int32 \<Rightarrow> Condition list \<Rightarrow> trace \<Rightarrow> string option \<times> trace" where
  "updateStatus c placement numberOfSelectedClusters conditions tr =
     (let newPlacement = placement\<lparr>PStatus :=
        new_status (cenv c) (PStatus placement) numberOfSelectedClusters conditions\<rparr>
      in if PStatus newPlacement = PStatus placement then (None, tr)
      else case client_UpdatePlacementStatus (client c) tr newPlacement of
        None \<Rightarrow> (None, tr @ [(UpdatePlacementStatus newPlacement, True)])
      | Some er \<Rightarrow> (Some (api_err_text er), tr @ [(UpdatePlacementStatus newPlacement, False)]))"

section \<open>Placement decisions\<close>

definition NewControllerRef :: "'m ObjectMeta_scheme \<Rightarrow> string \<Rightarrow> string \<Rightarrow> OwnerReference" where
  "NewControllerRef owner apiVersion kind =
     \<lparr>or_APIVersion = apiVersion, or_Kind = kind, or_Name = Name owner, or_UID = UID owner,
      or_Controller = True, or_BlockOwnerDeletion = True\<rparr>"

definition new_decision :: "Placement \<Rightarrow> string \<Rightarrow> PlacementDecision" where
  "new_decision placement placementDecisionName =
     \<lparr>Name = placementDecisionName, Namespace = Namespace placement, UID = '''',
      ObjLabels = [PlacementLabel \<mapsto> Name placement], Annotations = Map.empty,
      DeletionTimestamp = None, OwnerReferences = [NewControllerRef placement
        ''cluster.open-cluster-management.io/v1beta1'' ''Placement''], Decisions = []\<rparr>"

definition decision_note :: "string \<Rightarrow> string \<Rightarrow> Placement \<Rightarrow> string" where
  "decision_note verb name placement = ''Decision '' @ name @ '' is '' @ verb @ '' with placement '' @
     Name placement @ '' in namespace '' @ Namespace placement"

fun score_text :: "string \<Rightarrow> (string \<times> int64) list \<Rightarrow> string" where
  "score_text scoreStr [] = scoreStr"
| "score_text scoreStr ((k, v) # rest) =
     (let tmpScore = k @ '':'' @ show_int (sint v) @ '' '' in
      if length scoreStr + length tmpScore > maxEventMessageLength then scoreStr @ ''......''
      else score_text (scoreStr @ tmpScore) rest)"

definition get_or_create ::
  "schedulingController \<Rightarrow> Placement \<Rightarrow> string \<Rightarrow> trace \<Rightarrow> (string + PlacementDecision) \<times> trace" where
  "get_or_create c placement placementDecisionName tr =
     (case ns_get (placementDecisionLister c tr) (Namespace placement) placementDecisionName of
        Inr placementDecision \<Rightarrow> (Inr placementDecision, tr)
      | Inl er \<Rightarrow>
          if IsNotFound er then
            let new = new_decision placement placementDecisionName in
            case client_CreatePD (client c) tr new of
              Inl er \<Rightarrow> (Inl (api_err_text er), tr @ [(CreatePD new, False)])
            | Inr placementDecision \<Rightarrow> (Inr placementDecision,
                event ''Normal'' ''DecisionCreate'' ''DecisionCreated''
                  (decision_note ''created'' (Name placementDecision) placement)
                  (tr @ [(CreatePD new, True)]))
          else (Inl (api_err_text er), tr))"

definition update_events ::
  "schedulingController \<Rightarrow> Placement \<Rightarrow> string \<Rightarrow> PrioritizerScore \<Rightarrow> Status \<Rightarrow> trace \<Rightarrow> trace" where
  "update_events c placement name clusterScores status tr =
     (let note = decision_note ''updated'' name placement;
          tr = (if Code (Some status) = Warning
            then event ''Warning'' ''DecisionUpdate'' ''DecisionUpdated''
              (note @ '': '' @ Message (Some status) @ '' in plugin '' @ Plugin status) tr
            else event ''Normal'' ''DecisionUpdate'' ''DecisionUpdated'' note tr)
      in event ''Normal'' ''ScoreUpdate'' ''ScoreUpdated''
           (score_text '''' (ScoreRange (cenv c) clusterScores)) tr)"

definition createOrUpdatePlacementDecision ::
  "schedulingController \<Rightarrow> Placement \<Rightarrow> string \<Rightarrow> ClusterDecision list \<Rightarrow> PrioritizerScore \<Rightarrow> Status \<Rightarrow>
     trace \<Rightarrow> string option \<times> trace" where
  "createOrUpdatePlacementDecision c placement placementDecisionName clusterDecisions clusterScores
       status tr =
     (if length clusterDecisions > maxNumOfClusterDecisions
      then (Some (''the number of clusterdecisions '' @ ShowQ (cenv c) (length clusterDecisions) @
        '' exceeds the max limitation '' @ ShowQ (cenv c) maxNumOfClusterDecisions), tr)
      else case get_or_create c placement placementDecisionName tr of
        (Inl er, tr) \<Rightarrow> (Some er, tr)
      | (Inr placementDecision, tr) \<Rightarrow>
         (if Decisions placementDecision = clusterDecisions then (None, tr)
          else let new = placementDecision\<lparr>Decisions := clusterDecisions\<rparr> in
          case client_UpdatePDStatus (client c) tr new of
            Inl er \<Rightarrow> (Some (api_err_text er), tr @ [(UpdatePDStatus new, False)])
          | Inr _ \<Rightarrow> (None, update_events c placement (Name placementDecision) clusterScores status
              (tr @ [(UpdatePDStatus new, True)]))))"

section \<open>bind\<close>

function split_decisions :: "ClusterDecision list \<Rightarrow> ClusterDecision list list" where
  "split_decisions remaining =
     (if length remaining = 0 then []
      else if length remaining > maxNumOfClusterDecisions
      then take maxNumOfClusterDecisions remaining # split_decisions (drop maxNumOfClusterDecisions remaining)
      else [remaining])"
  by auto
termination
  by (relation "measure length") (auto simp: maxNumOfClusterDecisions_def)

declare split_decisions.simps [simp del]

definition decision_slices :: "ClusterDecision list \<Rightarrow> ClusterDecision list list" where
  "decision_slices clusterDecisions =
     (let decisionSlices = split_decisions clusterDecisions
      in if length decisionSlices = 0 then [[]] else decisionSlices)"

definition decision_name :: "string \<Rightarrow> nat \<Rightarrow> string" where
  "decision_name placementName i = placementName @ ''-decision-'' @ show_nat i"

definition bind_slice ::
  "schedulingController \<Rightarrow> Placement \<Rightarrow> PrioritizerScore \<Rightarrow> Status \<Rightarrow>
     string list \<times> string list \<times> trace \<Rightarrow> nat \<times> ClusterDecision list \<Rightarrow> string list \<times> string list \<times> trace" where
  "bind_slice c placement clusterScores status = (\<lambda>(errs, names, tr) (index, decisionSlice).
     let name = decision_name (Name placement) (index + 1) in
     case createOrUpdatePlacementDecision c placement name decisionSlice clusterScores status tr of
       (er, tr) \<Rightarrow> (case er of None \<Rightarrow> errs | Some e \<Rightarrow> errs @ [e], sets_insert names name, tr))"

definition delete_redundant ::
  "schedulingController \<Rightarrow> Placement \<Rightarrow> string list \<Rightarrow> string list \<times> trace \<Rightarrow> PlacementDecision \<Rightarrow>
     string list \<times> trace" where
  "delete_redundant c placement names = (\<lambda>(errs, tr) pd.
     if sets_has names (Name pd) then (errs, tr)
     else case client_DeletePD (client c) tr (Namespace pd) (Name pd) of
       None \<Rightarrow> (errs, event ''Normal'' ''DecisionDelete'' ''DecisionDeleted''
         (decision_note ''deleted'' (Name pd) placement) (tr @ [(DeletePD (Namespace pd) (Name pd), True)]))
     | Some er \<Rightarrow>
         let tr = tr @ [(DeletePD (Namespace pd) (Name pd), False)] in
         if IsNotFound er then (errs, tr)
         else (errs @ [api_err_text er], event ''Normal'' ''DecisionDelete'' ''DecisionDeleted''
           (decision_note ''deleted'' (Name pd) placement) tr))"

text \<open>The text of an aggregate of errors; none when there are no errors.\<close>

definition NewMultiLineAggregate :: "string list \<Rightarrow> string option" where
  "NewMultiLineAggregate errList = (if length errList = 0 then None else Some (join_sep [CHR 0x0A] errList))"

definition name_less :: "ClusterDecision \<Rightarrow> ClusterDecision \<Rightarrow> bool" where
  "name_less a b \<longleftrightarrow> ClusterName a < ClusterName b"

definition bind ::
  "schedulingController \<Rightarrow> Placement \<Rightarrow> ClusterDecision list \<Rightarrow> PrioritizerScore \<Rightarrow> Status \<Rightarrow> trace \<Rightarrow>
     string option \<times> trace" where
  "bind c placement clusterDecisions clusterScores status tr =
     (let clusterDecisions = slice_stable name_less clusterDecisions;
          decisionSlices = decision_slices clusterDecisions
      in case foldl (bind_slice c placement clusterScores status) ([], [], tr) (enumerate 0 decisionSlices) of
        (errs, names, tr) \<Rightarrow>
          if length errs \<noteq> 0 then (NewMultiLineAggregate errs, tr)
          else case equals_selector PlacementLabel (Name placement) of
            Inl er \<Rightarrow> (Some (SetErrText (cenv c) er), tr)
          | Inr sel \<Rightarrow>
             (case ns_list (placementDecisionLister c tr) (Namespace placement) sel of
                Inl er \<Rightarrow> (Some (api_err_text er), tr)
              | Inr placementDecisions \<Rightarrow>
                 (case foldl (delete_redundant c placement names) ([], tr) placementDecisions of
                    (errs, tr) \<Rightarrow> (NewMultiLineAggregate errs, tr))))"

section \<open>sync\<close>

definition requeue :: "Placement \<Rightarrow> duration option \<Rightarrow> trace \<Rightarrow> trace" where
  "requeue placement t tr = (case t of None \<Rightarrow> tr
     | Some d \<Rightarrow> tr @ [(AddAfter (MetaNamespaceKey placement) d, True)])"

definition disabled :: "Placement \<Rightarrow> bool" where
  "disabled placement \<longleftrightarrow> Annotations placement PlacementDisableAnnotation = Some ''true''"

definition syncPlacement ::
  "schedulingController \<Rightarrow> Placement \<Rightarrow> trace \<Rightarrow> (string option \<times> trace) option" where
  "syncPlacement c placement tr =
     (if \<not> time_is_zero (DeletionTimestamp placement) then Some (None, tr)
      else if disabled placement then Some (None, tr)
      else case getValidManagedClusterSetBindings c (Namespace placement) of
        Inl er \<Rightarrow> Some (Some er, tr)
      | Inr bindings \<Rightarrow>
      let clusterSetNames = getEligibleClusterSets placement bindings in
      case getAvailableClusters c clusterSetNames of
        Inl er \<Rightarrow> Some (Some er, tr)
      | Inr clusters \<Rightarrow>
      case scheduler c tr placement clusters of
        None \<Rightarrow> None
      | Some (scheduleResult, status) \<Rightarrow>
      let misconfiguredCondition = newMisconfiguredCondition status;
          satisfiedCondition = newSatisfiedCondition (ClusterSets (Spec placement)) clusterSetNames
            (length bindings) (length clusters) (length (sched_Decisions scheduleResult))
            (NumOfUnscheduled scheduleResult) status;
          tr = requeue placement (sched_RequeueAfter scheduleResult) tr
      in case bind c placement (sched_Decisions scheduleResult) (PrioritizerScores scheduleResult) status tr of
        (Some er, tr) \<Rightarrow> Some (Some er, tr)
      | (None, tr) \<Rightarrow>
      case updateStatus c placement (word_of_nat (length (sched_Decisions scheduleResult)))
             [misconfiguredCondition, satisfiedCondition] tr of
        (Some er, tr) \<Rightarrow> Some (Some er, tr)
      | (None, tr) \<Rightarrow> Some (AsError (Some status), tr))"

text \<open>A key that is not \<open>namespace/name\<close> gives no placement and no error.\<close>

definition getPlacement :: "schedulingController \<Rightarrow> string \<Rightarrow> trace \<Rightarrow> api_error + Placement option" where
  "getPlacement c queueKey tr = (case SplitMetaNamespaceKey queueKey of
     None \<Rightarrow> Inr None
   | Some (namespace, name) \<Rightarrow>
      (case ns_get (placementLister c tr) namespace name of Inl er \<Rightarrow> Inl er | Inr p \<Rightarrow> Inr (Some p)))"

definition sync :: "schedulingController \<Rightarrow> string \<Rightarrow> trace \<Rightarrow> (string option \<times> trace) option" where
  "sync c queueKey tr = (case getPlacement c queueKey tr of
     Inl er \<Rightarrow> if IsNotFound er then Some (None, tr) else Some (Some (api_err_text er), tr)
   | Inr None \<Rightarrow> None
   | Inr (Some placement) \<Rightarrow> syncPlacement c placement tr)"

section \<open>The queue keys of the informers\<close>

definition placement_queue_key :: "Placement \<Rightarrow> string" where
  "placement_queue_key obj = MetaNamespaceKey obj"

definition decision_queue_key :: "PlacementDecision \<Rightarrow> string" where
  "decision_queue_key obj = Namespace obj @ [slash] @
     (case ObjLabels obj PlacementLabel of None \<Rightarrow> '''' | Some placementName \<Rightarrow> placementName)"

definition decision_filter :: "PlacementDecision \<Rightarrow> bool" where
  "decision_filter obj \<longleftrightarrow> ObjLabels obj PlacementLabel \<noteq> None"

end
