(* ===== verification/ControllerFacts.thy ===== *)
theory ControllerFacts
  imports Controller
begin

text \<open>
  What the parts of a reconciliation compute: the slices of the decisions and their names, the
  clusters that are available to a placement, and the conditions of its status.
\<close>

section \<open>Slices\<close>

lemma split_decisions_simps:
  "split_decisions [] = []"
  "xs \<noteq> [] \<Longrightarrow> length xs \<le> 100 \<Longrightarrow> split_decisions xs = [xs]"
  "100 < length xs \<Longrightarrow> split_decisions xs = take 100 xs # split_decisions (drop 100 xs)"
  using split_decisions.simps [of xs] split_decisions.simps [of "[]"]
  by (auto simp: maxNumOfClusterDecisions_def)

lemma split_decisions_induct [case_names Nil Last More]:
  fixes P :: "ClusterDecision list \<Rightarrow> bool"
  assumes "P []" "\<And>xs. xs \<noteq> [] \<Longrightarrow> length xs \<le> 100 \<Longrightarrow> P xs"
    "\<And>xs. 100 < length xs \<Longrightarrow> P (drop 100 xs) \<Longrightarrow> P xs"
  shows "P xs"
proof (induction xs rule: split_decisions.induct)
  case (1 remaining)
  then show ?case
    using assms by (cases "remaining = []"; cases "100 < length remaining")
      (auto simp: maxNumOfClusterDecisions_def not_less)
qed

lemma concat_split_decisions: "concat (split_decisions xs) = xs"
  by (induction xs rule: split_decisions_induct) (simp_all add: split_decisions_simps)

lemma split_decisions_bounds: "s \<in> set (split_decisions xs) \<Longrightarrow> 0 < length s \<and> length s \<le> 100"
  by (induction xs rule: split_decisions_induct) (auto simp: split_decisions_simps)

lemma split_decisions_empty_iff: "split_decisions xs = [] \<longleftrightarrow> xs = []"
  by (induction xs rule: split_decisions_induct) (auto simp: split_decisions_simps)

lemma length_split_decisions: "length (split_decisions xs) = (length xs + 99) div 100"
proof (induction xs rule: split_decisions_induct)
  case (Last xs)
  then have "0 < length xs" "length xs \<le> 100" by simp_all
  then have "(length xs + 99) div 100 = 1"
    by (intro div_nat_eqI) (simp_all add: Suc_le_eq)
  then show ?case using Last by (simp add: split_decisions_simps)
next
  case (More xs)
  then have "(length xs + 99) div 100 = Suc ((length (drop 100 xs) + 99) div 100)"
    by (simp add: le_div_geq)
  then show ?case using More by (simp add: split_decisions_simps)
qed (simp add: split_decisions_simps)

lemma split_decisions_nth:
  "i < length (split_decisions xs) \<Longrightarrow> split_decisions xs ! i = take 100 (drop (100 * i) xs)"
proof (induction xs arbitrary: i rule: split_decisions_induct)
  case (More xs)
  then show ?case by (cases i) (auto simp: split_decisions_simps add.commute)
qed (simp_all add: split_decisions_simps)

lemma concat_decision_slices [simp]: "concat (decision_slices xs) = xs"
  using concat_split_decisions [of xs]
  by (simp add: decision_slices_def Let_def split_decisions_empty_iff)

lemma decision_slices_nonempty [simp]: "decision_slices xs \<noteq> []"
  by (simp add: decision_slices_def Let_def)

lemma decision_slices_bound: "s \<in> set (decision_slices xs) \<Longrightarrow> length s \<le> 100"
  using split_decisions_bounds [of s xs] by (auto simp: decision_slices_def Let_def split: if_splits)

lemma length_decision_slices: "length (decision_slices xs) = max 1 ((length xs + 99) div 100)"
proof (cases "split_decisions xs = []")
  case True
  then have "xs = []" by (simp add: split_decisions_empty_iff)
  then show ?thesis by (simp add: decision_slices_def split_decisions_simps)
next
  case False
  then have "1 \<le> length (split_decisions xs)" by (cases "split_decisions xs") simp_all
  then show ?thesis using False length_split_decisions [of xs]
    by (simp add: decision_slices_def Let_def)
qed

lemma decision_slices_nth:
  "i < length (decision_slices xs) \<Longrightarrow> decision_slices xs ! i = take 100 (drop (100 * i) xs)"
  using split_decisions_nth [of i xs]
  by (auto simp: decision_slices_def Let_def split_decisions_empty_iff split: if_splits)

lemma name_sorted: "slice_stable name_less ds = sort_key ClusterName ds"
  by (rule slice_stable_key) (simp add: name_less_def)

section \<open>Names of PlacementDecisions\<close>

lemma show_nat_digits: "set (show_nat n) \<subseteq> digit_char ` {0..<10}"
proof (induction n rule: less_induct)
  case (less n)
  show ?case
    using less.IH [of "n div 10"] by (subst show_nat.simps) (auto intro: imageI)
qed

lemma hyphen_not_digit: "CHR ''-'' \<notin> set (show_nat n)"
proof -
  have "d < 10 \<Longrightarrow> digit_char d \<noteq> CHR ''-''" for d
  proof
    assume d: "d < 10" "digit_char d = CHR ''-''"
    then have "(of_char (digit_char d) :: nat) = of_char CHR ''-''" by simp
    with d(1) show False by (simp add: digit_char_def)
  qed
  then show ?thesis using show_nat_digits [of n] by force
qed

lemma last_separator:
  fixes c :: char
  assumes "c \<notin> set s" "c \<notin> set t"
  shows "p @ c # s = q @ c # t \<longleftrightarrow> p = q \<and> s = t"
proof
  assume "p @ c # s = q @ c # t"
  then have "rev (p @ c # s) = rev (q @ c # t)" by simp
  then have "rev s @ c # rev p = rev t @ c # rev q" by simp
  then have "rev s = rev t \<and> rev p = rev q"
    using assms split_on_append [of c "rev s" "rev p"] split_on_append [of c "rev t" "rev q"]
    by (metis list.inject same_append_eq set_rev)
  then show "p = q \<and> s = t" by simp
qed simp

text \<open>The name tells the placement and the number.\<close>

lemma decision_name_inj [simp]: "decision_name p i = decision_name q j \<longleftrightarrow> p = q \<and> i = j"
proof -
  have e: "decision_name p i = (p @ ''-decision'') @ CHR ''-'' # show_nat i" for p i
    by (simp add: decision_name_def)
  have "decision_name p i = decision_name q j \<longleftrightarrow>
      p @ ''-decision'' = q @ ''-decision'' \<and> show_nat i = show_nat j"
    unfolding e by (rule last_separator) (rule hyphen_not_digit)+
  then show ?thesis by simp
qed

lemma slash_not_digit: "slash \<notin> set (show_nat n)"
proof -
  have "digit_char d \<noteq> slash" if "d < 10" for d
  proof
    assume "digit_char d = slash"
    then have "(of_char (digit_char d) :: nat) = of_char slash" by simp
    with that show False by (simp add: digit_char_def slash_def)
  qed
  then show ?thesis using show_nat_digits [of n] by force
qed

lemma slash_decision_name [simp]: "slash \<in> set (decision_name p i) \<longleftrightarrow> slash \<in> set p"
  using slash_not_digit [of i] by (auto simp: decision_name_def slash_def)

section \<open>The clusters available to a placement\<close>

text \<open>The selector of a cluster set that has one: by label of the set, or the set's own.\<close>

definition set_matches :: "ManagedClusterSet \<Rightarrow> ManagedCluster \<Rightarrow> bool" where
  "set_matches s cl \<longleftrightarrow>
     (if SelectorType s = '''' \<or> SelectorType s = ''ExclusiveClusterSetLabel''
      then ObjLabels cl ClusterSetLabel = Some (Name s)
      else SelectorType s = ''LabelSelector'' \<and>
        (\<exists>sel. LabelSelectorAsSelector (SetLabelSelector s) = Inr sel \<and> Matches sel (ObjLabels cl)))"

definition valid_set :: "ManagedClusterSet \<Rightarrow> bool" where
  "valid_set s \<longleftrightarrow> SelectorType s \<in> {'''', ''ExclusiveClusterSetLabel''} \<or>
     SelectorType s = ''LabelSelector'' \<and> \<not> isl (LabelSelectorAsSelector (SetLabelSelector s))"

lemma BuildClusterSelector_Inr:
  "BuildClusterSelector ce s = Inr sel \<Longrightarrow> Matches sel (ObjLabels cl) \<longleftrightarrow> set_matches s cl"
  by (auto simp: BuildClusterSelector_def set_matches_def Let_def split: if_splits sum.splits)

lemma BuildClusterSelector_valid: "isl (BuildClusterSelector ce s) \<longleftrightarrow> \<not> valid_set s"
  by (auto simp: BuildClusterSelector_def valid_set_def Let_def split: if_splits sum.splits)

lemma GetClusterSetsOfCluster_spec:
  assumes "clusterSetsGetter = cache_cl_lister r sets"
  shows "GetClusterSetsOfCluster ce cl clusterSetsGetter =
      (if list_all valid_set sets then Inr (filter (\<lambda>s. set_matches s cl) sets)
       else Inl (projl (GetClusterSetsOfCluster ce cl clusterSetsGetter)))"
proof (cases "list_all valid_set sets")
  case True
  then have "for_each (sets_of_cluster_step ce cl) acc sets =
      Inr (acc @ filter (\<lambda>s. set_matches s cl) sets)" for acc
  proof (induction sets arbitrary: acc)
    case (Cons s sets)
    then obtain sel where b: "BuildClusterSelector ce s = Inr sel"
      using BuildClusterSelector_valid [of ce s] by (cases "BuildClusterSelector ce s") auto
    then show ?case using Cons BuildClusterSelector_Inr [OF b]
      by (simp add: sets_of_cluster_step_def)
  qed simp
  then show ?thesis using True assms by (simp add: GetClusterSetsOfCluster_def ListAll_eq)
next
  case False
  have "isl (for_each (sets_of_cluster_step ce cl) [] sets) \<longleftrightarrow> (\<exists>s \<in> set sets. \<not> valid_set s)"
    by (rule for_each_isl)
      (simp add: sets_of_cluster_step_def BuildClusterSelector_valid [symmetric, of _ ce] split: sum.split)
  then have "isl (for_each (sets_of_cluster_step ce cl) [] sets)"
    using False by (auto simp: list_all_iff)
  then show ?thesis using False assms by (simp add: GetClusterSetsOfCluster_def ListAll_eq)
qed

abbreviation by_name :: "ManagedCluster list \<Rightarrow> (string \<times> ManagedCluster) list" where
  "by_name cls \<equiv> map (\<lambda>cl. (Name cl, cl)) cls"

lemma update_by_name:
  "inj_on Name (insert cl (set cls)) \<Longrightarrow>
     AList.update (Name cl) cl (by_name cls) = by_name (if cl \<in> set cls then cls else cls @ [cl])"
proof (induction cls)
  case (Cons d cls)
  have "inj_on Name (insert cl (set cls))" by (rule inj_on_subset [OF Cons.prems]) auto
  moreover have "Name d = Name cl \<longleftrightarrow> d = cl"
    using inj_onD [OF Cons.prems, of d cl] by auto
  ultimately show ?case using Cons.IH by auto
qed simp

lemma foldl_by_name:
  assumes "inj_on Name A" "set cls \<subseteq> A" "set xs \<subseteq> A" "distinct cls"
  shows "\<exists>cls'. foldl (\<lambda>m cl. AList.update (Name cl) cl m) (by_name cls) xs = by_name cls' \<and>
    distinct cls' \<and> set cls' = set cls \<union> set xs"
  using assms
proof (induction xs arbitrary: cls)
  case (Cons x xs)
  let ?cls = "if x \<in> set cls then cls else cls @ [x]"
  have "inj_on Name (insert x (set cls))" by (rule inj_on_subset [OF Cons.prems(1)]) (use Cons.prems in auto)
  then have "AList.update (Name x) x (by_name cls) = by_name ?cls" by (rule update_by_name)
  moreover have "\<exists>cls'. foldl (\<lambda>m cl. AList.update (Name cl) cl m) (by_name ?cls) xs = by_name cls' \<and>
      distinct cls' \<and> set cls' = set ?cls \<union> set xs"
    by (rule Cons.IH) (use Cons.prems in auto)
  ultimately show ?case by (auto split: if_splits)
qed auto

text \<open>A controller whose listers are caches of clusters, sets and bindings.\<close>

definition cached ::
  "schedulingController \<Rightarrow> ManagedCluster list \<Rightarrow> ManagedClusterSet list \<Rightarrow> ManagedClusterSetBinding list \<Rightarrow> bool" where
  "cached c clusters sets bindings \<longleftrightarrow>
     clusterLister c = cache_cl_lister ''managedclusters'' clusters \<and> wf_cl_items clusters \<and>
     clusterSetLister c = cache_cl_lister ''managedclustersets'' sets \<and> wf_cl_items sets \<and>
     clusterSetBindingLister c = cache_ns_lister ''managedclustersetbindings'' bindings \<and>
     is_iter (AvailableOrder (cenv c))"

lemma wf_cl_items_inj: "wf_cl_items xs \<Longrightarrow> inj_on Name (set xs)"
  by (simp add: wf_cl_items_def distinct_map)

lemma binding_step_cached:
  assumes "cached c clusters sets bindings"
  shows "binding_step c acc b = Inr (if Name b \<in> Name ` set sets then acc @ [b] else acc)"
proof (cases "Name b \<in> Name ` set sets")
  case True
  then obtain s where "s \<in> set sets" "Name s = Name b" by force
  then have "cl_get (cache_cl_lister ''managedclustersets'' sets) (Name b) = Inr s"
    using cache_cl_get [of sets s] assms by (simp add: cached_def)
  then show ?thesis using assms True by (simp add: binding_step_def cached_def)
next
  case False
  then have "cl_get (cache_cl_lister ''managedclustersets'' sets) (Name b) =
      Inl (NewNotFound ''managedclustersets'' (Name b))"
    using cache_cl_get_missing assms by (auto simp: cached_def)
  then show ?thesis using assms False by (simp add: binding_step_def cached_def)
qed

lemma getValidManagedClusterSetBindings_cached:
  assumes "cached c clusters sets bindings" "ns \<noteq> []"
  shows "getValidManagedClusterSetBindings c ns =
    Inr (filter (\<lambda>b. Namespace b = ns \<and> Name b \<in> Name ` set sets) bindings)"
proof -
  have "for_each (binding_step c) acc bs = Inr (acc @ filter (\<lambda>b. Name b \<in> Name ` set sets) bs)" for acc bs
    by (induction bs arbitrary: acc) (auto simp: binding_step_cached [OF assms(1)])
  then show ?thesis using assms
    by (simp add: getValidManagedClusterSetBindings_def cached_def ListAllByNamespace_eq)
qed

lemma set_getEligibleClusterSets:
  "set (getEligibleClusterSets p bindings) =
     {n \<in> Name ` set bindings. ClusterSets (Spec p) = [] \<or> n \<in> set (ClusterSets (Spec p))}"
  by (auto simp: getEligibleClusterSets_def Let_def sets_list_def)

lemma getEligibleClusterSets_sorted:
  "sorted (getEligibleClusterSets p bindings) \<and> distinct (getEligibleClusterSets p bindings)"
  by (simp add: getEligibleClusterSets_def Let_def sets_list_def)

definition in_set_named :: "ManagedClusterSet list \<Rightarrow> string \<Rightarrow> ManagedCluster \<Rightarrow> bool" where
  "in_set_named sets n cl \<longleftrightarrow> (\<exists>s \<in> set sets. Name s = n \<and> set_matches s cl)"

lemma available_step_cached:
  assumes c: "cached c clusters sets bindings" and v: "\<forall>s \<in> set sets. Name s = n \<longrightarrow> valid_set s"
    and cls: "set cls \<subseteq> set clusters" "distinct cls"
  shows "\<exists>cls'. available_step c (by_name cls) n = Inr (by_name cls') \<and> distinct cls' \<and>
    set cls' = set cls \<union> {cl \<in> set clusters. in_set_named sets n cl}"
proof (cases "n \<in> Name ` set sets")
  case True
  then obtain s where s: "s \<in> set sets" "Name s = n" by auto
  then have g: "cl_get (clusterSetLister c) n = Inr s" using c cache_cl_get [of sets s]
    by (simp add: cached_def)
  obtain sel where b: "BuildClusterSelector (cenv c) s = Inr sel"
    using BuildClusterSelector_valid [of "cenv c" s] v s by (cases "BuildClusterSelector (cenv c) s") auto
  let ?xs = "filter (\<lambda>cl. set_matches s cl) clusters"
  have "GetClustersFromClusterSet (cenv c) s (clusterLister c) = Inr ?xs"
    using c b BuildClusterSelector_Inr [OF b]
    by (simp add: GetClustersFromClusterSet_def cached_def ListAll_eq)
  then have step: "available_step c (by_name cls) n =
      Inr (foldl (\<lambda>m cl. AList.update (Name cl) cl m) (by_name cls) ?xs)"
    by (simp add: available_step_def g)
  have "in_set_named sets n cl \<longleftrightarrow> set_matches s cl" for cl
    using s c inj_onD [OF wf_cl_items_inj [of sets]] by (auto simp: in_set_named_def cached_def)
  moreover have "inj_on Name (set clusters)" using c by (simp add: cached_def wf_cl_items_inj)
  ultimately show ?thesis
    using foldl_by_name [of "set clusters" cls ?xs] cls unfolding step by auto
next
  case False
  then have "cl_get (clusterSetLister c) n = Inl (NewNotFound ''managedclustersets'' n)"
    using c cache_cl_get_missing by (auto simp: cached_def)
  moreover have "\<not> in_set_named sets n cl" for cl using False by (auto simp: in_set_named_def)
  ultimately show ?thesis using cls by (auto simp: available_step_def)
qed

lemma available_loop:
  assumes c: "cached c clusters sets bindings"
    and v: "\<forall>s \<in> set sets. Name s \<in> set ns \<longrightarrow> valid_set s"
    and cls: "set cls \<subseteq> set clusters" "distinct cls"
  shows "\<exists>cls'. for_each (available_step c) (by_name cls) ns = Inr (by_name cls') \<and> distinct cls' \<and>
    set cls' = set cls \<union> {cl \<in> set clusters. \<exists>n \<in> set ns. in_set_named sets n cl}"
  using v cls
proof (induction ns arbitrary: cls)
  case (Cons n ns)
  then have "\<forall>s \<in> set sets. Name s = n \<longrightarrow> valid_set s" by simp
  from available_step_cached [OF c this Cons.prems(2,3)] obtain cls1 where
    1: "available_step c (by_name cls) n = Inr (by_name cls1)" "distinct cls1"
       "set cls1 = set cls \<union> {cl \<in> set clusters. in_set_named sets n cl}" by blast
  have "set cls1 \<subseteq> set clusters" using 1(3) Cons.prems(2) by auto
  from Cons.IH [OF _ this 1(2)] Cons.prems(1) obtain cls' where
    2: "for_each (available_step c) (by_name cls1) ns = Inr (by_name cls')" "distinct cls'"
       "set cls' = set cls1 \<union> {cl \<in> set clusters. \<exists>n \<in> set ns. in_set_named sets n cl}" by auto
  show ?case using 1 2 by (intro exI [of _ cls']) auto
qed auto

lemma getAvailableClusters_cached:
  assumes c: "cached c clusters sets bindings"
    and v: "\<forall>s \<in> set sets. Name s \<in> set ns \<longrightarrow> valid_set s"
  shows "\<exists>cls. getAvailableClusters c ns = Inr cls \<and> distinct (map Name cls) \<and>
    set cls = {cl \<in> set clusters. \<exists>n \<in> set ns. in_set_named sets n cl}"
proof -
  obtain cls where l: "for_each (available_step c) [] ns = Inr (by_name cls)" "distinct cls"
      "set cls = {cl \<in> set clusters. \<exists>n \<in> set ns. in_set_named sets n cl}"
    using available_loop [OF c v, of "[]"] by auto
  have o: "is_iter (AvailableOrder (cenv c))" using c by (simp add: cached_def)
  have "inj_on Name (set cls)" by (rule inj_on_subset [OF wf_cl_items_inj [of clusters]]) (use c l in \<open>auto simp: cached_def\<close>)
  then have "distinct (map Name cls)" using l(2) by (simp add: distinct_map)
  then have "distinct (map Name (AvailableOrder (cenv c) cls))" by (simp only: distinct_is_iter [OF o])
  moreover have "set (AvailableOrder (cenv c) cls) = set cls" by (rule set_is_iter [OF o])
  moreover have "getAvailableClusters c ns = Inr (if ns = [] \<or> cls = [] then [] else AvailableOrder (cenv c) cls)"
    by (simp add: getAvailableClusters_def l(1) comp_def)
  ultimately show ?thesis using l(3) by auto
qed

end
