(* ===== verification/ApiServer.thy ===== *)
theory ApiServer
  imports ControllerFacts
begin

text \<open>
  What the controller relies on of the API server and of its cache of PlacementDecisions, as
  locales, and an API server that keeps them: the objects it holds are a function of the calls that
  succeeded. \<open>decisions_api\<close> is the contract with a cache that may be stale, \<open>fresh_api\<close> the one
  with a cache that shows what the server holds, \<open>reliable_api\<close> the one with a server that also
  rejects no valid call. Each is interpreted on the controller connected to that server, whose
  failures are an arbitrary function of the trace and the call.
\<close>

definition pd_key :: "'m ObjectMeta_scheme \<Rightarrow> string \<times> string" where
  "pd_key o1 = (Namespace o1, Name o1)"

abbreviation label_of :: "PlacementDecision \<Rightarrow> string option" where
  "label_of d \<equiv> ObjLabels d PlacementLabel"

type_synonym decisions_map = "string \<times> string \<rightharpoonup> PlacementDecision"

section \<open>The contract\<close>

locale decisions_api =
  fixes c :: schedulingController
    and decs :: "trace \<Rightarrow> decisions_map"
  assumes get_key: "slash \<notin> set ns \<Longrightarrow> ns_get (placementDecisionLister c tr) ns n = Inr d \<Longrightarrow> pd_key d = (ns, n)"
    and list_key: "ns \<noteq> [] \<Longrightarrow> ns_list (placementDecisionLister c tr) ns sel = Inr ds \<Longrightarrow> d \<in> set ds \<Longrightarrow>
      Namespace d = ns \<and> Matches sel (ObjLabels d)"
    and created: "client_CreatePD (client c) tr pd = Inr r \<Longrightarrow> decs tr (pd_key pd) = None \<and>
      r = pd\<lparr>Decisions := []\<rparr> \<and> decs (tr @ [(CreatePD pd, True)]) = (decs tr)(pd_key pd \<mapsto> r)"
    and updated: "client_UpdatePDStatus (client c) tr pd = Inr r \<Longrightarrow> \<exists>d. decs tr (pd_key pd) = Some d \<and>
      decs (tr @ [(UpdatePDStatus pd, True)]) = (decs tr)(pd_key pd \<mapsto> d\<lparr>Decisions := Decisions pd\<rparr>)"
    and deleted: "client_DeletePD (client c) tr ns n = None \<Longrightarrow>
      decs (tr @ [(DeletePD ns n, True)]) = (decs tr)((ns, n) := None)"
    and delete_missing: "client_DeletePD (client c) tr ns n = Some er \<Longrightarrow> IsNotFound er \<Longrightarrow>
      decs tr (ns, n) = None"
    and failed [simp]: "decs (tr @ [(a, False)]) = decs tr"
    and not_decision [simp]: "decs (tr @ [(Eventf et re ac note, b)]) = decs tr"
      "decs (tr @ [(AddAfter key dur, b)]) = decs tr" "decs (tr @ [(UpdatePlacementStatus p, b)]) = decs tr"

locale fresh_api = decisions_api +
  assumes get_fresh: "slash \<notin> set ns \<Longrightarrow> ns_get (placementDecisionLister c tr) ns n =
      (case decs tr (ns, n) of None \<Rightarrow> Inl (NewNotFound ''placementdecisions'' n) | Some d \<Rightarrow> Inr d)"
    and list_fresh: "ns \<noteq> [] \<Longrightarrow> \<exists>ds. ns_list (placementDecisionLister c tr) ns sel = Inr ds \<and>
      set ds = {d. \<exists>n. decs tr (ns, n) = Some d \<and> Matches sel (ObjLabels d)}"
    and holds_key: "decs tr k = Some d \<Longrightarrow> pd_key d = k"

locale reliable_api = fresh_api +
  assumes creates: "wf_meta pd \<Longrightarrow> decs tr (pd_key pd) = None \<Longrightarrow> \<exists>r. client_CreatePD (client c) tr pd = Inr r"
    and updates: "decs tr (pd_key pd) = Some d \<Longrightarrow> \<exists>r. client_UpdatePDStatus (client c) tr pd = Inr r"
    and deletes: "decs tr (ns, n) = Some d \<Longrightarrow> client_DeletePD (client c) tr ns n = None"
    and deletes_missing: "decs tr (ns, n) = None \<Longrightarrow> \<exists>er. client_DeletePD (client c) tr ns n = Some er \<and> IsNotFound er"
    and updates_placement: "client_UpdatePlacementStatus (client c) tr p = None"

section \<open>A server\<close>

definition lookup :: "PlacementDecision list \<Rightarrow> decisions_map" where
  "lookup S k = find (\<lambda>d. pd_key d = k) S"

fun store_step :: "PlacementDecision list \<Rightarrow> action \<times> bool \<Rightarrow> PlacementDecision list" where
  "store_step S (CreatePD pd, True) =
     (if wf_meta pd \<and> lookup S (pd_key pd) = None then S @ [pd\<lparr>Decisions := []\<rparr>] else S)"
| "store_step S (UpdatePDStatus pd, True) =
     map (\<lambda>d. if pd_key d = pd_key pd then d\<lparr>Decisions := Decisions pd\<rparr> else d) S"
| "store_step S (DeletePD ns n, True) = filter (\<lambda>d. pd_key d \<noteq> (ns, n)) S"
| "store_step S _ = S"

definition admit :: "PlacementDecision list \<Rightarrow> PlacementDecision list" where
  "admit s0 = foldl (\<lambda>S d. if wf_meta d \<and> lookup S (pd_key d) = None then S @ [d] else S) [] s0"

definition store_of :: "PlacementDecision list \<Rightarrow> trace \<Rightarrow> PlacementDecision list" where
  "store_of s0 tr = foldl store_step (admit s0) tr"

type_synonym failures = "trace \<Rightarrow> action \<Rightarrow> string option"

definition server_client :: "failures \<Rightarrow> PlacementDecision list \<Rightarrow> clusterClient" where
  "server_client fails s0 =
     \<lparr>client_CreatePD = (\<lambda>tr pd. case fails tr (CreatePD pd) of
          Some m \<Rightarrow> Inl (OtherError m)
        | None \<Rightarrow> if \<not> wf_meta pd then Inl (OtherError ''invalid'')
            else if lookup (store_of s0 tr) (pd_key pd) \<noteq> None then Inl (OtherError ''already exists'')
            else Inr (pd\<lparr>Decisions := []\<rparr>)),
      client_UpdatePDStatus = (\<lambda>tr pd. case fails tr (UpdatePDStatus pd) of
          Some m \<Rightarrow> Inl (OtherError m)
        | None \<Rightarrow> (case lookup (store_of s0 tr) (pd_key pd) of
            None \<Rightarrow> Inl (NewNotFound ''placementdecisions'' (Name pd))
          | Some d \<Rightarrow> Inr (d\<lparr>Decisions := Decisions pd\<rparr>))),
      client_DeletePD = (\<lambda>tr ns n. case fails tr (DeletePD ns n) of
          Some m \<Rightarrow> Some (OtherError m)
        | None \<Rightarrow> if lookup (store_of s0 tr) (ns, n) = None
            then Some (NewNotFound ''placementdecisions'' n) else None),
      client_UpdatePlacementStatus = (\<lambda>tr p. map_option OtherError (fails tr (UpdatePlacementStatus p)))\<rparr>"

text \<open>The controller connected to the server, its cache showing \<open>shown tr\<close>.\<close>

definition on_server :: "schedulingController \<Rightarrow> failures \<Rightarrow> PlacementDecision list \<Rightarrow>
    (trace \<Rightarrow> PlacementDecision list) \<Rightarrow> schedulingController" where
  "on_server c fails s0 shown = c\<lparr>client := server_client fails s0,
     placementDecisionLister := (\<lambda>tr. cache_ns_lister ''placementdecisions'' (admit (shown tr)))\<rparr>"

definition decs_of :: "PlacementDecision list \<Rightarrow> trace \<Rightarrow> decisions_map" where
  "decs_of s0 tr = lookup (store_of s0 tr)"

lemma on_server_simps [simp]:
  "client (on_server c fails s0 shown) = server_client fails s0"
  "placementDecisionLister (on_server c fails s0 shown) tr =
     cache_ns_lister ''placementdecisions'' (admit (shown tr))"
  "clusterLister (on_server c fails s0 shown) = clusterLister c"
  "clusterSetLister (on_server c fails s0 shown) = clusterSetLister c"
  "clusterSetBindingLister (on_server c fails s0 shown) = clusterSetBindingLister c"
  "placementLister (on_server c fails s0 shown) = placementLister c"
  "scheduler (on_server c fails s0 shown) = scheduler c"
  "cenv (on_server c fails s0 shown) = cenv c"
  by (simp_all add: on_server_def)

lemma pd_key_simps [simp]:
  "pd_key (d\<lparr>Decisions := x\<rparr>) = pd_key d" "wf_meta (d\<lparr>Decisions := x\<rparr>) = wf_meta d"
  by (simp_all add: pd_key_def wf_meta_def)

definition wf_store :: "PlacementDecision list \<Rightarrow> bool" where
  "wf_store S \<longleftrightarrow> distinct (map pd_key S) \<and> list_all wf_meta S"

lemma wf_store_items: "wf_store S \<longleftrightarrow> wf_ns_items S"
proof -
  have "inj_on MetaNamespaceKey (set S) \<longleftrightarrow> inj_on pd_key (set S)" if "list_all wf_meta S"
    using that unfolding inj_on_def list_all_iff
    by (metis (no_types, lifting) MetaNamespaceKey_def SplitMetaNamespaceKey_key option.inject pd_key_def
        prod.inject)
  then show ?thesis by (auto simp: wf_store_def wf_ns_items_def distinct_map)
qed

lemma lookup_None: "lookup S k = None \<longleftrightarrow> k \<notin> pd_key ` set S"
  by (auto simp: lookup_def find_None_iff)

lemma lookup_Some_iff: "wf_store S \<Longrightarrow> lookup S k = Some d \<longleftrightarrow> d \<in> set S \<and> pd_key d = k"
  using find_unique [of pd_key S d] unfolding wf_store_def lookup_def
  by (auto simp: find_Some_iff)

lemma lookup_key: "lookup S k = Some d \<Longrightarrow> pd_key d = k"
  by (auto simp: lookup_def find_Some_iff)

lemma lookup_append: "lookup (S @ [d]) k = (case lookup S k of None \<Rightarrow> if pd_key d = k then Some d else None
    | Some e \<Rightarrow> Some e)"
  by (induction S) (auto simp: lookup_def)

lemma lookup_map: "(\<And>d. pd_key (f d) = pd_key d) \<Longrightarrow> lookup (map f S) k = map_option f (lookup S k)"
  by (induction S) (auto simp: lookup_def)

lemma lookup_filter: "lookup (filter (\<lambda>d. pd_key d \<noteq> k) S) j = (if j = k then None else lookup S j)"
  by (induction S) (auto simp: lookup_def)

lemma wf_store_snoc: "wf_store (S @ [d]) \<longleftrightarrow> wf_store S \<and> wf_meta d \<and> lookup S (pd_key d) = None"
  by (auto simp: wf_store_def lookup_None)

lemma wf_store_filter: "wf_store S \<Longrightarrow> wf_store (filter P S)"
  by (simp add: wf_store_def distinct_map_filter list_all_iff)

lemma wf_store_step: "wf_store S \<Longrightarrow> wf_store (store_step S x)"
proof (induction S x rule: store_step.induct)
  case (2 S pd)
  let ?f = "\<lambda>d :: PlacementDecision. if pd_key d = pd_key pd then d\<lparr>Decisions := Decisions pd\<rparr> else d"
  have "pd_key \<circ> ?f = pd_key" by (rule ext) simp
  then show ?case using 2 by (auto simp: wf_store_def list_all_iff)
qed (simp_all add: wf_store_snoc wf_store_filter)

lemma wf_store_admit [simp]: "wf_store (admit s0)"
proof -
  have "wf_store S \<Longrightarrow> wf_store (foldl (\<lambda>S d. if wf_meta d \<and> lookup S (pd_key d) = None then S @ [d] else S) S s0)"
    for S
    by (induction s0 arbitrary: S) (auto simp: wf_store_snoc)
  then show ?thesis by (simp add: admit_def wf_store_def)
qed

lemma wf_store_of [simp]: "wf_store (store_of s0 tr)"
  unfolding store_of_def by (induction tr rule: rev_induct) (simp_all add: wf_store_step)

lemma admit_id: "wf_store S \<Longrightarrow> admit S = S"
proof (induction S rule: rev_induct)
  case (snoc d S)
  then show ?case by (simp add: wf_store_snoc) (simp add: admit_def)
qed (simp add: admit_def)

lemma admit_store [simp]: "admit (store_of s0 tr) = store_of s0 tr"
  by (rule admit_id) simp

lemma store_of_snoc [simp]: "store_of s0 (tr @ [x]) = store_step (store_of s0 tr) x"
  by (simp add: store_of_def)

lemma store_of_Nil [simp]: "store_of s0 [] = admit s0"
  by (simp add: store_of_def)

text \<open>What a call does to the map of decisions.\<close>

lemma decs_of_create:
  "wf_meta pd \<Longrightarrow> decs_of s0 tr (pd_key pd) = None \<Longrightarrow>
     decs_of s0 (tr @ [(CreatePD pd, True)]) = (decs_of s0 tr)(pd_key pd \<mapsto> pd\<lparr>Decisions := []\<rparr>)"
  by (auto simp: decs_of_def lookup_append fun_eq_iff split: option.splits)

lemma decs_of_update:
  assumes "decs_of s0 tr (pd_key pd) = Some d"
  shows "decs_of s0 (tr @ [(UpdatePDStatus pd, True)]) =
    (decs_of s0 tr)(pd_key pd \<mapsto> d\<lparr>Decisions := Decisions pd\<rparr>)"
proof
  fix k
  let ?S = "store_of s0 tr"
  have "lookup (map (\<lambda>d. if pd_key d = pd_key pd then d\<lparr>Decisions := Decisions pd\<rparr> else d) ?S) k =
      map_option (\<lambda>d. if pd_key d = pd_key pd then d\<lparr>Decisions := Decisions pd\<rparr> else d) (lookup ?S k)"
    by (rule lookup_map) simp
  then show "decs_of s0 (tr @ [(UpdatePDStatus pd, True)]) k =
      ((decs_of s0 tr)(pd_key pd \<mapsto> d\<lparr>Decisions := Decisions pd\<rparr>)) k"
    using assms lookup_key [of ?S k] by (cases "lookup ?S k") (auto simp: decs_of_def)
qed

lemma decs_of_delete: "decs_of s0 (tr @ [(DeletePD ns n, True)]) = (decs_of s0 tr)((ns, n) := None)"
  by (auto simp: decs_of_def lookup_filter fun_eq_iff)

lemma decs_of_other:
  "decs_of s0 (tr @ [(a, False)]) = decs_of s0 tr"
  "decs_of s0 (tr @ [(Eventf et re ac note, b)]) = decs_of s0 tr"
  "decs_of s0 (tr @ [(AddAfter key dur, b)]) = decs_of s0 tr"
  "decs_of s0 (tr @ [(UpdatePlacementStatus p, b)]) = decs_of s0 tr"
  by (simp_all add: decs_of_def)

interpretation server: decisions_api "on_server c fails s0 shown" "decs_of s0" for c fails s0 shown
proof (unfold_locales, goal_cases)
  case (1 ns tr n d)
  then show ?case
    by (auto simp: cache_ns_lister_def pd_key_def ns_items_key_iff [OF wf_store_admit [unfolded wf_store_items]]
        dest!: GetByKey_Some split: option.splits)
next
  case (2 ns tr sel ds d)
  then show ?case by (auto simp: ListAllByNamespace_eq)
next
  case (3 tr pd r)
  then show ?case
    using decs_of_create [of pd s0 tr]
    by (auto simp: server_client_def decs_of_def split: option.splits if_splits)
next
  case (4 tr pd r)
  then show ?case using decs_of_update [of s0 tr pd]
    by (auto simp: server_client_def decs_of_def split: option.splits)
next
  case (5 tr ns n)
  show ?case by (rule decs_of_delete)
next
  case (6 tr ns n er)
  then show ?case by (auto simp: server_client_def decs_of_def split: option.splits if_splits)
qed (simp_all add: decs_of_other)

text \<open>A cache that is up to date, and a server that fails no valid call.\<close>

abbreviation fresh_server ::
  "schedulingController \<Rightarrow> failures \<Rightarrow> PlacementDecision list \<Rightarrow> schedulingController" where
  "fresh_server c fails s0 \<equiv> on_server c fails s0 (store_of s0)"

lemma store_get:
  assumes "slash \<notin> set ns"
  shows "ns_get (cache_ns_lister r (store_of s0 tr)) ns n =
    (case decs_of s0 tr (ns, n) of None \<Rightarrow> Inl (NewNotFound r n) | Some d \<Rightarrow> Inr d)"
proof (cases "decs_of s0 tr (ns, n)")
  case None
  then have "\<forall>d \<in> set (store_of s0 tr). \<not> (Namespace d = ns \<and> Name d = n)"
    by (auto simp: decs_of_def lookup_None pd_key_def image_iff)
  then show ?thesis
    using cache_ns_get_missing [OF wf_store_of [unfolded wf_store_items] assms, of s0 tr n r] None
    by simp
next
  case (Some d)
  then have d: "d \<in> set (store_of s0 tr)" "pd_key d = (ns, n)"
    by (simp_all add: decs_of_def lookup_Some_iff)
  have "ns_get (cache_ns_lister r (store_of s0 tr)) (Namespace d) (Name d) = Inr d"
    by (rule cache_ns_get [OF wf_store_of [unfolded wf_store_items] d(1)])
  then show ?thesis using d(2) Some by (simp add: pd_key_def)
qed

interpretation fresh: fresh_api "fresh_server c fails s0" "decs_of s0" for c fails s0
proof (unfold_locales, goal_cases)
  case (1 ns tr n)
  then show ?case by (simp add: store_get)
next
  case (2 ns tr sel)
  then show ?case
    by (auto simp: ListAllByNamespace_eq decs_of_def lookup_Some_iff pd_key_def)
next
  case (3 tr k d)
  then show ?case by (auto simp: decs_of_def dest: lookup_key)
qed

interpretation reliable: reliable_api "fresh_server c (\<lambda>_ _. None) s0" "decs_of s0" for c s0
  by unfold_locales (auto simp: server_client_def decs_of_def)

end
