(* ===== verification/Bind.thy ===== *)
theory Bind
  imports ApiServer
begin

text \<open>
  What \<open>bind\<close> does to the PlacementDecisions the API server holds. With a cache that may be stale:
  which calls it makes, in which order, and what stays unchanged. With a cache that is up to date:
  a run without errors sets the decisions of the placement, and nothing else, to the slices of
  the wanted decisions (a functional refinement of an assignment), and repeating it does nothing.
\<close>

lemma set_enumerate: "set (enumerate 0 xs) = (\<lambda>i. (i, xs ! i)) ` {..<length xs}"
  by (auto simp: in_set_enumerate_eq image_iff)

section \<open>The abstract state\<close>

text \<open>The decisions of a placement, by name of the PlacementDecision that holds them.\<close>

definition decisions_view :: "decisions_map \<Rightarrow> string \<times> string \<Rightarrow> string \<rightharpoonup> ClusterDecision list" where
  "decisions_view m k n = (case m (fst k, n) of None \<Rightarrow> None
     | Some d \<Rightarrow> if label_of d = Some (snd k) then Some (Decisions d) else None)"

definition wanted_decisions :: "Placement \<Rightarrow> ClusterDecision list \<Rightarrow> string \<rightharpoonup> ClusterDecision list" where
  "wanted_decisions p ds = map_of (map (\<lambda>(i, s). (decision_name (Name p) (i + 1), s))
     (enumerate 0 (decision_slices (sort_key ClusterName ds))))"

definition placement_key :: "Placement \<Rightarrow> string \<times> string" where
  "placement_key p = (Namespace p, Name p)"

text \<open>The invariant of the decisions: at most 100 in an object, and the label of an object is the
  placement its name is made of.\<close>

definition decisions_inv :: "decisions_map \<Rightarrow> bool" where
  "decisions_inv m \<longleftrightarrow> (\<forall>ns n d. m (ns, n) = Some d \<longrightarrow> length (Decisions d) \<le> 100 \<and>
     (\<forall>pn. label_of d = Some pn \<longleftrightarrow> (\<exists>i \<ge> 1. n = decision_name pn i)))"

lemma decisions_invD:
  assumes "decisions_inv m" "m (ns, n) = Some d"
  shows "length (Decisions d) \<le> 100" "label_of d = Some pn \<longleftrightarrow> (\<exists>i \<ge> 1. n = decision_name pn i)"
  using assms unfolding decisions_inv_def by blast+

lemma wanted_decisions_Some:
  "wanted_decisions p ds n = Some s \<longleftrightarrow> (\<exists>i < length (decision_slices (sort_key ClusterName ds)).
     n = decision_name (Name p) (i + 1) \<and> s = decision_slices (sort_key ClusterName ds) ! i)"
proof -
  let ?xs = "map (\<lambda>(i, s). (decision_name (Name p) (i + 1), s))
     (enumerate 0 (decision_slices (sort_key ClusterName ds)))"
  have "map fst ?xs = map (\<lambda>i. decision_name (Name p) (i + 1))
      (map fst (enumerate 0 (decision_slices (sort_key ClusterName ds))))"
    by (simp add: comp_def case_prod_beta del: map_fst_enumerate)
  then have "distinct (map fst ?xs)" by (simp add: distinct_map inj_on_def)
  then have "wanted_decisions p ds n = Some s \<longleftrightarrow> (n, s) \<in> set ?xs"
    unfolding wanted_decisions_def by (rule map_of_eq_Some_iff)
  moreover have "set ?xs = (\<lambda>i. (decision_name (Name p) (i + 1),
      decision_slices (sort_key ClusterName ds) ! i)) ` {..<length (decision_slices (sort_key ClusterName ds))}"
    by (simp add: set_enumerate image_image)
  ultimately show ?thesis by auto
qed

section \<open>One PlacementDecision\<close>

text \<open>What writing the decisions \<open>ds\<close> to the object \<open>n\<close> of a placement may leave behind.\<close>

definition touched :: "Placement \<Rightarrow> string \<Rightarrow> ClusterDecision list \<Rightarrow> decisions_map \<Rightarrow> decisions_map \<Rightarrow> bool" where
  "touched p n ds m m' \<longleftrightarrow> (\<forall>k. k \<noteq> (Namespace p, n) \<longrightarrow> m' k = m k) \<and>
     (case m' (Namespace p, n) of None \<Rightarrow> m (Namespace p, n) = None
      | Some d \<Rightarrow> (case m (Namespace p, n) of
          None \<Rightarrow> label_of d = Some (Name p) \<and> Decisions d \<in> {[], ds}
        | Some d0 \<Rightarrow> d = d0 \<or> d = d0\<lparr>Decisions := ds\<rparr>))"

fun writes :: "Placement \<Rightarrow> string \<Rightarrow> ClusterDecision list \<Rightarrow> action \<Rightarrow> bool" where
  "writes p n ds (CreatePD pd) \<longleftrightarrow> pd = new_decision p n"
| "writes p n ds (UpdatePDStatus pd) \<longleftrightarrow> pd_key pd = (Namespace p, n) \<and> Decisions pd = ds"
| "writes p n ds (Eventf et re ac note) \<longleftrightarrow> True"
| "writes p n ds _ \<longleftrightarrow> False"

definition slice_action :: "Placement \<Rightarrow> ClusterDecision list list \<Rightarrow> action \<Rightarrow> bool" where
  "slice_action p slices a \<longleftrightarrow>
     (\<exists>i < length slices. writes p (decision_name (Name p) (i + 1)) (slices ! i) a)"

definition delete_action :: "string list \<Rightarrow> PlacementDecision list \<Rightarrow> action \<Rightarrow> bool" where
  "delete_action names pds a = (case a of
     DeletePD ns n \<Rightarrow> \<exists>pd \<in> set pds. (ns, n) = pd_key pd \<and> \<not> sets_has names (Name pd)
   | Eventf _ _ _ _ \<Rightarrow> True | _ \<Rightarrow> False)"

text \<open>An object is redundant when it is labelled as the placement's and has not the name of a slice.\<close>

definition redundant :: "Placement \<Rightarrow> ClusterDecision list list \<Rightarrow> PlacementDecision \<Rightarrow> bool" where
  "redundant p slices d \<longleftrightarrow> Namespace d = Namespace p \<and> label_of d = Some (Name p) \<and>
     (\<forall>i < length slices. Name d \<noteq> decision_name (Name p) (i + 1))"

definition redundant_action :: "Placement \<Rightarrow> ClusterDecision list list \<Rightarrow> PlacementDecision list \<Rightarrow> action \<Rightarrow> bool" where
  "redundant_action p slices pds a = (case a of
     DeletePD ns n \<Rightarrow> \<exists>d \<in> set pds. pd_key d = (ns, n) \<and> redundant p slices d
   | Eventf _ _ _ _ \<Rightarrow> True | _ \<Rightarrow> False)"

lemma touched_refl [simp]: "touched p n ds m m"
  by (auto simp: touched_def split: option.splits)

lemma touched_update:
  assumes "touched p n ds m m1" "m1 (Namespace p, n) = Some d0"
  shows "touched p n ds m (m1((Namespace p, n) \<mapsto> d0\<lparr>Decisions := ds\<rparr>))"
proof (cases "m (Namespace p, n)")
  case None
  then show ?thesis using assms by (auto simp: touched_def)
next
  case (Some d)
  then have "d0\<lparr>Decisions := ds\<rparr> = d\<lparr>Decisions := ds\<rparr>" using assms by (auto simp: touched_def)
  then show ?thesis using assms Some by (simp add: touched_def)
qed

lemma new_decision_simps [simp]:
  "pd_key (new_decision p n) = (Namespace p, n)" "label_of (new_decision p n) = Some (Name p)"
  "Decisions (new_decision p n) = []" "(new_decision p n)\<lparr>Decisions := []\<rparr> = new_decision p n"
  by (simp_all add: new_decision_def pd_key_def)

lemma touched_created:
  "m (Namespace p, n) = None \<Longrightarrow> touched p n ds m (m((Namespace p, n) \<mapsto> new_decision p n))"
  by (simp add: touched_def)

lemma touched_other: "touched p n ds m m' \<Longrightarrow> k \<noteq> (Namespace p, n) \<Longrightarrow> m' k = m k"
  by (cases k) (simp add: touched_def)

lemma touched_inv:
  assumes "touched p (decision_name (Name p) i) ds m m'" "decisions_inv m" "1 \<le> i" "length ds \<le> 100"
  shows "decisions_inv m'"
  unfolding decisions_inv_def
proof (intro allI impI)
  fix ns n d
  assume d: "m' (ns, n) = Some d"
  show "length (Decisions d) \<le> 100 \<and> (\<forall>pn. label_of d = Some pn \<longleftrightarrow> (\<exists>i \<ge> 1. n = decision_name pn i))"
  proof (cases "(ns, n) = (Namespace p, decision_name (Name p) i)")
    case False
    then have "m (ns, n) = Some d" using d touched_other [OF assms(1)] by simp
    then show ?thesis using decisions_invD [OF assms(2)] by blast
  next
    case True
    show ?thesis
    proof (cases "m (ns, n)")
      case None
      then have "label_of d = Some (Name p) \<and> Decisions d \<in> {[], ds}"
        using assms(1) d True by (simp add: touched_def)
      then show ?thesis using True assms(3,4) by auto
    next
      case (Some d0)
      then have "d = d0 \<or> d = d0\<lparr>Decisions := ds\<rparr>" using assms(1) d True by (simp add: touched_def)
      moreover note decisions_invD [OF assms(2) Some]
      ultimately show ?thesis using assms(4) by (elim disjE) simp_all
    qed
  qed
qed

lemma placement_label_ok [simp]: "is_qualified_name PlacementLabel"
  by code_simp

context decisions_api
begin

lemma decs_event [simp]: "decs (event et re ac note tr) = decs tr"
  by (simp add: event_def)

lemma decs_two [simp]: "decs (tr @ [x, (Eventf et re ac note, b)]) = decs (tr @ [x])"
  using not_decision(1) [of "tr @ [x]"] by simp

lemma decs_update_events [simp]: "decs (update_events c p n sc st tr) = decs tr"
  by (simp add: update_events_def Let_def)

lemma get_or_create_effect:
  assumes "get_or_create c p n tr = (r, tr')" "slash \<notin> set (Namespace p)"
  shows "\<exists>acts. tr' = tr @ acts \<and> list_all (writes p n ds \<circ> fst) acts \<and>
    (case r of Inl e \<Rightarrow> decs tr' = decs tr
     | Inr d \<Rightarrow> pd_key d = (Namespace p, n) \<and> list_all snd acts \<and> (decs tr' = decs tr \<or>
         d = new_decision p n \<and> decs tr (Namespace p, n) = None \<and>
         decs tr' = (decs tr)((Namespace p, n) \<mapsto> new_decision p n)))"
proof (cases "ns_get (placementDecisionLister c tr) (Namespace p) n")
  case (Inr d)
  then show ?thesis using assms get_key [of "Namespace p" tr n d] by (auto simp: get_or_create_def)
next
  case (Inl e)
  show ?thesis
  proof (cases "client_CreatePD (client c) tr (new_decision p n)")
    case (Inr d)
    then show ?thesis using assms Inl created [OF Inr]
      by (auto simp: get_or_create_def Let_def event_def split: if_splits)
  next
    case (Inl e')
    then show ?thesis using assms \<open>ns_get _ _ _ = Inl e\<close>
      by (auto simp: get_or_create_def Let_def split: if_splits)
  qed
qed

lemma update_events_app:
  "\<exists>evs. update_events c p n sc st tr = tr @ evs \<and> list_all (writes p n' ds \<circ> fst) evs \<and> list_all snd evs"
  by (simp add: update_events_def event_def Let_def)

lemma createOrUpdate_effect:
  assumes "createOrUpdatePlacementDecision c p n ds sc st tr = (er, tr')" "slash \<notin> set (Namespace p)"
  shows "touched p n ds (decs tr) (decs tr') \<and> (\<exists>acts. tr' = tr @ acts \<and>
    list_all (writes p n ds \<circ> fst) acts \<and> (er = None \<longrightarrow> length ds \<le> 100 \<and> list_all snd acts))"
proof (cases "length ds > maxNumOfClusterDecisions")
  case True
  then show ?thesis using assms
    by (auto simp: createOrUpdatePlacementDecision_def maxNumOfClusterDecisions_def)
next
  case short: False
  then have len: "length ds \<le> 100" by (simp add: maxNumOfClusterDecisions_def)
  obtain r tr1 where g: "get_or_create c p n tr = (r, tr1)" by fastforce
  obtain acts where a: "tr1 = tr @ acts" "list_all (writes p n ds \<circ> fst) acts"
    using get_or_create_effect [OF g assms(2)] by blast
  show ?thesis
  proof (cases r)
    case (Inl e)
    then show ?thesis using assms g a get_or_create_effect [OF g assms(2)] short
      by (auto simp: createOrUpdatePlacementDecision_def)
  next
    case (Inr d)
    then have d: "pd_key d = (Namespace p, n)" "list_all snd acts"
      and "decs tr1 = decs tr \<or> decs tr (Namespace p, n) = None \<and>
        decs tr1 = (decs tr)((Namespace p, n) \<mapsto> new_decision p n)"
      using get_or_create_effect [OF g assms(2), of ds] a by auto
    then have d3: "touched p n ds (decs tr) (decs tr1)" by (auto simp: touched_created)
    let ?new = "d\<lparr>Decisions := ds\<rparr>"
    show ?thesis
    proof (cases "Decisions d = ds")
      case True
      then have "er = None \<and> tr' = tr1" using assms(1) g Inr short
        by (simp add: createOrUpdatePlacementDecision_def)
      then show ?thesis using a d d3 len by simp
    next
      case changed: False
      show ?thesis
      proof (cases "client_UpdatePDStatus (client c) tr1 ?new")
        case (Inl e)
        then have r: "er = Some (api_err_text e)" "tr' = tr1 @ [(UpdatePDStatus ?new, False)]"
          using assms(1) g \<open>r = Inr d\<close> short changed
          by (simp_all add: createOrUpdatePlacementDecision_def Let_def)
        show ?thesis
        proof (intro conjI exI)
          show "tr' = tr @ (acts @ [(UpdatePDStatus ?new, False)])" using r a by simp
        qed (use a(2) d d3 r in simp_all)
      next
        case u: (Inr r')
        let ?tr2 = "tr1 @ [(UpdatePDStatus ?new, True)]"
        have r: "er = None" "tr' = update_events c p (Name d) sc st ?tr2"
          using assms(1) g Inr short changed u
          by (simp_all add: createOrUpdatePlacementDecision_def Let_def)
        obtain evs where evs: "tr' = ?tr2 @ evs" "list_all (writes p n ds \<circ> fst) evs" "list_all snd evs"
          using update_events_app r(2) by blast
        obtain d0 where "decs tr1 (Namespace p, n) = Some d0"
          "decs ?tr2 = (decs tr1)((Namespace p, n) \<mapsto> d0\<lparr>Decisions := ds\<rparr>)"
          using updated [OF u] d(1) by auto
        then have "touched p n ds (decs tr) (decs tr')"
          using touched_update [OF d3] r(2) by simp
        moreover have "tr' = tr @ (acts @ (UpdatePDStatus ?new, True) # evs)" using evs a by simp
        moreover have "list_all (writes p n ds \<circ> fst) (acts @ (UpdatePDStatus ?new, True) # evs)"
          "list_all snd (acts @ (UpdatePDStatus ?new, True) # evs)" using a(2) d evs by simp_all
        ultimately show ?thesis using len by blast
      qed
    qed
  qed
qed

text \<open>The loop over the slices, by an invariant of its state.\<close>

lemma bind_loop_rule:
  assumes "foldl (bind_slice c p sc st) (errs0, names0, tr0) (enumerate 0 slices) = (errs', names', tr')"
    and "I 0 errs0 names0 tr0"
    and "\<And>k errs names tr er tr1. k < length slices \<Longrightarrow> I k errs names tr \<Longrightarrow>
      createOrUpdatePlacementDecision c p (decision_name (Name p) (k + 1)) (slices ! k) sc st tr = (er, tr1) \<Longrightarrow>
      I (Suc k) (case er of None \<Rightarrow> errs | Some e \<Rightarrow> errs @ [e])
        (sets_insert names (decision_name (Name p) (k + 1))) tr1"
  shows "I (length slices) errs' names' tr'"
  using assms(1,3)
proof (induction slices arbitrary: errs' names' tr' rule: rev_induct)
  case Nil
  then show ?case using assms(2) by simp
next
  case (snoc s slices)
  obtain errs1 names1 tr1 where f:
    "foldl (bind_slice c p sc st) (errs0, names0, tr0) (enumerate 0 slices) = (errs1, names1, tr1)"
    by (metis prod_cases3)
  have i: "I (length slices) errs1 names1 tr1"
  proof (rule snoc.IH [OF f])
    fix k errs names tr er tr1
    assume "k < length slices" "I k errs names tr"
      "createOrUpdatePlacementDecision c p (decision_name (Name p) (k + 1)) (slices ! k) sc st tr = (er, tr1)"
    then show "I (Suc k) (case er of None \<Rightarrow> errs | Some e \<Rightarrow> errs @ [e])
        (sets_insert names (decision_name (Name p) (k + 1))) tr1"
      using snoc.prems(2) [of k errs names tr er tr1] by (simp add: nth_append)
  qed
  obtain er tr2 where g: "createOrUpdatePlacementDecision c p (decision_name (Name p) (length slices + 1))
      s sc st tr1 = (er, tr2)" by fastforce
  have "(errs', names', tr') = (case er of None \<Rightarrow> errs1 | Some e \<Rightarrow> errs1 @ [e],
      sets_insert names1 (decision_name (Name p) (length slices + 1)), tr2)"
    using snoc.prems(1) f g by (simp add: enumerate_append_eq bind_slice_def Let_def)
  then show ?case using snoc.prems(2) [OF _ i, of er tr2] g by simp
qed

lemma bind_loop:
  assumes "foldl (bind_slice c p sc st) ([], [], tr) (enumerate 0 slices) = (errs', names', tr')"
    and s: "slash \<notin> set (Namespace p)"
  shows "set names' = (\<lambda>i. decision_name (Name p) (i + 1)) ` {..<length slices}"
    and "\<exists>acts. tr' = tr @ acts \<and>
      list_all (slice_action p slices \<circ> fst) acts \<and>
      (errs' = [] \<longrightarrow> list_all snd acts)"
    and "(\<And>i. i < length slices \<Longrightarrow> k \<noteq> (Namespace p, decision_name (Name p) (i + 1))) \<Longrightarrow>
      decs tr' k = decs tr k"
    and "decisions_inv (decs tr) \<Longrightarrow> \<forall>s \<in> set slices. length s \<le> 100 \<Longrightarrow> decisions_inv (decs tr')"
proof -
  note rule = bind_loop_rule [OF assms(1)]
  show "set names' = (\<lambda>i. decision_name (Name p) (i + 1)) ` {..<length slices}"
    by (rule rule [where I = "\<lambda>n errs names tr'. set names = (\<lambda>i. decision_name (Name p) (i + 1)) ` {..<n}"])
      (auto simp: lessThan_Suc)
  show "\<exists>acts. tr' = tr @ acts \<and>
      list_all (slice_action p slices \<circ> fst) acts \<and>
      (errs' = [] \<longrightarrow> list_all snd acts)"
  proof (rule rule [where I = "\<lambda>n errs names tr'. \<exists>acts. tr' = tr @ acts \<and>
      list_all (slice_action p slices \<circ> fst) acts \<and>
      (errs = [] \<longrightarrow> list_all snd acts)"])
    fix k names tr1 er tr2 and errs :: "string list"
    assume k: "k < length slices" and I: "\<exists>acts. tr1 = tr @ acts \<and>
      list_all (slice_action p slices \<circ> fst) acts \<and>
      (errs = [] \<longrightarrow> list_all snd acts)"
      and g: "createOrUpdatePlacementDecision c p (decision_name (Name p) (k + 1)) (slices ! k) sc st tr1 = (er, tr2)"
    obtain acts where a: "tr2 = tr1 @ acts" "er = None \<longrightarrow> list_all snd acts"
      "list_all (writes p (decision_name (Name p) (k + 1)) (slices ! k) \<circ> fst) acts"
      using createOrUpdate_effect [OF g s] by blast
    have "list_all (slice_action p slices \<circ> fst) acts"
      using a(3) k by (auto simp: list_all_iff slice_action_def)
    then show "\<exists>acts. tr2 = tr @ acts \<and>
      list_all (slice_action p slices \<circ> fst) acts \<and>
      ((case er of None \<Rightarrow> errs | Some e \<Rightarrow> errs @ [e]) = [] \<longrightarrow> list_all snd acts)"
      using I a(1,2) by (auto split: option.splits)
  qed simp
  show "decs tr' k = decs tr k"
    if k: "\<And>i. i < length slices \<Longrightarrow> k \<noteq> (Namespace p, decision_name (Name p) (i + 1))"
  proof (rule rule [where I = "\<lambda>n errs names tr'. decs tr' k = decs tr k"])
    fix i names tr1 er tr2
    assume i: "i < length slices" and I: "decs tr1 k = decs tr k" and
      g: "createOrUpdatePlacementDecision c p (decision_name (Name p) (i + 1)) (slices ! i) sc st tr1 = (er, tr2)"
    have "decs tr2 k = decs tr1 k"
      using createOrUpdate_effect [OF g s] k [OF i] by (blast intro: touched_other)
    then show "decs tr2 k = decs tr k" using I by simp
  qed simp
  show "decisions_inv (decs tr')" if "decisions_inv (decs tr)" "\<forall>s \<in> set slices. length s \<le> 100"
  proof (rule rule [where I = "\<lambda>n errs names tr'. decisions_inv (decs tr')"])
    fix k errs names tr1 er tr2
    assume "k < length slices" "decisions_inv (decs tr1)"
      "createOrUpdatePlacementDecision c p (decision_name (Name p) (k + 1)) (slices ! k) sc st tr1 = (er, tr2)"
    then show "decisions_inv (decs tr2)"
      using touched_inv [where i = "k + 1"] createOrUpdate_effect [OF _ s] that(2) by (metis le_add2 nth_mem)
  qed (rule that(1))
qed

text \<open>The deletion of redundant objects.\<close>

lemma delete_one:
  assumes "delete_redundant c p names (errs, tr) pd = (errs', tr')"
  shows "\<exists>acts. tr' = tr @ acts \<and>
      (sets_has names (Name pd) \<longrightarrow> acts = []) \<and>
      list_all (\<lambda>a. case fst a of DeletePD ns n \<Rightarrow> (ns, n) = pd_key pd | Eventf _ _ _ _ \<Rightarrow> True | _ \<Rightarrow> False) acts"
    and "decs tr' k = decs tr k \<or> k = pd_key pd \<and> \<not> sets_has names (Name pd) \<and> decs tr' k = None"
    and "\<exists>es. errs' = errs @ es"
    and "errs' = errs \<Longrightarrow> \<not> sets_has names (Name pd) \<Longrightarrow> decs tr' (pd_key pd) = None"
proof -
  let ?x = "(DeletePD (Namespace pd) (Name pd), True)"
  have d: "client_DeletePD (client c) tr (Namespace pd) (Name pd) = None \<Longrightarrow>
      decs (tr @ [?x]) = (decs tr)(pd_key pd := None)"
    using deleted by (simp add: pd_key_def)
  have m: "client_DeletePD (client c) tr (Namespace pd) (Name pd) = Some er \<Longrightarrow> IsNotFound er \<Longrightarrow>
      decs tr (pd_key pd) = None" for er
    using delete_missing by (simp add: pd_key_def)
  note defs = delete_redundant_def Let_def event_def
  show "\<exists>acts. tr' = tr @ acts \<and> (sets_has names (Name pd) \<longrightarrow> acts = []) \<and>
      list_all (\<lambda>a. case fst a of DeletePD ns n \<Rightarrow> (ns, n) = pd_key pd | Eventf _ _ _ _ \<Rightarrow> True | _ \<Rightarrow> False) acts"
    using assms by (auto simp: defs pd_key_def split: if_splits option.splits)
  show "decs tr' k = decs tr k \<or> k = pd_key pd \<and> \<not> sets_has names (Name pd) \<and> decs tr' k = None"
    using assms d by (auto simp: defs split: if_splits option.splits)
  show "\<exists>es. errs' = errs @ es"
    using assms by (auto simp: defs split: if_splits option.splits)
  show "errs' = errs \<Longrightarrow> \<not> sets_has names (Name pd) \<Longrightarrow> decs tr' (pd_key pd) = None"
    using assms d m by (auto simp: defs split: if_splits option.splits)
qed

lemma delete_loop:
  assumes "foldl (delete_redundant c p names) (errs, tr) pds = (errs', tr')"
  shows "\<exists>acts. tr' = tr @ acts \<and> list_all (delete_action names pds \<circ> fst) acts"
    and "decs tr' k = decs tr k \<or>
      (\<exists>pd \<in> set pds. k = pd_key pd \<and> \<not> sets_has names (Name pd)) \<and> decs tr' k = None"
    and "\<exists>es. errs' = errs @ es"
    and "errs' = errs \<Longrightarrow> pd \<in> set pds \<Longrightarrow> \<not> sets_has names (Name pd) \<Longrightarrow> decs tr' (pd_key pd) = None"
proof (atomize (full), insert assms, induction pds arbitrary: errs tr pd k)
  case (Cons q pds)
  obtain errs1 tr1 where 1: "delete_redundant c p names (errs, tr) q = (errs1, tr1)" by fastforce
  note one = delete_one [OF 1]
  have f: "foldl (delete_redundant c p names) (errs1, tr1) pds = (errs', tr')" using Cons.prems 1 by simp
  note rest = Cons.IH [OF f]
  obtain as bs where a: "tr1 = tr @ as" "sets_has names (Name q) \<longrightarrow> as = []"
    "list_all (\<lambda>a. case fst a of DeletePD ns n \<Rightarrow> (ns, n) = pd_key q | Eventf _ _ _ _ \<Rightarrow> True | _ \<Rightarrow> False) as"
    using one(1) by blast
  obtain bs where b: "tr' = tr1 @ bs" "list_all (delete_action names pds \<circ> fst) bs"
    using rest [of k pd] by blast
  have "list_all (delete_action names (q # pds) \<circ> fst) as"
    using a(2,3) by (auto simp: list_all_iff delete_action_def split: action.splits)
  moreover have "list_all (delete_action names (q # pds) \<circ> fst) bs"
    using b(2) by (auto simp: list_all_iff delete_action_def split: action.splits)
  ultimately have acts: "\<exists>acts. tr' = tr @ acts \<and> list_all (delete_action names (q # pds) \<circ> fst) acts"
    using a(1) b(1) by (intro exI [of _ "as @ bs"]) simp
  obtain es fs where e: "errs1 = errs @ es" "errs' = errs1 @ fs" using one(3) rest [of k pd] by blast
  have frame: "decs tr' k = decs tr k \<or>
      (\<exists>pd \<in> set (q # pds). k = pd_key pd \<and> \<not> sets_has names (Name pd)) \<and> decs tr' k = None"
    using one(2) [of k] rest [of k pd] by auto
  have gone: "decs tr' (pd_key pd) = None"
    if "errs' = errs" "pd \<in> set (q # pds)" "\<not> sets_has names (Name pd)"
  proof (cases "pd = q")
    case True
    then have "decs tr1 (pd_key pd) = None" using one(4) e that by simp
    then show ?thesis using rest [of "pd_key pd" pd] by auto
  next
    case False
    then show ?thesis using rest [of k pd] e that by auto
  qed
  have "\<exists>es. errs' = errs @ es" using e by simp
  with acts frame gone show ?case by blast
qed (auto simp: delete_action_def)

text \<open>Every redundant object is asked to be deleted.\<close>

lemma delete_loop_calls:
  "foldl (delete_redundant c p names) (errs, tr) pds = (errs', tr @ acts) \<Longrightarrow> pd \<in> set pds \<Longrightarrow> \<not> sets_has names (Name pd) \<Longrightarrow>
     DeletePD (Namespace pd) (Name pd) \<in> fst ` set acts"
proof (induction pds arbitrary: errs tr acts)
  case (Cons q pds)
  obtain errs1 tr1 where 1: "delete_redundant c p names (errs, tr) q = (errs1, tr1)" by fastforce
  then have f: "foldl (delete_redundant c p names) (errs1, tr1) pds = (errs', tr @ acts)" using Cons.prems(1) by simp
  obtain as bs where a: "tr1 = tr @ as" "tr @ acts = tr1 @ bs" using delete_one(1) [OF 1] delete_loop(1) [OF f] by blast
  show ?case
  proof (cases "pd = q")
    case True
    then have "DeletePD (Namespace pd) (Name pd) \<in> fst ` set as"
      using 1 a(1) Cons.prems(3) by (auto simp: delete_redundant_def Let_def event_def split: option.splits if_splits)
    then show ?thesis using a by auto
  next
    case False
    then have "DeletePD (Namespace pd) (Name pd) \<in> fst ` set bs"
      using Cons.IH [of errs1 tr1 bs] f a(2) Cons.prems by simp
    then show ?thesis using a by auto
  qed
qed simp

lemma bind_cases:
  assumes "bind c p ds sc st tr = (er, tr')"
  defines "slices \<equiv> decision_slices (sort_key ClusterName ds)"
  obtains (writes) errs names where
      "foldl (bind_slice c p sc st) ([], [], tr) (enumerate 0 slices) = (errs, names, tr')" "er \<noteq> None"
      "errs \<noteq> [] \<or> isl (equals_selector PlacementLabel (Name p)) \<or>
         (\<exists>sel. equals_selector PlacementLabel (Name p) = Inr sel \<and>
           isl (ns_list (placementDecisionLister c tr') (Namespace p) sel))"
    | (deletes) names tr1 sel pds errs where
      "foldl (bind_slice c p sc st) ([], [], tr) (enumerate 0 slices) = ([], names, tr1)"
      "equals_selector PlacementLabel (Name p) = Inr sel"
      "ns_list (placementDecisionLister c tr1) (Namespace p) sel = Inr pds"
      "foldl (delete_redundant c p names) ([], tr1) pds = (errs, tr')" "er = None \<longleftrightarrow> errs = []"
proof -
  obtain errs names tr1 where f:
    "foldl (bind_slice c p sc st) ([], [], tr) (enumerate 0 slices) = (errs, names, tr1)"
    by (metis prod_cases3)
  note b = assms(1) [unfolded bind_def Let_def name_sorted slices_def [symmetric] f, simplified]
  show thesis
  proof (cases "errs = []")
    case False
    then show thesis using b f writes by (auto simp: NewMultiLineAggregate_def)
  next
    case errs: True
    show thesis
    proof (cases "equals_selector PlacementLabel (Name p)")
      case (Inl e)
      then have "er = Some (SetErrText (cenv c) e)" "tr' = tr1" using b errs by simp_all
      then show thesis using f errs Inl writes by simp
    next
      case sel: (Inr sel)
      show thesis
      proof (cases "ns_list (placementDecisionLister c tr1) (Namespace p) sel")
        case (Inl e)
        then have "er = Some (api_err_text e)" "tr' = tr1" using b errs sel by simp_all
        then show thesis using f errs sel Inl writes by simp
      next
        case (Inr pds)
        obtain errs' tr2 where d: "foldl (delete_redundant c p names) ([], tr1) pds = (errs', tr2)" by fastforce
        then have "er = NewMultiLineAggregate errs'" "tr' = tr2" using b f errs sel Inr by simp_all
        then show thesis using deletes [OF f [unfolded errs] sel Inr, of errs'] d
          by (auto simp: NewMultiLineAggregate_def)
      qed
    qed
  qed
qed

lemma bind_trace:
  assumes b: "bind c p ds sc st tr = (er, tr')" and s: "slash \<notin> set (Namespace p)" "Namespace p \<noteq> []"
  defines "slices \<equiv> decision_slices (sort_key ClusterName ds)"
  shows "\<exists>ws dels pds. tr' = tr @ ws @ dels \<and> list_all (slice_action p slices \<circ> fst) ws \<and>
    list_all (redundant_action p slices pds \<circ> fst) dels \<and> (dels \<noteq> [] \<longrightarrow> list_all snd ws) \<and>
    (er = None \<longrightarrow> (\<forall>d \<in> set pds. redundant p slices d \<longrightarrow> DeletePD (Namespace d) (Name d) \<in> fst ` set dels)) \<and>
    (dels \<noteq> [] \<or> er = None \<longrightarrow> (\<exists>sel. equals_selector PlacementLabel (Name p) = Inr sel \<and>
      ns_list (placementDecisionLister c (tr @ ws)) (Namespace p) sel = Inr pds))"
  using b
proof (cases rule: bind_cases)
  case (writes errs names)
  then obtain ws where "tr' = tr @ ws" "list_all (slice_action p slices \<circ> fst) ws"
    using bind_loop(2) [OF writes(1) s(1)] unfolding slices_def by blast
  then show ?thesis
    by - (rule exI [of _ ws], rule exI [of _ "[]"], rule exI [of _ "[]"], simp add: writes(2))
next
  case (deletes names tr1 sel pds errs)
  note loop = bind_loop [OF deletes(1) s(1)]
  obtain ws where ws: "tr1 = tr @ ws" "list_all (slice_action p slices \<circ> fst) ws" "list_all snd ws"
    using loop(2) unfolding slices_def by blast
  obtain dels where dels: "tr' = tr1 @ dels" "list_all (delete_action names pds \<circ> fst) dels"
    using delete_loop(1) [OF deletes(4)] by blast
  have r: "redundant p slices d \<longleftrightarrow> \<not> sets_has names (Name d)" if "d \<in> set pds" for d
    using list_key [OF s(2) deletes(3) that] equals_selector_matches [OF deletes(2)] loop(1)
    by (auto simp: redundant_def slices_def)
  then have "redundant_action p slices pds a" if "delete_action names pds a" for a
    using that by (fastforce simp: delete_action_def redundant_action_def split: action.splits)
  then have "list_all (redundant_action p slices pds \<circ> fst) dels"
    using dels(2) by (simp add: list_all_iff)
  moreover have "DeletePD (Namespace d) (Name d) \<in> fst ` set dels" if "d \<in> set pds" "redundant p slices d" for d
    using delete_loop_calls [OF deletes(4) [unfolded dels(1)] that(1)] r that by blast
  ultimately show ?thesis
    by - (rule exI [of _ ws], rule exI [of _ dels], rule exI [of _ pds], use ws dels(1) deletes(2,3) in simp)
qed

lemma bind_inv:
  assumes b: "bind c p ds sc st tr = (er, tr')" and s: "slash \<notin> set (Namespace p)"
    and inv: "decisions_inv (decs tr)"
  shows "decisions_inv (decs tr')"
  using b
proof (cases rule: bind_cases)
  case (writes errs names)
  then show ?thesis using bind_loop(4) [OF writes(1) s inv] by (simp add: decision_slices_bound)
next
  case (deletes names tr1 sel pds errs)
  have "decisions_inv (decs tr1)"
    using bind_loop(4) [OF deletes(1) s inv] by (simp add: decision_slices_bound)
  moreover have "decs tr' k = Some d \<Longrightarrow> decs tr1 k = Some d" for k d
    using delete_loop(2) [OF deletes(4), of k] by auto
  ultimately show ?thesis unfolding decisions_inv_def by blast
qed

lemma bind_other_namespace:
  assumes b: "bind c p ds sc st tr = (er, tr')" and s: "slash \<notin> set (Namespace p)" "Namespace p \<noteq> []"
    and k: "fst k \<noteq> Namespace p"
  shows "decs tr' k = decs tr k"
proof -
  have nk: "k \<noteq> (Namespace p, decision_name (Name p) (i + 1))" for i using k by auto
  show ?thesis
  using b
proof (cases rule: bind_cases)
  case (writes errs names)
  show ?thesis by (rule bind_loop(3) [OF writes(1) s(1) nk])
next
  case (deletes names tr1 sel pds errs)
  have "decs tr1 k = decs tr k" by (rule bind_loop(3) [OF deletes(1) s(1) nk])
  moreover have "decs tr' k = decs tr1 k"
    using delete_loop(2) [OF deletes(4), of k] list_key [OF s(2) deletes(3)] k by (auto simp: pd_key_def)
  ultimately show ?thesis by simp
qed
qed

end

context fresh_api
begin

lemma listed_iff:
  assumes "ns \<noteq> []" "equals_selector PlacementLabel pn = Inr sel"
    "ns_list (placementDecisionLister c tr) ns sel = Inr pds"
  shows "d \<in> set pds \<longleftrightarrow> decs tr (pd_key d) = Some d \<and> Namespace d = ns \<and> label_of d = Some pn"
proof -
  have "set pds = {d. \<exists>n. decs tr (ns, n) = Some d \<and> Matches sel (ObjLabels d)}"
    using list_fresh [OF assms(1), of tr sel] assms(3) by simp
  moreover have "(\<exists>n. decs tr (ns, n) = Some d) \<longleftrightarrow> decs tr (pd_key d) = Some d \<and> Namespace d = ns"
    using holds_key [of tr _ d] by (auto simp: pd_key_def)
  ultimately show ?thesis using equals_selector_matches [OF assms(2)] by auto
qed

lemma createOrUpdate_fresh:
  assumes "createOrUpdatePlacementDecision c p n ds sc st tr = (None, tr')" "slash \<notin> set (Namespace p)"
  shows "\<exists>d. decs tr' (Namespace p, n) = Some d \<and> Decisions d = ds"
proof -
  obtain r tr1 where g: "get_or_create c p n tr = (r, tr1)" by fastforce
  then obtain d where r: "r = Inr d" and short: "\<not> length ds > maxNumOfClusterDecisions"
    using assms by (auto simp: createOrUpdatePlacementDecision_def split: if_splits sum.splits)
  have d: "pd_key d = (Namespace p, n)" "decs tr1 (Namespace p, n) = Some d"
  proof -
    show "pd_key d = (Namespace p, n)" using get_or_create_effect [OF g assms(2)] r by auto
    show "decs tr1 (Namespace p, n) = Some d"
    proof (cases "decs tr (Namespace p, n)")
      case None
      then have "client_CreatePD (client c) tr (new_decision p n) = Inr d"
        and "tr1 = event ''Normal'' ''DecisionCreate'' ''DecisionCreated''
                  (decision_note ''created'' (Name d) p) (tr @ [(CreatePD (new_decision p n), True)])"
        using g r assms(2) by (auto simp: get_or_create_def get_fresh Let_def split: sum.splits)
      then show ?thesis using created [of tr "new_decision p n" d] by simp
    qed (use g r assms(2) in \<open>auto simp: get_or_create_def get_fresh\<close>)
  qed
  show ?thesis
  proof (cases "Decisions d = ds")
    case True
    then show ?thesis using assms g r d short by (auto simp: createOrUpdatePlacementDecision_def)
  next
    case False
    then obtain r' where u: "client_UpdatePDStatus (client c) tr1 (d\<lparr>Decisions := ds\<rparr>) = Inr r'"
      "tr' = update_events c p (Name d) sc st (tr1 @ [(UpdatePDStatus (d\<lparr>Decisions := ds\<rparr>), True)])"
      using assms g r short by (auto simp: createOrUpdatePlacementDecision_def Let_def split: sum.splits)
    then show ?thesis using updated [OF u(1)] d(1) by auto
  qed
qed

lemma bind_loop_fresh:
  assumes "foldl (bind_slice c p sc st) ([], [], tr) (enumerate 0 slices) = ([], names', tr')"
    and s: "slash \<notin> set (Namespace p)" and i: "i < length slices"
  shows "\<exists>d. decs tr' (Namespace p, decision_name (Name p) (i + 1)) = Some d \<and> Decisions d = slices ! i"
proof -
  let ?I = "\<lambda>n (errs :: string list) (names :: string list) tr. errs = [] \<longrightarrow> (\<forall>i < n. \<exists>d.
    decs tr (Namespace p, decision_name (Name p) (i + 1)) = Some d \<and> Decisions d = slices ! i)"
  have "?I (length slices) [] names' tr'"
  proof (rule bind_loop_rule [OF assms(1), where I = ?I])
    fix k names tr1 er tr2 and errs :: "string list"
    assume k: "k < length slices" and I: "?I k errs names tr1" and
      g: "createOrUpdatePlacementDecision c p (decision_name (Name p) (k + 1)) (slices ! k) sc st tr1 = (er, tr2)"
    show "?I (Suc k) (case er of None \<Rightarrow> errs | Some e \<Rightarrow> errs @ [e])
        (sets_insert names (decision_name (Name p) (k + 1))) tr2"
    proof (intro impI allI)
      fix i
      assume e: "(case er of None \<Rightarrow> errs | Some e \<Rightarrow> errs @ [e]) = []" and i: "i < Suc k"
      then have er: "er = None" "errs = []" by (simp_all split: option.splits)
      show "\<exists>d. decs tr2 (Namespace p, decision_name (Name p) (i + 1)) = Some d \<and> Decisions d = slices ! i"
      proof (cases "i = k")
        case True
        then show ?thesis using createOrUpdate_fresh g er(1) s by simp
      next
        case False
        then have "decs tr2 (Namespace p, decision_name (Name p) (i + 1)) =
            decs tr1 (Namespace p, decision_name (Name p) (i + 1))"
          using createOrUpdate_effect [OF g s] by (intro touched_other) auto
        then show ?thesis using I er(2) i False by simp
      qed
    qed
  qed simp
  then show ?thesis using i by simp
qed

text \<open>No other placement's decisions change, with errors or without.\<close>

lemma bind_views_frame:
  assumes b: "bind c p ds sc st tr = (er, tr')" and s: "slash \<notin> set (Namespace p)" "Namespace p \<noteq> []"
    and inv: "decisions_inv (decs tr)" and k: "k \<noteq> placement_key p"
  shows "decisions_view (decs tr') k = decisions_view (decs tr) k"
proof
  fix n
  show "decisions_view (decs tr') k n = decisions_view (decs tr) k n"
  proof (cases "fst k = Namespace p")
    case False
    then show ?thesis using bind_other_namespace [OF b s, of "(fst k, n)"]
      by (simp add: decisions_view_def)
  next
    case ns: True
    then have pn: "snd k \<noteq> Name p" using k by (cases k) (simp add: placement_key_def)
    have inv': "decisions_inv (decs tr')" by (rule bind_inv [OF b s(1) inv])
    have none: "decisions_view (decs t) k n = None"
      if "decisions_inv (decs t)" "\<exists>i. n = decision_name (Name p) (i + 1)" for t
      using that(2) pn decisions_invD(2) [OF that(1), of "fst k" n _ "snd k"]
      by (auto simp: decisions_view_def split: option.splits)
    show ?thesis
    proof (cases "\<exists>i. n = decision_name (Name p) (i + 1)")
      case True
      then show ?thesis using none [OF inv True] none [OF inv' True] by simp
    next
      case False
      then have nk: "(Namespace p, n) \<noteq> (Namespace p, decision_name (Name p) (i + 1))" for i by auto
      show ?thesis
        using b
      proof (cases rule: bind_cases)
        case (writes errs names)
        show ?thesis using bind_loop(3) [OF writes(1) s(1) nk] ns by (simp add: decisions_view_def)
      next
        case (deletes names tr1 sel pds errs)
        have 1: "decs tr1 (Namespace p, n) = decs tr (Namespace p, n)"
          by (rule bind_loop(3) [OF deletes(1) s(1) nk])
        have "d \<in> set pds \<Longrightarrow> decs tr1 (pd_key d) = Some d \<and> label_of d = Some (Name p)" for d
          using listed_iff [OF s(2) deletes(2,3)] by simp
        then have "decs tr' (Namespace p, n) = decs tr1 (Namespace p, n) \<or>
            (\<exists>d. decs tr1 (Namespace p, n) = Some d \<and> label_of d = Some (Name p)) \<and>
              decs tr' (Namespace p, n) = None"
          using delete_loop(2) [OF deletes(4), of "(Namespace p, n)"] by force
        then show ?thesis using 1 ns pn by (auto simp: decisions_view_def)
      qed
    qed
  qed
qed

text \<open>A run without errors is the assignment of the wanted decisions.\<close>

lemma bind_refines:
  assumes b: "bind c p ds sc st tr = (None, tr')" and s: "slash \<notin> set (Namespace p)" "Namespace p \<noteq> []"
    and inv: "decisions_inv (decs tr)"
  shows "decisions_view (decs tr') = (decisions_view (decs tr))(placement_key p := wanted_decisions p ds)"
proof
  fix k
  show "decisions_view (decs tr') k =
      ((decisions_view (decs tr))(placement_key p := wanted_decisions p ds)) k"
  proof (cases "k = placement_key p")
    case False
    then show ?thesis using bind_views_frame [OF b s inv] by simp
  next
    case True
    have inv': "decisions_inv (decs tr')" by (rule bind_inv [OF b s(1) inv])
    have "decisions_view (decs tr') (placement_key p) n = wanted_decisions p ds n" for n
      using b
    proof (cases rule: bind_cases)
      case (deletes names tr1 sel pds errs)
      let ?slices = "decision_slices (sort_key ClusterName ds)" and ?k = "(Namespace p, n)"
      have errs: "errs = []" using deletes(5) by simp
      note names = bind_loop(1) [OF deletes(1) s(1)]
      show ?thesis
      proof (cases "\<exists>i < length ?slices. n = decision_name (Name p) (i + 1)")
        case True
        then obtain i where i: "i < length ?slices" "n = decision_name (Name p) (i + 1)" by blast
        obtain d where d: "decs tr1 ?k = Some d" "Decisions d = ?slices ! i"
          using bind_loop_fresh [OF deletes(1) s(1) i(1)] i(2) by auto
        have "n \<in> set names" using names i by auto
        then have "decs tr' ?k = Some d"
          using delete_loop(2) [OF deletes(4), of ?k] d(1) by (auto simp: pd_key_def)
        moreover have "label_of d = Some (Name p)"
          using decisions_invD(2) [OF inv' calculation, of "Name p"] i(2) by auto
        moreover have "wanted_decisions p ds n = Some (?slices ! i)"
          using i by (auto simp: wanted_decisions_Some)
        ultimately show ?thesis using d(2) by (simp add: decisions_view_def placement_key_def)
      next
        case False
        then have w: "wanted_decisions p ds n = None"
          by (metis not_None_eq wanted_decisions_Some)
        have "label_of d \<noteq> Some (Name p)" if d: "decs tr' ?k = Some d" for d
        proof
          assume l: "label_of d = Some (Name p)"
          have d1: "decs tr1 ?k = Some d" using delete_loop(2) [OF deletes(4), of ?k] d by auto
          then have k: "pd_key d = ?k" by (rule holds_key)
          then have "d \<in> set pds" using listed_iff [OF s(2) deletes(2,3), of d] d1 l by (simp add: pd_key_def)
          moreover have "\<not> sets_has names (Name d)" using False names k by (auto simp: pd_key_def)
          ultimately have "decs tr' (pd_key d) = None" using delete_loop(4) [OF deletes(4)] errs by simp
          then show False using d k by simp
        qed
        then show ?thesis using w by (auto simp: decisions_view_def placement_key_def split: option.splits)
      qed
    qed simp
    then show ?thesis using True by auto
  qed
qed

lemma createOrUpdate_same:
  assumes "decs tr (Namespace p, n) = Some d" "Decisions d = ds" "length ds \<le> 100" "slash \<notin> set (Namespace p)"
  shows "createOrUpdatePlacementDecision c p n ds sc st tr = (None, tr)"
  using assms by (simp add: createOrUpdatePlacementDecision_def maxNumOfClusterDecisions_def
      get_or_create_def get_fresh)

end

context fresh_api
begin

text \<open>Where the decisions are already the wanted ones, nothing is called.\<close>

lemma bind_idle:
  assumes s: "slash \<notin> set (Namespace p)" "Namespace p \<noteq> []"
    and l: "is_valid_label_value (Name p)"
    and v: "decisions_view (decs tr) (placement_key p) = wanted_decisions p ds"
  shows "bind c p ds sc st tr = (None, tr)"
proof -
  let ?slices = "decision_slices (sort_key ClusterName ds)"
  have stored: "\<exists>d. decs tr (Namespace p, decision_name (Name p) (i + 1)) = Some d \<and> Decisions d = ?slices ! i"
    if "i < length ?slices" for i
  proof -
    have "decisions_view (decs tr) (placement_key p) (decision_name (Name p) (i + 1)) = Some (?slices ! i)"
      using that by (auto simp: v wanted_decisions_Some)
    then show ?thesis by (auto simp: decisions_view_def placement_key_def split: option.splits if_splits)
  qed
  obtain errs names tr1 where f:
    "foldl (bind_slice c p sc st) ([], [], tr) (enumerate 0 ?slices) = (errs, names, tr1)"
    by (metis prod_cases3)
  have e: "errs = [] \<and> tr1 = tr"
  proof (rule bind_loop_rule [OF f, where I = "\<lambda>n errs names tr1. errs = [] \<and> tr1 = tr"])
    fix k names tr1 er tr2 and errs :: "string list"
    assume k: "k < length ?slices" and I: "errs = [] \<and> tr1 = tr" and
      g: "createOrUpdatePlacementDecision c p (decision_name (Name p) (k + 1)) (?slices ! k) sc st tr1 = (er, tr2)"
    have "length (?slices ! k) \<le> 100" by (rule decision_slices_bound [OF nth_mem [OF k]])
    then have "er = None \<and> tr2 = tr" using stored [OF k] createOrUpdate_same s(1) I g by fastforce
    then show "(case er of None \<Rightarrow> errs | Some e \<Rightarrow> errs @ [e]) = [] \<and> tr2 = tr" using I by simp
  qed simp
  obtain sel where sel: "equals_selector PlacementLabel (Name p) = Inr sel"
    using equals_selector_ok [OF _ l, of PlacementLabel] placement_label_ok by blast
  obtain pds where pds: "ns_list (placementDecisionLister c tr) (Namespace p) sel = Inr pds"
    using list_fresh [OF s(2)] by blast
  have keep: "sets_has names (Name d)" if "d \<in> set pds" for d
  proof -
    have "decs tr (Namespace p, Name d) = Some d \<and> label_of d = Some (Name p)"
      using that listed_iff [OF s(2) sel pds, of d] by (auto simp: pd_key_def)
    then have "decisions_view (decs tr) (placement_key p) (Name d) = Some (Decisions d)"
      by (simp add: decisions_view_def placement_key_def)
    then obtain i where "i < length ?slices" "Name d = decision_name (Name p) (i + 1)"
      by (auto simp: v wanted_decisions_Some)
    then show ?thesis using bind_loop(1) [OF f s(1)] by auto
  qed
  have "foldl (delete_redundant c p names) (es, t) pds = (es, t)" for es t
    using keep by (induction pds) (auto simp: delete_redundant_def)
  then show ?thesis
    using f e sel pds by (simp add: bind_def Let_def name_sorted NewMultiLineAggregate_def)
qed

end

context reliable_api
begin

lemma createOrUpdate_succeeds:
  assumes "wf_meta p" "slash \<notin> set n" "length ds \<le> 100"
  shows "fst (createOrUpdatePlacementDecision c p n ds sc st tr) = None"
proof -
  have s: "slash \<notin> set (Namespace p)" and w: "wf_meta (new_decision p n)"
    using assms by (simp_all add: wf_meta_def new_decision_def)
  have "\<exists>d tr1. get_or_create c p n tr = (Inr d, tr1)"
  proof (cases "decs tr (Namespace p, n)")
    case None
    then obtain r where "client_CreatePD (client c) tr (new_decision p n) = Inr r"
      using creates [OF w, of tr] by auto
    then show ?thesis using None s by (simp add: get_or_create_def get_fresh Let_def)
  qed (simp add: get_or_create_def get_fresh s)
  then obtain d tr1 where g: "get_or_create c p n tr = (Inr d, tr1)" by blast
  have "pd_key d = (Namespace p, n)" using get_or_create_effect [OF g s] by auto
  moreover have "\<exists>d1. decs tr1 (Namespace p, n) = Some d1"
  proof (cases "decs tr (Namespace p, n)")
    case None
    then show ?thesis using g s get_or_create_effect [OF g s]
      by (auto simp: get_or_create_def get_fresh Let_def split: sum.splits dest!: created)
  qed (use g s in \<open>auto simp: get_or_create_def get_fresh\<close>)
  ultimately have "\<exists>r. client_UpdatePDStatus (client c) tr1 (d\<lparr>Decisions := ds\<rparr>) = Inr r"
    using updates [of tr1 "d\<lparr>Decisions := ds\<rparr>"] by auto
  then show ?thesis using assms(3) g
    by (auto simp: createOrUpdatePlacementDecision_def maxNumOfClusterDecisions_def Let_def)
qed

lemma bind_succeeds:
  assumes w: "wf_meta p" and l: "is_valid_label_value (Name p)"
  shows "fst (bind c p ds sc st tr) = None"
proof -
  have s: "slash \<notin> set (Namespace p)" "Namespace p \<noteq> []" "slash \<notin> set (Name p)"
    using w by (simp_all add: wf_meta_def)
  note deletes_law = deletes and deletes_missing_law = deletes_missing
  obtain er tr' where b: "bind c p ds sc st tr = (er, tr')" by fastforce
  have no_errs: "errs = []" if f: "foldl (bind_slice c p sc st) ([], [], tr)
      (enumerate 0 (decision_slices (sort_key ClusterName ds))) = (errs, names, t)" for errs names t
  proof (rule bind_loop_rule [OF f, where I = "\<lambda>n errs names tr. errs = []"])
    fix k names tr1 er tr2 and errs :: "string list"
    assume k: "k < length (decision_slices (sort_key ClusterName ds))" and I: "errs = []" and
      g: "createOrUpdatePlacementDecision c p (decision_name (Name p) (k + 1))
        (decision_slices (sort_key ClusterName ds) ! k) sc st tr1 = (er, tr2)"
    have "fst (createOrUpdatePlacementDecision c p (decision_name (Name p) (k + 1))
        (decision_slices (sort_key ClusterName ds) ! k) sc st tr1) = None"
      by (rule createOrUpdate_succeeds [OF w]) (use s(3) decision_slices_bound [OF nth_mem [OF k]] in simp_all)
    then show "(case er of None \<Rightarrow> errs | Some e \<Rightarrow> errs @ [e]) = []" using I g by simp
  qed simp
  have "er = None"
    using b
  proof (cases rule: bind_cases)
    case (writes errs names)
    obtain sel where sel: "equals_selector PlacementLabel (Name p) = Inr sel"
      using equals_selector_ok [OF _ l, of PlacementLabel] placement_label_ok by blast
    obtain pds where "ns_list (placementDecisionLister c tr') (Namespace p) sel = Inr pds"
      using list_fresh [OF s(2)] by blast
    then show ?thesis using writes(3) no_errs [OF writes(1)] sel by simp
  next
    case (deletes names tr1 sel pds errs)
    have "fst (foldl (delete_redundant c p names) ([], t) pds) = []" for t
    proof (induction pds arbitrary: t)
      case (Cons pd pds)
      have "\<exists>t'. delete_redundant c p names ([], t) pd = ([], t')"
        using deletes_law [of t "Namespace pd" "Name pd"] deletes_missing_law [of t "Namespace pd" "Name pd"]
        by (cases "decs t (Namespace pd, Name pd)") (auto simp: delete_redundant_def Let_def)
      then show ?case using Cons.IH by force
    qed simp
    then show ?thesis using deletes(4,5) by (metis fst_conv)
  qed
  then show ?thesis using b by simp
qed

end

end
