(* ===== verification/BindProps.thy ===== *)
theory BindProps
  imports Bind Samples
begin

text \<open>
  The properties of \<open>bind\<close> on the API server of \<open>ApiServer\<close>: the contracts proved for the
  locales, stated over the code's own definitions, with concrete runs.
\<close>

section \<open>A concrete controller\<close>

definition sample_cenv :: ControllerEnv where
  "sample_cenv = \<lparr>AvailableOrder = (\<lambda>xs. xs), ScoreRange = (\<lambda>m. []), StatusNow = (\<lambda>t. 1000),
     SetErrText = (\<lambda>e. ''invalid selector''), ShowQ = show_nat\<rparr>"

definition sample_controller ::
  "ManagedCluster list \<Rightarrow> ManagedClusterSet list \<Rightarrow> ManagedClusterSetBinding list \<Rightarrow> Placement list \<Rightarrow>
     (trace \<Rightarrow> Placement \<Rightarrow> ManagedCluster list \<Rightarrow> (scheduleResult \<times> Status) option) \<Rightarrow> schedulingController" where
  "sample_controller clusters sets bindings placements sched =
     \<lparr>client = server_client (\<lambda>_ _. None) [],
      clusterLister = cache_cl_lister ''managedclusters'' clusters,
      clusterSetLister = cache_cl_lister ''managedclustersets'' sets,
      clusterSetBindingLister = cache_ns_lister ''managedclustersetbindings'' bindings,
      placementLister = (\<lambda>tr. cache_ns_lister ''placements'' placements),
      placementDecisionLister = (\<lambda>tr. cache_ns_lister ''placementdecisions'' []),
      scheduler = sched, cenv = sample_cenv\<rparr>"

definition no_failures :: failures where
  "no_failures = (\<lambda>tr a. None)"

definition decide :: "string list \<Rightarrow> ClusterDecision list" where
  "decide ns = map (\<lambda>n. \<lparr>ClusterName = n, DecisionReason = ''''\<rparr>) ns"

definition bound_trace :: "trace" where
  "bound_trace = snd (bind (fresh_server (sample_controller [] [] [] [] (\<lambda>_ _ _. None)) no_failures [])
     (NewPlacement ''ns'' ''p'') (decide [''c2'', ''c1'']) Map.empty (NewStatus '''' Success []) [])"

lemma sample_p_wf: "wf_meta (NewPlacement ''ns'' ''p'')"
  by (simp add: wf_meta_def slash_def)

lemma sample_p_label: "is_valid_label_value (Name (NewPlacement ''ns'' ''p''))"
  by code_simp

lemma bound_trace_run:
  "bind (fresh_server (sample_controller [] [] [] [] (\<lambda>_ _ _. None)) no_failures [])
     (NewPlacement ''ns'' ''p'') (decide [''c2'', ''c1'']) Map.empty (NewStatus '''' Success []) []
   = (None, bound_trace)"
  using reliable.bind_succeeds [OF sample_p_wf sample_p_label]
  unfolding bound_trace_def no_failures_def by (metis prod.collapse)

lemma empty_store_inv [simp]: "decisions_inv (decs_of [] [])"
  by (simp add: decisions_inv_def decs_of_def lookup_def admit_def)

section \<open>Slices and names\<close>

text \<open>C13: the decisions are written in order of cluster name, 100 to a PlacementDecision: the slices
  of the sorted decisions are their blocks of 100, none is longer, only the last one may be shorter,
  and there is always one, empty when there are no decisions.\<close>

theorem decision_slices_spec:
  fixes ds :: "ClusterDecision list"
  defines "slices \<equiv> decision_slices (slice_stable name_less ds)"
  shows "concat slices = sort_key ClusterName ds \<and>
    length slices = max 1 ((length ds + 99) div 100) \<and>
    (\<forall>i < length slices. slices ! i = take 100 (drop (100 * i) (sort_key ClusterName ds)))"
  unfolding slices_def name_sorted
  by (simp add: length_decision_slices decision_slices_nth)

theorem decision_slices_spec_witness:
  "map length (decision_slices (slice_stable name_less (decide (replicate 205 ''c'')))) = [100, 100, 5] \<and>
   decision_slices (slice_stable name_less []) = [[]]"
proof -
  let ?ds = "decide (replicate 205 ''c'')"
  have l: "length ?ds = 205" by (simp add: decide_def)
  let ?ss = "decision_slices (slice_stable name_less ?ds)"
  note spec = decision_slices_spec [of ?ds]
  have n: "length ?ss = 3" using conjunct1 [OF conjunct2 [OF spec]] l by simp
  then obtain a b d where abd: "?ss = [a, b, d]" by (auto simp: length_Suc_conv numeral_3_eq_3)
  have "length (?ss ! i) = (if i < 2 then 100 else 5)" if "i < 3" for i
    using conjunct2 [OF conjunct2 [OF spec], unfolded n] that l
    by (simp only: length_take length_drop length_sort) (auto simp: min_def)
  from this [of 0] this [of 1] this [of 2] have "map length ?ss = [100, 100, 5]"
    unfolding abd by simp
  moreover have "decision_slices (slice_stable name_less []) = [[]]"
    by (simp add: name_sorted decision_slices_def split_decisions_simps)
  ultimately show ?thesis by simp
qed

text \<open>C14: the key under which the controller queues a change of a PlacementDecision it has created
  is the key of the placement, which splits back into the placement's namespace and name; different
  placements never share the name of a PlacementDecision.\<close>

theorem decision_key_roundtrip:
  assumes "wf_meta p"
  shows "decision_filter (new_decision p (decision_name (Name p) i)) \<and>
    decision_queue_key (new_decision p (decision_name (Name p) i)) = placement_queue_key p \<and>
    SplitMetaNamespaceKey (placement_queue_key p) = Some (Namespace p, Name p) \<and>
    (decision_name (Name p) i = decision_name (Name q) j \<longrightarrow> Name p = Name q \<and> i = j)"
  using assms SplitMetaNamespaceKey_key [OF assms]
  by (simp add: decision_filter_def decision_queue_key_def new_decision_def placement_queue_key_def
      MetaNamespaceKey_def wf_meta_def)

theorem decision_key_roundtrip_witness:
  "SplitMetaNamespaceKey (decision_queue_key
      (new_decision (NewPlacement ''ns'' ''p'') (decision_name (Name (NewPlacement ''ns'' ''p'')) 1)))
     = Some (''ns'', ''p'')"
  using decision_key_roundtrip [OF sample_p_wf, of 1 "NewPlacement ''ns'' ''p''" 1] by simp

text \<open>C26: the note of a score event stays within the 1024 characters an event may have; it is cut, and
  marked with dots, only when the scores do not fit into 1000 characters.\<close>

theorem score_note_bounded:
  "length (score_text '''' scores) \<le> maxEventMessageLength + 6 \<and> maxEventMessageLength + 6 < 1024 \<and>
    (length (concat (map (\<lambda>(k, v). k @ '':'' @ show_int (sint v) @ '' '') scores)) \<le> maxEventMessageLength \<longrightarrow>
      score_text '''' scores = concat (map (\<lambda>(k, v). k @ '':'' @ show_int (sint v) @ '' '') scores))"
proof -
  have "length acc \<le> maxEventMessageLength \<Longrightarrow> length (score_text acc scores) \<le> maxEventMessageLength + 6" for acc
    by (induction acc scores rule: score_text.induct) (simp_all add: Let_def)
  moreover have "length (acc @ concat (map (\<lambda>(k, v). k @ '':'' @ show_int (sint v) @ '' '') scores)) \<le>
      maxEventMessageLength \<Longrightarrow>
      score_text acc scores = acc @ concat (map (\<lambda>(k, v). k @ '':'' @ show_int (sint v) @ '' '') scores)" for acc
    by (induction acc scores rule: score_text.induct) (simp_all add: Let_def)
  from this [of "[]"] calculation [of "[]"] show ?thesis by (simp add: maxEventMessageLength_def)
qed

theorem score_note_bounded_witness:
  "score_text '''' [(''c1'', 100), (''c2'', - 7)] =
     concat (map (\<lambda>(k, v). k @ '':'' @ show_int (sint v) @ '' '') [(''c1'', 100 :: int64), (''c2'', - 7)])"
proof -
  have l: "length (concat (map (\<lambda>(k, v). k @ '':'' @ show_int (sint v) @ '' '')
      [(''c1'', 100 :: int64), (''c2'', - 7)])) \<le> maxEventMessageLength" by code_simp
  show ?thesis by (rule mp [OF conjunct2 [OF conjunct2 [OF score_note_bounded]] l])
qed

section \<open>Calls and their order\<close>

text \<open>C11: whatever the API server answers and whatever a stale cache shows, \<open>bind\<close> writes only
  PlacementDecisions named after the placement, each with its slice of at most 100 decisions, in its
  namespace; then it deletes only redundant objects: those that the cache shows, after the writes, in
  the namespace with the label of the placement, and whose name is not current; no object is deleted
  after a write has failed; and when \<open>bind\<close> returns no error, it has asked for the deletion of every
  redundant object the cache shows.\<close>

theorem bind_order_safe:
  assumes "bind (on_server c fails s0 shown) p ds sc st tr = (er, tr')" "wf_meta p"
  shows "\<exists>ws dels. tr' = tr @ ws @ dels \<and>
    list_all (slice_action p (decision_slices (sort_key ClusterName ds)) \<circ> fst) ws \<and>
    list_all (redundant_action p (decision_slices (sort_key ClusterName ds)) (admit (shown (tr @ ws))) \<circ> fst) dels \<and>
    (dels \<noteq> [] \<longrightarrow> list_all snd ws) \<and>
    (er = None \<longrightarrow> (\<forall>d \<in> set (admit (shown (tr @ ws))). redundant p (decision_slices (sort_key ClusterName ds)) d \<longrightarrow>
      DeletePD (Namespace d) (Name d) \<in> fst ` set dels))"
proof -
  let ?ss = "decision_slices (sort_key ClusterName ds)"
  have ns: "slash \<notin> set (Namespace p)" "Namespace p \<noteq> []" using assms(2) by (simp_all add: wf_meta_def)
  obtain ws dels pds where b: "tr' = tr @ ws @ dels" "list_all (slice_action p ?ss \<circ> fst) ws"
    "list_all (redundant_action p ?ss pds \<circ> fst) dels" "dels \<noteq> [] \<longrightarrow> list_all snd ws"
    "er = None \<longrightarrow> (\<forall>d \<in> set pds. redundant p ?ss d \<longrightarrow> DeletePD (Namespace d) (Name d) \<in> fst ` set dels)"
    "dels \<noteq> [] \<or> er = None \<longrightarrow> (\<exists>sel. equals_selector PlacementLabel (Name p) = Inr sel \<and>
      ns_list (placementDecisionLister (on_server c fails s0 shown) (tr @ ws)) (Namespace p) sel = Inr pds)"
    using server.bind_trace [OF assms(1) ns] by blast
  have l: "set pds = {d \<in> set (admit (shown (tr @ ws))). Namespace d = Namespace p \<and> label_of d = Some (Name p)}"
    if "dels \<noteq> [] \<or> er = None"
    using b(6) that ns(2) by (auto simp: ListAllByNamespace_eq equals_selector_matches)
  have "redundant_action p ?ss (admit (shown (tr @ ws))) a" if "dels \<noteq> []" "redundant_action p ?ss pds a" for a
    using that l by (cases a) (auto simp: redundant_action_def)
  then have "list_all (redundant_action p ?ss (admit (shown (tr @ ws))) \<circ> fst) dels"
    using b(3) by (cases dels) (auto simp: list_all_iff)
  moreover have "er = None \<longrightarrow> (\<forall>d \<in> set (admit (shown (tr @ ws))). redundant p ?ss d \<longrightarrow>
      DeletePD (Namespace d) (Name d) \<in> fst ` set dels)"
    using b(5) l by (auto simp: redundant_def)
  ultimately show ?thesis using b(1,2,4) by blast
qed

text \<open>The server fails the creation of the second object, so the redundant one stays.\<close>

definition failing_bind :: "string option \<times> trace" where
  "failing_bind = bind (fresh_server (sample_controller [] [] [] [] (\<lambda>_ _ _. None))
     (\<lambda>tr a. case a of CreatePD pd \<Rightarrow> Some ''timeout'' | _ \<Rightarrow> None)
     [sample_decision ''ns'' ''p'' [''c9''], (sample_decision ''ns'' ''p'' [])\<lparr>Name := ''p-decision-7''\<rparr>])
     (NewPlacement ''ns'' ''p'') (decide (map (\<lambda>i. show_nat i) [0..<101])) Map.empty
     (NewStatus '''' Success []) []"

theorem bind_order_safe_witness:
  "\<exists>ws dels. snd failing_bind = [] @ ws @ dels \<and> (dels \<noteq> [] \<longrightarrow> list_all snd ws) \<and>
     list_all (redundant_action (NewPlacement ''ns'' ''p'')
       (decision_slices (sort_key ClusterName (decide (map (\<lambda>i. show_nat i) [0..<101]))))
       (store_of [sample_decision ''ns'' ''p'' [''c9''], (sample_decision ''ns'' ''p'' [])\<lparr>Name := ''p-decision-7''\<rparr>]
         ([] @ ws)) \<circ> fst) dels"
proof -
  obtain er tr' where "failing_bind = (er, tr')" by fastforce
  from bind_order_safe [OF this [unfolded failing_bind_def] sample_p_wf] show ?thesis
    using \<open>failing_bind = (er, tr')\<close> unfolding admit_store by (metis snd_conv)
qed

section \<open>The decisions of a placement\<close>

text \<open>C10: refinement. With an up-to-date cache, objects that satisfy the invariant, and whatever calls the
  server fails, a run of \<open>bind\<close>
  without error is the assignment of the wanted decisions to the placement: afterwards the
  placement's PlacementDecisions are exactly the slices of the sorted decisions under their numbered
  names, redundant ones are gone, and the decisions of every other placement are as before.\<close>

theorem bind_assigns:
  assumes "bind (fresh_server c fails s0) p ds sc st tr = (None, tr')"
    and "wf_meta p" "decisions_inv (decs_of s0 tr)"
  shows "decisions_view (decs_of s0 tr') =
    (decisions_view (decs_of s0 tr))(placement_key p := wanted_decisions p ds)"
  by (rule fresh.bind_refines [OF assms(1)]) (use assms(2,3) in \<open>simp_all add: wf_meta_def\<close>)

theorem bind_assigns_witness:
  "decisions_view (decs_of [] bound_trace) (''ns'', ''p'') =
     wanted_decisions (NewPlacement ''ns'' ''p'') (decide [''c2'', ''c1''])"
  using bind_assigns [OF bound_trace_run sample_p_wf empty_store_inv]
  by (simp add: placement_key_def)

text \<open>C12: with an up-to-date cache and objects that satisfy the invariant, whatever calls the server
  fails, the decisions of other placements stay as they are.\<close>

theorem bind_frame:
  assumes "bind (fresh_server c fails s0) p ds sc st tr = (er, tr')"
    and "wf_meta p" "decisions_inv (decs_of s0 tr)" "k \<noteq> placement_key p"
  shows "decisions_view (decs_of s0 tr') k = decisions_view (decs_of s0 tr) k"
  by (rule fresh.bind_views_frame [OF assms(1) _ _ assms(3,4)]) (use assms(2) in \<open>simp_all add: wf_meta_def\<close>)

theorem bind_frame_witness:
  "decisions_view (decs_of [] bound_trace) (''ns'', ''q'') = decisions_view (decs_of [] []) (''ns'', ''q'')"
  using bind_frame [OF bound_trace_run sample_p_wf empty_store_inv, of "(''ns'', ''q'')"]
  by (simp add: placement_key_def)

lemma wanted_decisions_mset:
  assumes "mset ds = mset ds'" "distinct (map ClusterName ds)"
  shows "wanted_decisions p ds = wanted_decisions p ds'"
proof -
  have "sort_key ClusterName ds = sort_key ClusterName ds'"
    by (rule sort_key_mset_unique [OF assms(1)]) (use assms(2) in \<open>simp add: distinct_map\<close>)
  then show ?thesis by (simp add: wanted_decisions_def)
qed

text \<open>Idempotence of \<open>bind\<close>: after a run without error, a run with the same decisions, in any
  order, makes no call at all.\<close>

theorem bind_idempotent:
  assumes b: "bind (fresh_server c fails s0) p ds sc st tr = (None, tr')"
    and p: "wf_meta p" "is_valid_label_value (Name p)" and inv: "decisions_inv (decs_of s0 tr)"
    and ds: "mset ds = mset ds'" "distinct (map ClusterName ds)"
  shows "bind (fresh_server c fails s0) p ds' sc' st' tr' = (None, tr')"
proof (rule fresh.bind_idle)
  have s: "slash \<notin> set (Namespace p)" "Namespace p \<noteq> []" using p(1) by (simp_all add: wf_meta_def)
  then show "slash \<notin> set (Namespace p)" "Namespace p \<noteq> []" by simp_all
  show "decisions_view (decs_of s0 tr') (placement_key p) = wanted_decisions p ds'"
    using fresh.bind_refines [OF b s inv] wanted_decisions_mset [OF ds] by simp
qed (rule p(2))

theorem bind_idempotent_witness:
  "bind (fresh_server (sample_controller [] [] [] [] (\<lambda>_ _ _. None)) no_failures [])
     (NewPlacement ''ns'' ''p'') (decide [''c1'', ''c2'']) Map.empty (NewStatus '''' Warning []) bound_trace
   = (None, bound_trace)"
  by (rule bind_idempotent [OF bound_trace_run sample_p_wf sample_p_label empty_store_inv])
    (simp_all add: decide_def)

end
