(* ===== verification/SchedulerFacts.thy ===== *)
theory SchedulerFacts
  imports Scheduler
begin

text \<open>
  What \<open>Schedule\<close> computes: the weights, the prioritizers, the loop over the filters and the loop
  over the prioritizers in closed form, and the result put together from them.
\<close>

section \<open>Weights\<close>

lemma merge_configs_Inr:
  assumes "\<forall>c \<in> set cfgs. ConfigCoordinate c \<noteq> None"
  shows "for_each merge_config ws cfgs =
    Inr (foldl (\<lambda>m (k, v). AList.update k v m) ws (map (\<lambda>c. (the (ConfigCoordinate c), Weight c)) cfgs))"
  using assms by (induction cfgs arbitrary: ws) (auto simp: merge_config_def)

lemma merge_configs_Inl:
  assumes "\<exists>c \<in> set cfgs. ConfigCoordinate c = None"
  shows "for_each merge_config ws cfgs =
    Inl (NewStatus '''' Misconfigured [''scoreCoordinate field is required''])"
  using assms by (induction cfgs arbitrary: ws) (auto simp: merge_config_def split: option.splits)

definition configs_valid :: "Placement \<Rightarrow> bool" where
  "configs_valid p \<longleftrightarrow> (\<forall>c \<in> set (Configurations (Policy (Spec p))). ConfigCoordinate c \<noteq> None)"

definition mode_valid :: "Placement \<Rightarrow> bool" where
  "mode_valid p \<longleftrightarrow> PolicyMode (Policy (Spec p)) \<in> {PrioritizerPolicyModeExact, PrioritizerPolicyModeAdditive, ''''}"

text \<open>The weights a placement configures: the last configuration of a coordinate.\<close>

definition config_weights :: "Placement \<Rightarrow> ScoreCoordinate \<rightharpoonup> int32" where
  "config_weights p = map_of (rev (map (\<lambda>c. (the (ConfigCoordinate c), Weight c))
     (Configurations (Policy (Spec p)))))"

lemma getWeights_ok:
  assumes "mode_valid p" "configs_valid p" "distinct (map fst d)"
  shows "\<exists>ws. getWeights d p = (ws, NewStatus '''' Success ['''']) \<and> distinct (map fst ws) \<and>
    map_of ws = (if PolicyMode (Policy (Spec p)) = PrioritizerPolicyModeExact then Map.empty else map_of d)
      ++ config_weights p"
proof -
  let ?cfg = "Configurations (Policy (Spec p))"
  let ?up = "\<lambda>m xs. foldl (\<lambda>m (k, v). AList.update k v m) m xs"
  let ?xs = "map (\<lambda>c. (the (ConfigCoordinate c), Weight c)) ?cfg"
  have m: "mergeWeights e ?cfg = (?up (?up [] e) ?xs, NewStatus '''' Success [''''])" for e
    using merge_configs_Inr [of ?cfg] assms(2) by (simp add: mergeWeights_def configs_valid_def Let_def)
  have r: "map_of (rev d) = map_of d" using assms(3) by (simp add: map_of_rev)
  let ?e = "if PolicyMode (Policy (Spec p)) = PrioritizerPolicyModeExact then [] else d"
  have "getWeights d p = (?up (?up [] ?e) ?xs, NewStatus '''' Success [''''])"
    using assms(1) m by (auto simp: getWeights_def mode_valid_def Let_def)
  moreover have "distinct (map fst (?up (?up [] ?e) ?xs))" by (intro distinct_foldl_update) simp
  moreover have "map_of (?up (?up [] ?e) ?xs) = map_of ?e ++ config_weights p"
    using r by (simp add: map_of_foldl_update config_weights_def)
  ultimately show ?thesis by (cases "PolicyMode (Policy (Spec p)) = PrioritizerPolicyModeExact") auto
qed

lemma mergeWeights_invalid:
  assumes "\<exists>c \<in> set cfgs. ConfigCoordinate c = None"
  shows "mergeWeights d cfgs = ([], NewStatus '''' Misconfigured [''scoreCoordinate field is required''])"
  using merge_configs_Inl [OF assms] by (simp add: mergeWeights_def Let_def)

lemma mergeWeights_status:
  "code (snd (mergeWeights d cfgs)) =
    (if \<forall>c \<in> set cfgs. ConfigCoordinate c \<noteq> None then Success else Misconfigured)"
proof (cases "\<forall>c \<in> set cfgs. ConfigCoordinate c \<noteq> None")
  case True
  then show ?thesis using merge_configs_Inr [of cfgs] by (simp add: mergeWeights_def Let_def)
next
  case False
  then show ?thesis using mergeWeights_invalid [of cfgs d] by auto
qed

lemma getWeights_status:
  "code (snd (getWeights d p)) = (if mode_valid p \<and> configs_valid p then Success else Misconfigured)"
  by (simp add: getWeights_def Let_def mergeWeights_status mode_valid_def configs_valid_def)

lemma distinct_getWeights: "distinct (map fst (fst (getWeights d p)))"
proof -
  have "distinct (map fst (fst (mergeWeights e cfgs)))" for e cfgs
  proof (cases "\<forall>c \<in> set cfgs. ConfigCoordinate c \<noteq> None")
    case True
    then show ?thesis by (simp add: mergeWeights_def merge_configs_Inr distinct_foldl_update Let_def)
  next
    case False
    then show ?thesis by (simp add: mergeWeights_def merge_configs_Inl Let_def)
  qed
  then show ?thesis by (simp add: getWeights_def Let_def)
qed

section \<open>Prioritizers\<close>

definition enabled_ok :: "weights \<Rightarrow> bool" where
  "enabled_ok ws \<longleftrightarrow> (\<forall>(k, v) \<in> set ws. v \<noteq> 0 \<longrightarrow> \<not> isl (make_prioritizer k))"

text \<open>A coordinate names a prioritizer: one of the four that are built in, or an addon score. Every type
  but \<open>BuiltIn\<close> is taken for \<open>AddOn\<close>, also the empty one, which the API documents as \<open>BuiltIn\<close>; and the
  name \<open>Spread\<close>, which the API documents as valid, is not.\<close>

definition coordinate_valid :: "ScoreCoordinate \<Rightarrow> bool" where
  "coordinate_valid k \<longleftrightarrow> (if CoordType k = ''BuiltIn''
     then CoordBuiltIn k \<in> {''Balance'', ''Steady'', ''ResourceAllocatableCPU'', ''ResourceAllocatableMemory''}
     else CoordAddOn k \<noteq> None)"

lemma make_prioritizer_isl: "isl (make_prioritizer k) \<longleftrightarrow> \<not> coordinate_valid k"
  by (auto simp: make_prioritizer_def coordinate_valid_def PrioritizerBalance_def PrioritizerSteady_def
      PrioritizerResourceAllocatableCPU_def PrioritizerResourceAllocatableMemory_def split: option.split)

text \<open>The scheduler's own weights are for valid coordinates, so only those of the placement matter.\<close>

lemma enabled_ok_configured:
  assumes "mode_valid p" "configs_valid p"
  shows "enabled_ok (fst (getWeights defaultPrioritizerConfig p)) \<longleftrightarrow>
    (\<forall>k w. config_weights p k = Some w \<longrightarrow> w \<noteq> 0 \<longrightarrow> coordinate_valid k)"
proof -
  have d: "distinct (map fst defaultPrioritizerConfig)"
    by (simp add: defaultPrioritizerConfig_def builtin_coordinate_def PrioritizerBalance_def PrioritizerSteady_def)
  obtain ws where ws: "fst (getWeights defaultPrioritizerConfig p) = ws" "distinct (map fst ws)"
    "map_of ws = (if PolicyMode (Policy (Spec p)) = PrioritizerPolicyModeExact then Map.empty
      else map_of defaultPrioritizerConfig) ++ config_weights p"
    using getWeights_ok [OF assms d] by fastforce
  have default: "map_of defaultPrioritizerConfig k = Some w \<Longrightarrow> coordinate_valid k" for k w
    by (auto simp: defaultPrioritizerConfig_def builtin_coordinate_def coordinate_valid_def PrioritizerBalance_def
        PrioritizerSteady_def split: if_splits)
  have "enabled_ok ws \<longleftrightarrow> (\<forall>k w. map_of ws k = Some w \<longrightarrow> w \<noteq> 0 \<longrightarrow> coordinate_valid k)"
    by (auto simp: enabled_ok_def make_prioritizer_isl map_of_eq_Some_iff [OF ws(2)])
  also have "\<dots> \<longleftrightarrow> (\<forall>k w. config_weights p k = Some w \<longrightarrow> w \<noteq> 0 \<longrightarrow> coordinate_valid k)"
    unfolding ws(3) map_add_Some_iff using default by (auto split: if_splits)
  finally show ?thesis using ws(1) by simp
qed

definition enabled :: "weights \<Rightarrow> prioritizers" where
  "enabled ws = map (\<lambda>(k, v). (k, projr (make_prioritizer k))) (filter (\<lambda>(k, v). v \<noteq> 0) ws)"

lemma enabled_keys: "fst ` set (enabled ws) \<subseteq> fst ` set ws"
  by (force simp: enabled_def)

lemma distinct_enabled: "distinct (map fst ws) \<Longrightarrow> distinct (map fst (enabled ws))"
proof -
  have "map fst (enabled ws) = map fst (filter (\<lambda>(k, v). v \<noteq> 0) ws)"
    by (simp add: enabled_def case_prod_unfold)
  then show "distinct (map fst ws) \<Longrightarrow> distinct (map fst (enabled ws))"
    by (simp add: distinct_map_filter)
qed

lemma prioritizer_loop_Inr:
  assumes "enabled_ok ws" "distinct (map fst ws)"
  shows "for_each prioritizer_step [] ws = Inr (enabled ws)"
  using assms
proof (induction ws rule: rev_induct)
  case (snoc kv ws)
  obtain k v where kv: "kv = (k, v)" by fastforce
  have d: "distinct (map fst ws)" "k \<notin> fst ` set ws" using snoc.prems(2) kv by auto
  have ok: "enabled_ok ws" "v \<noteq> 0 \<Longrightarrow> \<not> isl (make_prioritizer k)"
    using snoc.prems(1) kv by (auto simp: enabled_ok_def)
  have "k \<notin> fst ` set (enabled ws)" using d(2) enabled_keys by blast
  then have "prioritizer_step (enabled ws) (k, v) = Inr (enabled (ws @ [(k, v)]))"
    using ok(2) by (cases "make_prioritizer k") (auto simp: prioritizer_step_def enabled_def update_absent)
  then show ?case using snoc.IH [OF ok(1) d(1)] by (simp add: for_each_append kv)
qed (simp add: enabled_def)

lemma prioritizer_step_isl:
  "isl (prioritizer_step r kv) \<longleftrightarrow> snd kv \<noteq> 0 \<and> isl (make_prioritizer (fst kv))"
  by (cases "make_prioritizer (fst kv)") (auto simp: prioritizer_step_def case_prod_unfold)

lemma prioritizer_loop_isl: "isl (for_each prioritizer_step r ws) \<longleftrightarrow> \<not> enabled_ok ws"
  using for_each_isl [of prioritizer_step "\<lambda>kv. snd kv \<noteq> 0 \<and> isl (make_prioritizer (fst kv))" r ws]
  by (fastforce simp: prioritizer_step_isl enabled_ok_def)

lemma enabled_ok_order: "is_iter f \<Longrightarrow> enabled_ok (f ws) = enabled_ok ws"
  by (simp add: enabled_ok_def set_is_iter)

lemma mset_enabled: "mset xs = mset ys \<Longrightarrow> mset (enabled xs) = mset (enabled ys)"
  by (simp add: enabled_def mset_filter)

lemma getPrioritizers_ok:
  assumes "enabled_ok ws" "distinct (map fst ws)" "is_iter (WeightOrder e)"
  shows "getPrioritizers e ws = (enabled (WeightOrder e ws), NewStatus '''' Success [''''])"
  using prioritizer_loop_Inr [of "WeightOrder e ws"] assms
  by (simp add: getPrioritizers_def enabled_ok_order distinct_is_iter)

lemma getPrioritizers_invalid:
  assumes "\<not> enabled_ok ws" "is_iter (WeightOrder e)"
  shows "code (snd (getPrioritizers e ws)) = Misconfigured"
proof -
  obtain st where st: "for_each prioritizer_step [] (WeightOrder e ws) = Inl st"
    using prioritizer_loop_isl [of "[]" "WeightOrder e ws"] assms
    by (auto simp: enabled_ok_order isl_def)
  from for_each_Inl [OF st, of "\<lambda>s. True"] obtain r k v where "prioritizer_step r (k, v) = Inl st"
    by auto
  then have "code st = Misconfigured"
    by (auto simp: prioritizer_step_def split: if_splits sum.splits)
  then show ?thesis by (simp add: getPrioritizers_def st)
qed

section \<open>The filters\<close>

fun run_filters ::
  "SchedEnv \<Rightarrow> Handle \<Rightarrow> Placement \<Rightarrow> Filter list \<Rightarrow> ManagedCluster list \<Rightarrow> Status + ManagedCluster list" where
  "run_filters e h p [] cs = Inr cs"
| "run_filters e h p (f # fs) cs =
     (let (r, st) = filter_Filter f (FilterEnv e f) h p cs
      in if IsError (Some st) then Inl st else run_filters e h p fs (Filtered r))"

lemma filter_code: "code (snd (filter_Filter f e h p cs)) \<in> {Success, Misconfigured}"
  by (cases f)
    (auto simp: predicate_Filter_def taintToleration_Filter_def Let_def split: sum.splits option.splits)

lemma note_warning_filter:
  assumes "\<not> IsError (Some (snd (filter_Filter f e h p cs)))"
  shows "note_warning st (snd (filter_Filter f e h p cs)) = st"
  using filter_code [of f e h p cs] assms by (auto simp: note_warning_def IsError_Some)

text \<open>The records the loop adds: what is left after each prefix of the filters.\<close>

fun filter_records ::
  "SchedEnv \<Rightarrow> Handle \<Rightarrow> Placement \<Rightarrow> string list \<Rightarrow> Filter list \<Rightarrow> ManagedCluster list \<Rightarrow>
     (string \<times> ManagedCluster list) list \<Rightarrow> (string \<times> ManagedCluster list) list" where
  "filter_records e h p pl [] cs recs = recs"
| "filter_records e h p pl (f # fs) cs recs =
     (let kept = Filtered (fst (filter_Filter f (FilterEnv e f) h p cs)); pl' = pl @ [filter_Name f]
      in filter_records e h p pl' fs kept (AList.update (join_sep '','' pl') kept recs))"

lemma filter_loop_Inr:
  assumes "run_filters e h p fs cs = Inr cs'"
  shows "for_each (filter_step e h p) (cs, pl, r, st) fs =
    Inr (cs', pl @ map filter_Name fs,
      r\<lparr>filteredRecords := filter_records e h p pl fs cs (filteredRecords r)\<rparr>, st)"
  using assms
proof (induction fs arbitrary: cs pl r)
  case Nil
  then show ?case by simp
next
  case (Cons f fs)
  obtain fr s where f: "filter_Filter f (FilterEnv e f) h p cs = (fr, s)" by fastforce
  have ok: "\<not> IsError (Some s)" "run_filters e h p fs (Filtered fr) = Inr cs'"
    using Cons.prems f by (auto split: if_splits)
  have w: "note_warning st s = st"
    using note_warning_filter [of f "FilterEnv e f" h p cs st] f ok(1) by simp
  let ?pl = "pl @ [filter_Name f]"
  let ?r = "r\<lparr>filteredRecords := AList.update (join_sep '','' ?pl) (Filtered fr) (filteredRecords r)\<rparr>"
  have "filter_step e h p (cs, pl, r, st) f = Inr (Filtered fr, ?pl, ?r, st)"
    by (simp add: filter_step_def f ok(1) w Let_def)
  with Cons.IH [OF ok(2), of ?pl ?r] show ?case by (simp add: f Let_def)
qed

lemma filter_loop_Inl:
  assumes "run_filters e h p fs cs = Inl s"
  shows "\<exists>recs. for_each (filter_step e h p) (cs, pl, r, st) fs = Inl (r\<lparr>filteredRecords := recs\<rparr>, s)"
  using assms
proof (induction fs arbitrary: cs pl r)
  case Nil
  then show ?case by simp
next
  case (Cons f fs)
  obtain fr s' where f: "filter_Filter f (FilterEnv e f) h p cs = (fr, s')" by fastforce
  show ?case
  proof (cases "IsError (Some s')")
    case True
    then have "s' = s" using Cons.prems f by simp
    then show ?thesis using True
      by (auto simp: filter_step_def f intro!: exI [of _ "filteredRecords r"])
  next
    case False
    then have ok: "run_filters e h p fs (Filtered fr) = Inl s" using Cons.prems f by simp
    have w: "note_warning st s' = st"
      using note_warning_filter [of f "FilterEnv e f" h p cs st] f False by simp
    let ?pl = "pl @ [filter_Name f]"
    let ?r = "r\<lparr>filteredRecords := AList.update (join_sep '','' ?pl) (Filtered fr) (filteredRecords r)\<rparr>"
    have "filter_step e h p (cs, pl, r, st) f = Inr (Filtered fr, ?pl, ?r, st)"
      by (simp add: filter_step_def f False w Let_def)
    with Cons.IH [OF ok, of ?pl ?r] show ?thesis by simp
  qed
qed

lemma run_filters_error: "run_filters e h p fs cs = Inl s \<Longrightarrow> code s = Misconfigured"
proof (induction fs arbitrary: cs)
  case (Cons f fs)
  then show ?case
    using filter_code [of f "FilterEnv e f" h p cs]
    by (auto simp: case_prod_unfold Let_def IsError_Some split: if_splits)
qed simp

lemma run_filters_subset:
  "run_filters e h p fs cs = Inr cs' \<Longrightarrow> set cs' \<subseteq> set cs \<and>
     (distinct (map Name cs) \<longrightarrow> distinct (map Name cs')) \<and> length cs' \<le> length cs"
proof (induction fs arbitrary: cs)
  case (Cons f fs)
  let ?fr = "filter_Filter f (FilterEnv e f) h p cs"
  have "run_filters e h p fs (Filtered (fst ?fr)) = Inr cs'"
    using Cons.prems by (auto simp: case_prod_unfold Let_def split: if_splits)
  from Cons.IH [OF this] show ?case
    using sched_filter.filtered_subset [of f "FilterEnv e f" h p cs]
      sched_filter.filtered_distinct [of Name cs f "FilterEnv e f" h p]
      sched_filter.filtered_length [of f "FilterEnv e f" h p cs]
    by auto
qed simp

text \<open>The order of the clusters does not matter to the filters.\<close>

lemma run_filters_perm:
  assumes "mset cs = mset ds" "FilterEnv e = FilterEnv e'"
  shows "rel_sum (=) (\<lambda>xs ys. mset xs = mset ys) (run_filters e h p fs cs) (run_filters e' h p fs ds)"
  using assms(1)
proof (induction fs arbitrary: cs ds)
  case (Cons f fs)
  let ?c = "filter_Filter f (FilterEnv e f) h p cs" and ?d = "filter_Filter f (FilterEnv e f) h p ds"
  have s: "snd ?c = snd ?d" by (rule sched_filter.error_stable_perm [OF Cons.prems])
  have "mset (Filtered (fst ?c)) = mset (Filtered (fst ?d))"
    by (rule sched_filter.filtered_perm [OF Cons.prems])
  from Cons.IH [OF this] s show ?case
    by (simp add: case_prod_unfold Let_def assms(2) [symmetric])
qed simp

section \<open>The scores\<close>

abbreviation score_status :: "SchedEnv \<Rightarrow> Handle \<Rightarrow> Placement \<Rightarrow> ManagedCluster list \<Rightarrow>
    ScoreCoordinate \<times> Prioritizer \<Rightarrow> Status" where
  "score_status e h p cs scp \<equiv> snd (prioritizer_Score (snd scp) (ScoreEnv e (fst scp)) h p cs)"

abbreviation score_map :: "SchedEnv \<Rightarrow> Handle \<Rightarrow> Placement \<Rightarrow> ManagedCluster list \<Rightarrow>
    ScoreCoordinate \<times> Prioritizer \<Rightarrow> PrioritizerScore" where
  "score_map e h p cs scp \<equiv> PScores (fst (prioritizer_Score (snd scp) (ScoreEnv e (fst scp)) h p cs))"

definition scores_fail :: "SchedEnv \<Rightarrow> Handle \<Rightarrow> Placement \<Rightarrow> ManagedCluster list \<Rightarrow> prioritizers \<Rightarrow> bool" where
  "scores_fail e h p cs prs \<longleftrightarrow> (\<exists>scp \<in> set prs. IsError (Some (score_status e h p cs scp)))"

text \<open>What one prioritizer adds to the score of a cluster, and the whole score.\<close>

definition contribution ::
  "SchedEnv \<Rightarrow> Handle \<Rightarrow> Placement \<Rightarrow> ManagedCluster list \<Rightarrow> weights \<Rightarrow> string \<Rightarrow>
     ScoreCoordinate \<times> Prioritizer \<Rightarrow> int64" where
  "contribution e h p cs ws n scp = get0 (score_map e h p cs scp) n * scast (weight_of ws (fst scp))"

definition score_of ::
  "SchedEnv \<Rightarrow> Handle \<Rightarrow> Placement \<Rightarrow> ManagedCluster list \<Rightarrow> weights \<Rightarrow> string \<Rightarrow> int64" where
  "score_of e h p cs ws n = sum_list (map (contribution e h p cs ws n) (enabled ws))"

lemma prioritizer_code:
  "code (snd (prioritizer_Score pr e h p cs)) \<in> {Success, Warning, Error}"
proof (cases pr)
  case BalancePrioritizer
  then show ?thesis by (simp add: balance_Score_def Let_def case_prod_unfold split: sum.splits)
next
  case SteadyPrioritizer
  then show ?thesis by (simp add: steady_Score_def Let_def split: sum.splits)
next
  case (ResourcePrioritizer r)
  then show ?thesis by (simp add: resource_Score_def Let_def)
next
  case (AddOnPrioritizer a)
  then show ?thesis by (simp add: addon_Score_code)
qed

lemma get0_add_scores:
  "get0 (add_scores t s w) n = get0 t n + get0 s n * scast w"
  by (simp add: add_scores_def get0_def split: option.splits)

lemma dom_add_scores: "dom (add_scores t s w) = dom t \<union> dom s"
  by (auto simp: add_scores_def split: option.splits)

lemma foldl_add_scores:
  "get0 (foldl (\<lambda>t x. add_scores t (f x) (g x)) t xs) n = get0 t n + sum_list (map (\<lambda>x. get0 (f x) n * scast (g x)) xs)"
  "dom (foldl (\<lambda>t x. add_scores t (f x) (g x)) t xs) = dom t \<union> (\<Union>x \<in> set xs. dom (f x))"
  by (induction xs arbitrary: t) (auto simp: get0_add_scores dom_add_scores add.assoc)

lemma score_step_Inr:
  assumes "\<not> IsError (Some (score_status e h p cs scp))"
  shows "score_step e h p cs ws (t, r, st) scp =
    Inr (add_scores t (score_map e h p cs scp) (weight_of ws (fst scp)),
      r\<lparr>scoreRecords := scoreRecords r @ [\<lparr>PrioritizerResultName = prioritizer_Name (snd scp),
          PrioritizerResultWeight = weight_of ws (fst scp),
          PrioritizerResultScores = score_map e h p cs scp\<rparr>]\<rparr>,
      note_warning st (score_status e h p cs scp))"
  using assms by (simp add: score_step_def case_prod_unfold Let_def)

lemma score_step_isl:
  "isl (score_step e h p cs ws s scp) \<longleftrightarrow> IsError (Some (score_status e h p cs scp))"
  by (simp add: score_step_def case_prod_unfold Let_def)

lemma score_loop_Inr:
  assumes "\<not> scores_fail e h p cs prs"
  shows "\<exists>recs. for_each (score_step e h p cs ws) (t, r, st) prs =
    Inr (foldl (\<lambda>t scp. add_scores t (score_map e h p cs scp) (weight_of ws (fst scp))) t prs,
      r\<lparr>scoreRecords := recs\<rparr>, foldl note_warning st (map (score_status e h p cs) prs))"
  using assms
proof (induction prs arbitrary: t r st)
  case Nil
  then show ?case by (auto intro: exI [of _ "scoreRecords r"])
next
  case (Cons scp prs)
  then have ok: "\<not> IsError (Some (score_status e h p cs scp))" "\<not> scores_fail e h p cs prs"
    by (simp_all add: scores_fail_def)
  let ?t = "add_scores t (score_map e h p cs scp) (weight_of ws (fst scp))"
  let ?r = "r\<lparr>scoreRecords := scoreRecords r @ [\<lparr>PrioritizerResultName = prioritizer_Name (snd scp),
          PrioritizerResultWeight = weight_of ws (fst scp),
          PrioritizerResultScores = score_map e h p cs scp\<rparr>]\<rparr>"
  from Cons.IH [OF ok(2), of ?t ?r "note_warning st (score_status e h p cs scp)"]
  show ?case by (simp add: score_step_Inr [OF ok(1)])
qed

lemma score_loop_isl: "isl (for_each (score_step e h p cs ws) s prs) \<longleftrightarrow> scores_fail e h p cs prs"
  unfolding scores_fail_def by (rule for_each_isl) (rule score_step_isl)

text \<open>A loop that fails returns the results collected so far, without decisions, and an error.\<close>

definition no_outcome :: "scheduleResult \<Rightarrow> bool" where
  "no_outcome r \<longleftrightarrow> feasibleClusters r = [] \<and> scheduledDecisions r = [] \<and> unscheduledDecisions r = 0 \<and>
     scoreSum r = Map.empty \<and> requeueAfter r = None"

lemma no_outcome_simps [simp]:
  "no_outcome empty_result"
  "no_outcome (r\<lparr>filteredRecords := fr\<rparr>) = no_outcome r"
  "no_outcome (r\<lparr>scoreRecords := sr\<rparr>) = no_outcome r"
  by (simp_all add: no_outcome_def empty_result_def)

lemma score_loop_Inl:
  assumes "for_each (score_step e h p cs ws) (t, r, st) prs = Inl (r', st')" "no_outcome r"
  shows "no_outcome r' \<and> code st' = Error"
proof -
  let ?I = "\<lambda>s :: PrioritizerScore \<times> scheduleResult \<times> Status. no_outcome (fst (snd s))"
  have "\<exists>s scp. scp \<in> set prs \<and> ?I s \<and> score_step e h p cs ws s scp = Inl (r', st')"
  proof (rule for_each_Inl [OF assms(1)])
    show "?I (t, r, st)" using assms(2) by simp
    fix s scp s' assume i: "?I s" and s: "score_step e h p cs ws s scp = Inr s'"
    then have "\<not> IsError (Some (score_status e h p cs scp))"
      using score_step_isl [of e h p cs ws s scp] by simp
    then show "?I s'" using s i score_step_Inr [of scp e h p cs ws "fst s" "fst (snd s)" "snd (snd s)"]
      by (auto simp: no_outcome_def)
  qed
  then obtain s scp where s: "no_outcome (fst (snd s))" "score_step e h p cs ws s scp = Inl (r', st')"
    by blast
  then have "IsError (Some (score_status e h p cs scp))"
    using score_step_isl [of e h p cs ws s scp] by simp
  moreover have "r' = fst (snd s)" "st' = score_status e h p cs scp"
    using s(2) by (auto simp: score_step_def case_prod_unfold Let_def split: if_splits)
  ultimately show ?thesis
    using s(1) prioritizer_code [of "snd scp" "ScoreEnv e (fst scp)" h p cs] by (auto simp: IsError_Some)
qed

lemma code_foldl_note_warning:
  "code (foldl note_warning st sts) = (if Warning \<in> code ` set sts then Warning else code st)"
  by (induction sts arbitrary: st) (auto simp: note_warning_def)

lemma initial_scores_eq: "initial_scores cs = (\<lambda>n. if n \<in> Name ` set cs then Some 0 else None)"
  unfolding initial_scores_def by (simp add: foldl_scores)

lemma dom_score_map: "dom (score_map e h p cs scp) \<subseteq> Name ` set cs"
  by (rule sched_prioritizer.scores_dom)

lemma dom_initial_scores: "dom (initial_scores cs) = Name ` set cs"
  by (auto simp: initial_scores_eq dom_def)

lemma score_loop_totals:
  assumes "mset prs = mset (enabled ws)"
  shows "foldl (\<lambda>t scp. add_scores t (score_map e h p cs scp) (weight_of ws (fst scp))) (initial_scores cs) prs =
    (\<lambda>n. if n \<in> Name ` set cs then Some (score_of e h p cs ws n) else None)" (is "?t = _")
proof
  fix n
  have d: "dom ?t = Name ` set cs"
    unfolding foldl_add_scores(2) dom_initial_scores
    by (rule sup_absorb1) (rule UN_least, rule dom_score_map)
  have "mset (map (contribution e h p cs ws n) prs) = mset (map (contribution e h p cs ws n) (enabled ws))"
    using assms by simp
  then have "sum_list (map (contribution e h p cs ws n) prs) = score_of e h p cs ws n"
    unfolding score_of_def by (metis sum_mset_sum_list)
  moreover have "get0 (initial_scores cs) n = 0" by (simp add: initial_scores_eq get0_def)
  ultimately have g: "get0 ?t n = score_of e h p cs ws n"
    unfolding foldl_add_scores(1) contribution_def by (simp only: add_0)
  show "?t n = (if n \<in> Name ` set cs then Some (score_of e h p cs ws n) else None)"
  proof (cases "n \<in> Name ` set cs")
    case True
    then obtain v where "?t n = Some v" using d by blast
    then show ?thesis using g True by (simp add: get0_def)
  next
    case False
    then have "?t n = None" using d by blast
    then show ?thesis using False by simp
  qed
qed

section \<open>Schedule in closed form\<close>

text \<open>The clusters that pass the filters; the weights; the score of a feasible cluster; the key by
  which the clusters are ordered, highest score first, equal scores by name.\<close>

definition feasible :: "SchedEnv \<Rightarrow> pluginScheduler \<Rightarrow> Placement \<Rightarrow> ManagedCluster list \<Rightarrow> ManagedCluster list" where
  "feasible e s p cs = (case run_filters e (handle s) p (filters s) cs of Inl st \<Rightarrow> [] | Inr f \<Rightarrow> f)"

definition sched_weights :: "pluginScheduler \<Rightarrow> Placement \<Rightarrow> weights" where
  "sched_weights s p = fst (getWeights (prioritizerWeights s) p)"

definition cluster_score ::
  "SchedEnv \<Rightarrow> pluginScheduler \<Rightarrow> Placement \<Rightarrow> ManagedCluster list \<Rightarrow> string \<Rightarrow> int64" where
  "cluster_score e s p cs n = score_of e (handle s) p (feasible e s p cs) (sched_weights s p) n"

definition rank ::
  "SchedEnv \<Rightarrow> pluginScheduler \<Rightarrow> Placement \<Rightarrow> ManagedCluster list \<Rightarrow> ManagedCluster \<Rightarrow> int \<times> string" where
  "rank e s p cs c = (- sint (cluster_score e s p cs (Name c)), Name c)"

definition ranked ::
  "SchedEnv \<Rightarrow> pluginScheduler \<Rightarrow> Placement \<Rightarrow> ManagedCluster list \<Rightarrow> ManagedCluster list" where
  "ranked e s p cs = sort_key (rank e s p cs) (feasible e s p cs)"

text \<open>When a run of the scheduler ends with an error, and with which code.\<close>

definition config_fail :: "SchedEnv \<Rightarrow> pluginScheduler \<Rightarrow> Placement \<Rightarrow> ManagedCluster list \<Rightarrow> bool" where
  "config_fail e s p cs \<longleftrightarrow> isl (run_filters e (handle s) p (filters s) cs) \<or>
     \<not> mode_valid p \<or> \<not> configs_valid p \<or> \<not> enabled_ok (sched_weights s p)"

definition sched_fail :: "SchedEnv \<Rightarrow> pluginScheduler \<Rightarrow> Placement \<Rightarrow> ManagedCluster list \<Rightarrow> bool" where
  "sched_fail e s p cs \<longleftrightarrow> config_fail e s p cs \<or>
     scores_fail e (handle s) p (feasible e s p cs) (enabled (sched_weights s p))"

definition sched_code :: "SchedEnv \<Rightarrow> pluginScheduler \<Rightarrow> Placement \<Rightarrow> ManagedCluster list \<Rightarrow> StatusCode" where
  "sched_code e s p cs =
     (if config_fail e s p cs then Misconfigured
      else if sched_fail e s p cs then Error
      else if Warning \<in> code ` score_status e (handle s) p (feasible e s p cs) ` set (enabled (sched_weights s p))
      then Warning else Success)"

lemma config_fail_feasible:
  "\<not> config_fail e s p cs \<Longrightarrow> run_filters e (handle s) p (filters s) cs = Inr (feasible e s p cs)"
  by (auto simp: config_fail_def feasible_def split: sum.splits)

lemma note_warning_Success: "code st \<noteq> Warning \<Longrightarrow> note_warning f st = f"
  by (simp add: note_warning_def)

lemma scores_fail_mset: "mset xs = mset ys \<Longrightarrow> scores_fail e h p cs xs = scores_fail e h p cs ys"
  unfolding scores_fail_def by (metis set_mset_mset)

lemma filter_loop_init:
  assumes "run_filters e h p fs cs = Inr f"
  shows "for_each (filter_step e h p) (cs, [], empty_result, st) fs =
    Inr (f, map filter_Name fs, empty_result\<lparr>filteredRecords := filter_records e h p [] fs cs []\<rparr>, st)"
  using filter_loop_Inr [OF assms, of "[]" empty_result st] by (simp add: empty_result_def)

lemma Schedule_config_fail:
  assumes "config_fail e s p cs" "env_orders e"
  shows "\<exists>r st. Schedule e s p cs = Some (r, st) \<and> no_outcome r \<and> code st = Misconfigured"
proof (cases "run_filters e (handle s) p (filters s) cs")
  case (Inl st)
  from filter_loop_Inl [OF Inl] obtain recs where
    "for_each (filter_step e (handle s) p) (cs, [], empty_result, NewStatus '''' Success ['''']) (filters s) =
      Inl (empty_result\<lparr>filteredRecords := recs\<rparr>, st)" by blast
  then show ?thesis using run_filters_error [OF Inl] by (simp add: Schedule_def)
next
  case (Inr f)
  note fl = filter_loop_init [OF Inr]
  obtain ws st where w: "getWeights (prioritizerWeights s) p = (ws, st)" by fastforce
  show ?thesis
  proof (cases "mode_valid p \<and> configs_valid p")
    case False
    then have "code st = Misconfigured" using getWeights_status [of "prioritizerWeights s" p] w by simp
    then show ?thesis by (simp add: Schedule_def fl w IsError_Some)
  next
    case True
    then have st: "code st = Success" using getWeights_status [of "prioritizerWeights s" p] w by simp
    have "\<not> enabled_ok ws" using assms(1) True Inr w by (simp add: config_fail_def sched_weights_def)
    then have "code (snd (getPrioritizers e ws)) = Misconfigured"
      using assms(2) by (simp add: getPrioritizers_invalid env_orders_def)
    then show ?thesis by (cases "getPrioritizers e ws") (simp add: Schedule_def fl w st IsError_Some)
  qed
qed

text \<open>With a valid configuration \<open>Schedule\<close> is the loop over the prioritizers and its end.\<close>

lemma Schedule_config_ok:
  assumes "\<not> config_fail e s p cs" "env_orders e"
  shows "\<exists>prs. mset prs = mset (enabled (sched_weights s p)) \<and> Schedule e s p cs =
    (case for_each (score_step e (handle s) p (feasible e s p cs) (sched_weights s p))
        (initial_scores (feasible e s p cs),
         empty_result\<lparr>filteredRecords := filter_records e (handle s) p [] (filters s) cs []\<rparr>,
         NewStatus '''' Success [''''])
        (ScoreOrder e prs) of
      Inl failed \<Rightarrow> Some failed
    | Inr (totals, results, st) \<Rightarrow> map_option (\<lambda>r. (r, st))
        (finish e s p (feasible e s p cs) (map filter_Name (filters s)) prs totals results))"
proof -
  note fl = filter_loop_init [OF config_fail_feasible [OF assms(1)]]
  obtain st where w: "getWeights (prioritizerWeights s) p = (sched_weights s p, st)"
    by (metis prod.collapse sched_weights_def)
  have st: "code st = Success"
    using getWeights_status [of "prioritizerWeights s" p] w assms(1) by (simp add: config_fail_def)
  have d: "distinct (map fst (sched_weights s p))" unfolding sched_weights_def by (rule distinct_getWeights)
  have o: "is_iter (WeightOrder e)" using assms(2) by (simp add: env_orders_def)
  have g: "getPrioritizers e (sched_weights s p) =
      (enabled (WeightOrder e (sched_weights s p)), NewStatus '''' Success [''''])"
    using assms(1) d o by (intro getPrioritizers_ok) (auto simp: config_fail_def)
  have m: "mset (enabled (WeightOrder e (sched_weights s p))) = mset (enabled (sched_weights s p))"
    by (rule mset_enabled) (rule mset_is_iter [OF o])
  show ?thesis
    by (rule exI [of _ "enabled (WeightOrder e (sched_weights s p))"])
      (simp add: Schedule_def fl w g m st IsError_Some note_warning_def)
qed

lemma Schedule_score_fail:
  assumes "\<not> config_fail e s p cs" "sched_fail e s p cs" "env_orders e"
  shows "\<exists>r st. Schedule e s p cs = Some (r, st) \<and> no_outcome r \<and> code st = Error"
proof -
  let ?f = "feasible e s p cs" and ?ws = "sched_weights s p"
  let ?recs = "filter_records e (handle s) p [] (filters s) cs []"
  obtain prs where prs: "mset prs = mset (enabled ?ws)" and sc: "Schedule e s p cs =
    (case for_each (score_step e (handle s) p ?f ?ws)
        (initial_scores ?f, empty_result\<lparr>filteredRecords := ?recs\<rparr>, NewStatus '''' Success [''''])
        (ScoreOrder e prs) of
      Inl failed \<Rightarrow> Some failed
    | Inr (totals, results, st) \<Rightarrow> map_option (\<lambda>r. (r, st))
        (finish e s p ?f (map filter_Name (filters s)) prs totals results))"
    using Schedule_config_ok [OF assms(1,3)] by blast
  have "mset (ScoreOrder e prs) = mset (enabled ?ws)"
    using assms(3) prs by (simp add: env_orders_def mset_is_iter)
  then have "scores_fail e (handle s) p ?f (ScoreOrder e prs)"
    using assms(1,2) scores_fail_mset [of "ScoreOrder e prs" "enabled ?ws"] by (simp add: sched_fail_def)
  then have "isl (for_each (score_step e (handle s) p ?f ?ws)
        (initial_scores ?f, empty_result\<lparr>filteredRecords := ?recs\<rparr>, NewStatus '''' Success [''''])
        (ScoreOrder e prs))" by (rule score_loop_isl [THEN iffD2])
  then obtain r st where l: "for_each (score_step e (handle s) p ?f ?ws)
        (initial_scores ?f, empty_result\<lparr>filteredRecords := ?recs\<rparr>, NewStatus '''' Success [''''])
        (ScoreOrder e prs) = Inl (r, st)"
    by (auto simp: isl_def)
  then show ?thesis using score_loop_Inl [OF l] sc by simp
qed

definition filter_requeue :: "SchedEnv \<Rightarrow> pluginScheduler \<Rightarrow> Placement \<Rightarrow> duration option" where
  "filter_requeue e s p = foldl (\<lambda>r f. note_requeue (UntilNow e) r
     (fst (filter_RequeueAfter f (RequeueEnv e f) (handle s) p))) None (filters s)"

lemma requeue_after_eq: "requeue_after e s p prs = filter_requeue e s p"
proof -
  have n: "RequeueTime (fst (prioritizer_RequeueAfter pr p)) = None" for pr
    by (cases pr) (simp_all add: balance_RequeueAfter_def steady_RequeueAfter_def
        resource_RequeueAfter_def addon_RequeueAfter_def no_requeue_result_def)
  have "foldl (\<lambda>r (sc, pr). note_requeue (UntilNow e) r (fst (prioritizer_RequeueAfter pr p))) r xs = r"
    for r and xs :: prioritizers
    by (induction xs arbitrary: r) (auto simp: note_requeue_def n)
  then show ?thesis by (simp add: requeue_after_def filter_requeue_def Let_def)
qed

definition cluster_scores ::
  "SchedEnv \<Rightarrow> pluginScheduler \<Rightarrow> Placement \<Rightarrow> ManagedCluster list \<Rightarrow> PrioritizerScore" where
  "cluster_scores e s p cs = (\<lambda>n. if n \<in> Name ` set (feasible e s p cs)
     then Some (cluster_score e s p cs n) else None)"

lemma ranked_eq:
  "slice_stable (score_less (cluster_scores e s p cs)) (feasible e s p cs) = ranked e s p cs"
  unfolding ranked_def
proof (rule slice_stable_key)
  fix x y assume "x \<in> set (feasible e s p cs)" "y \<in> set (feasible e s p cs)"
  then have "get0 (cluster_scores e s p cs) (Name x) = cluster_score e s p cs (Name x)"
    "get0 (cluster_scores e s p cs) (Name y) = cluster_score e s p cs (Name y)"
    by (simp_all add: cluster_scores_def get0_def)
  then show "score_less (cluster_scores e s p cs) x y \<longleftrightarrow> rank e s p cs x < rank e s p cs y"
    by (auto simp: score_less_def rank_def less_prod_def' signed_word_eqI)
qed

definition unscheduled_of :: "Placement \<Rightarrow> ClusterDecision list \<Rightarrow> int" where
  "unscheduled_of p ds = (case NumberOfClusters (Spec p) of None \<Rightarrow> 0 | Some n \<Rightarrow> sint n - int (length ds))"

definition final_records ::
  "SchedEnv \<Rightarrow> pluginScheduler \<Rightarrow> Placement \<Rightarrow> ManagedCluster list \<Rightarrow> (string \<times> ManagedCluster list) list" where
  "final_records e s p cs = (let recs = filter_records e (handle s) p [] (filters s) cs []
     in if filters s = [] then recs
        else AList.update (join_sep '','' (map filter_Name (filters s))) (ranked e s p cs) recs)"

lemma Schedule_ok:
  assumes "\<not> sched_fail e s p cs" "env_orders e"
  shows "\<exists>sr st. code st = sched_code e s p cs \<and> Schedule e s p cs =
    map_option (\<lambda>ds. (\<lparr>feasibleClusters = ranked e s p cs, scheduledDecisions = ds,
        unscheduledDecisions = unscheduled_of p ds, filteredRecords = final_records e s p cs, scoreRecords = sr,
        scoreSum = cluster_scores e s p cs, requeueAfter = filter_requeue e s p\<rparr>, st))
      (selectClusters p (ranked e s p cs))"
proof -
  let ?f = "feasible e s p cs" and ?ws = "sched_weights s p" and ?pl = "map filter_Name (filters s)"
  have nc: "\<not> config_fail e s p cs" using assms(1) by (simp add: sched_fail_def)
  let ?r0 = "empty_result\<lparr>filteredRecords := filter_records e (handle s) p [] (filters s) cs []\<rparr>"
  obtain prs where prs: "mset prs = mset (enabled ?ws)" and sc: "Schedule e s p cs =
    (case for_each (score_step e (handle s) p ?f ?ws)
        (initial_scores ?f, ?r0, NewStatus '''' Success [''''])
        (ScoreOrder e prs) of
      Inl failed \<Rightarrow> Some failed
    | Inr (totals, results, st) \<Rightarrow> map_option (\<lambda>r. (r, st))
        (finish e s p ?f ?pl prs totals results))"
    using Schedule_config_ok [OF nc assms(2)] by blast
  let ?so = "ScoreOrder e prs"
  have m: "mset ?so = mset (enabled ?ws)"
    using assms(2) prs by (simp add: env_orders_def mset_is_iter)
  then have so: "set ?so = set (enabled ?ws)" by (metis set_mset_mset)
  have nf: "\<not> scores_fail e (handle s) p ?f ?so"
    using assms(1) scores_fail_mset [OF m] by (simp add: sched_fail_def)
  let ?st = "foldl note_warning (NewStatus '''' Success ['''']) (map (score_status e (handle s) p ?f) ?so)"
  have totals: "foldl (\<lambda>t scp. add_scores t (score_map e (handle s) p ?f scp) (weight_of ?ws (fst scp)))
      (initial_scores ?f) ?so = cluster_scores e s p cs"
    unfolding score_loop_totals [OF m] cluster_scores_def cluster_score_def ..
  obtain sr where l: "for_each (score_step e (handle s) p ?f ?ws)
        (initial_scores ?f, ?r0, NewStatus '''' Success ['''']) ?so =
      Inr (cluster_scores e s p cs, ?r0\<lparr>scoreRecords := sr\<rparr>, ?st)"
    using score_loop_Inr [OF nf, of ?ws "initial_scores ?f" ?r0 "NewStatus '''' Success ['''']"]
    unfolding totals by blast
  have code: "code ?st = sched_code e s p cs"
    using assms(1) nc by (simp add: code_foldl_note_warning sched_code_def so)
  show ?thesis
    unfolding sc l sum.case prod.case finish_def ranked_eq requeue_after_eq Let_def
    by (rule exI [of _ sr], rule exI [of _ ?st])
      (auto simp: code unscheduled_of_def empty_result_def final_records_def Let_def split: option.splits)
qed

end
