(* ===== verification/SchedulerProps.thy ===== *)
theory SchedulerProps
  imports SchedulerFacts Builders
begin

text \<open>
  What the scheduler promises: the decisions are the best of the clusters that pass the filters,
  whatever the iteration order of the maps and the order of the clusters; a run that fails makes no
  decision; scores do not overflow within the limits of the API; the requeue time is the first at
  which a filter would change its mind.
\<close>

section \<open>Feasible clusters\<close>

text \<open>A cluster a placement may choose: it satisfies a predicate, if there are any, and its taints
  are tolerated.\<close>

definition eligible :: "SchedEnv \<Rightarrow> Handle \<Rightarrow> Placement \<Rightarrow> ManagedCluster \<Rightarrow> bool" where
  "eligible e h p c \<longleftrightarrow>
     (Predicates (Spec p) = [] \<or> (\<exists>pr \<in> set (Predicates (Spec p)). satisfies_predicate c pr)) \<and>
     cluster_tolerated (TolerationNow (FilterEnv e TaintTolerationFilter)) c (Tolerations (Spec p))
       (Name c \<in> set (getDecisionClusterNames h p))"

lemma NewPluginScheduler_simps [simp]:
  "filters (NewPluginScheduler h) = [PredicateFilter, TaintTolerationFilter]"
  "handle (NewPluginScheduler h) = h"
  "prioritizerWeights (NewPluginScheduler h) = defaultPrioritizerConfig"
  by (simp_all add: NewPluginScheduler_def)

text \<open>The two filters of the scheduler, in closed form.\<close>

lemma two_filters:
  assumes "run_filters e h p [PredicateFilter, TaintTolerationFilter] cs = Inr f"
  shows "f = filter (eligible e h p) cs"
proof -
  let ?p = "predicate_Filter (FilterEnv e PredicateFilter) h p cs"
  let ?kept = "filter (\<lambda>c. Predicates (Spec p) = [] \<or>
        (\<exists>pr \<in> set (Predicates (Spec p)). satisfies_predicate c pr)) cs"
  let ?t = "taintToleration_Filter (FilterEnv e TaintTolerationFilter) h p (Filtered (fst ?p))"
  have ok: "\<not> IsError (Some (snd ?p))" "\<not> IsError (Some (snd ?t))" "f = Filtered (fst ?t)"
    using assms by (auto simp: case_prod_unfold Let_def split: if_splits)
  have k: "Filtered (fst ?p) = ?kept"
    using ok(1) by (subst predicate_Filter_valid) (auto simp: predicate_error_iff)
  show ?thesis
    using ok(2) unfolding ok(3) k
    by (subst taintToleration_Filter_valid)
      (auto simp: taintToleration_error_iff eligible_def intro!: filter_cong)
qed

lemma feasible_eligible:
  assumes "\<not> sched_fail e (NewPluginScheduler h) p cs"
  shows "feasible e (NewPluginScheduler h) p cs = filter (eligible e h p) cs"
proof -
  have "\<not> config_fail e (NewPluginScheduler h) p cs" using assms by (simp add: sched_fail_def)
  from config_fail_feasible [OF this] show ?thesis by (intro two_filters) simp
qed

section \<open>Outcomes\<close>

lemma Schedule_fail:
  assumes "sched_fail e s p cs" "env_orders e"
  shows "\<exists>r st. Schedule e s p cs = Some (r, st) \<and> no_outcome r \<and> code st = sched_code e s p cs \<and>
    IsError (Some st)"
proof (cases "config_fail e s p cs")
  case True
  then show ?thesis using Schedule_config_fail [OF True assms(2)] by (auto simp: sched_code_def IsError_Some)
next
  case False
  then show ?thesis
    using Schedule_score_fail [OF False assms] assms(1) by (auto simp: sched_code_def IsError_Some)
qed

lemma sched_code_ok: "\<not> sched_fail e s p cs \<Longrightarrow> sched_code e s p cs \<in> {Success, Warning}"
  by (auto simp: sched_code_def sched_fail_def)

text \<open>The outcome of a run that returns, by whether it failed.\<close>

lemma Schedule_cases:
  assumes "Schedule e s p cs = Some (r, st)" "env_orders e"
  obtains (failed) "sched_fail e s p cs" "no_outcome r" "IsError (Some st)" "code st = sched_code e s p cs"
  | (ok) "\<not> sched_fail e s p cs" "\<not> IsError (Some st)" "code st = sched_code e s p cs"
      "feasibleClusters r = ranked e s p cs" "selectClusters p (ranked e s p cs) = Some (scheduledDecisions r)"
      "unscheduledDecisions r = unscheduled_of p (scheduledDecisions r)"
      "filteredRecords r = final_records e s p cs"
      "scoreSum r = cluster_scores e s p cs" "requeueAfter r = filter_requeue e s p"
proof (cases "sched_fail e s p cs")
  case True
  then show ?thesis using Schedule_fail [OF True assms(2)] assms(1) failed by auto
next
  case False
  from Schedule_ok [OF False assms(2)] obtain sr st' where
    s: "code st' = sched_code e s p cs" "Schedule e s p cs =
    map_option (\<lambda>ds. (\<lparr>feasibleClusters = ranked e s p cs, scheduledDecisions = ds,
        unscheduledDecisions = unscheduled_of p ds, filteredRecords = final_records e s p cs, scoreRecords = sr,
        scoreSum = cluster_scores e s p cs, requeueAfter = filter_requeue e s p\<rparr>, st'))
      (selectClusters p (ranked e s p cs))" by blast
  then obtain ds where "selectClusters p (ranked e s p cs) = Some ds" "st = st'"
    "r = \<lparr>feasibleClusters = ranked e s p cs, scheduledDecisions = ds,
        unscheduledDecisions = unscheduled_of p ds, filteredRecords = final_records e s p cs, scoreRecords = sr,
        scoreSum = cluster_scores e s p cs, requeueAfter = filter_requeue e s p\<rparr>"
    using assms(1) by (cases "selectClusters p (ranked e s p cs)") auto
  then show ?thesis using ok False s(1) sched_code_ok [OF False] by (auto simp: IsError_Some)
qed

definition wanted :: "Placement \<Rightarrow> ManagedCluster list \<Rightarrow> nat" where
  "wanted p cs = (case NumberOfClusters (Spec p) of None \<Rightarrow> length cs | Some n \<Rightarrow> nat (sint n))"

lemma selectClusters_Some:
  assumes "selectClusters p cs = Some ds"
  shows "map ClusterName ds = map Name (take (wanted p cs) cs)" "length ds = min (wanted p cs) (length cs)"
  using assms
  by (auto simp: selectClusters_def wanted_def Let_def split: option.splits if_splits)

lemma selectClusters_None_iff:
  "selectClusters p cs = None \<longleftrightarrow> (\<exists>n. NumberOfClusters (Spec p) = Some n \<and> sint n < 0)"
  by (auto simp: selectClusters_def Let_def split: option.splits)

lemma set_ranked [simp]: "set (ranked e s p cs) = set (feasible e s p cs)"
  by (simp add: ranked_def)

lemma length_ranked [simp]: "length (ranked e s p cs) = length (feasible e s p cs)"
  by (simp add: ranked_def)

lemma feasible_subset:
  "set (feasible e s p cs) \<subseteq> set cs"
  "distinct (map Name cs) \<Longrightarrow> distinct (map Name (feasible e s p cs))"
  "length (feasible e s p cs) \<le> length cs"
proof -
  consider st where "run_filters e (handle s) p (filters s) cs = Inl st"
    | f where "run_filters e (handle s) p (filters s) cs = Inr f"
    by (cases "run_filters e (handle s) p (filters s) cs") auto
  then have "set (feasible e s p cs) \<subseteq> set cs \<and>
     (distinct (map Name cs) \<longrightarrow> distinct (map Name (feasible e s p cs))) \<and>
     length (feasible e s p cs) \<le> length cs"
  proof cases
    case 1
    then show ?thesis by (simp add: feasible_def)
  next
    case 2
    then show ?thesis using run_filters_subset [OF 2] by (simp add: feasible_def)
  qed
  then show "set (feasible e s p cs) \<subseteq> set cs"
    "distinct (map Name cs) \<Longrightarrow> distinct (map Name (feasible e s p cs))"
    "length (feasible e s p cs) \<le> length cs" by simp_all
qed

lemma distinct_names_ranked:
  "distinct (map Name cs) \<Longrightarrow> distinct (map Name (ranked e s p cs))"
proof -
  assume d: "distinct (map Name cs)"
  have "distinct (map Name (feasible e s p cs))"
    by (rule feasible_subset(2) [OF d])
  moreover have "mset (map Name (ranked e s p cs)) = mset (map Name (feasible e s p cs))"
    by (simp add: ranked_def)
  ultimately show ?thesis by (metis mset_eq_imp_distinct_iff)
qed

lemma rank_inj: "distinct (map Name cs) \<Longrightarrow> inj_on (rank e s p cs) (set (feasible e s p cs))"
proof -
  assume d: "distinct (map Name cs)"
  have "set (feasible e s p cs) \<subseteq> set cs" by (rule feasible_subset)
  moreover have "inj_on Name (set cs)" using d by (simp add: distinct_map)
  ultimately have "inj_on Name (set (feasible e s p cs))" by (rule inj_on_subset [rotated])
  then show ?thesis by (auto simp: inj_on_def rank_def)
qed

section \<open>Order independence\<close>

text \<open>Two environments that differ in iteration orders only, and two runs that differ in them and in
  the order of the clusters only. Of the plugins, only \<open>RequeueAfter\<close> of the taint filter ranges over a
  set of names.\<close>

definition same_but_order :: "PluginEnv \<Rightarrow> PluginEnv \<Rightarrow> bool" where
  "same_but_order e e' \<longleftrightarrow> e' = e\<lparr>NameOrder := NameOrder e'\<rparr> \<and> (\<forall>xs. mset (NameOrder e' xs) = mset (NameOrder e xs))"

definition same_world :: "SchedEnv \<Rightarrow> SchedEnv \<Rightarrow> bool" where
  "same_world e e' \<longleftrightarrow> FilterEnv e = FilterEnv e' \<and> ScoreEnv e = ScoreEnv e' \<and>
     (\<forall>f. same_but_order (RequeueEnv e f) (RequeueEnv e' f)) \<and> UntilNow e = UntilNow e'"

lemma same_world_refl [simp]: "same_world e e"
  by (simp add: same_world_def same_but_order_def)

definition reordered :: "SchedEnv \<Rightarrow> SchedEnv \<Rightarrow> ManagedCluster list \<Rightarrow> ManagedCluster list \<Rightarrow> bool" where
  "reordered e e' cs ds \<longleftrightarrow> same_world e e' \<and> mset cs = mset ds \<and> distinct (map Name cs)"

lemma filters_perm:
  assumes "reordered e e' cs ds"
  shows "rel_sum (=) (\<lambda>xs ys. mset xs = mset ys)
     (run_filters e (handle s) p (filters s) cs) (run_filters e' (handle s) p (filters s) ds)"
  using assms by (intro run_filters_perm) (simp_all add: reordered_def same_world_def)

lemma feasible_perm: "reordered e e' cs ds \<Longrightarrow> mset (feasible e s p cs) = mset (feasible e' s p ds)"
  using filters_perm [of e e' cs ds s p] by (auto simp: feasible_def elim!: rel_sum.cases)

lemma config_fail_perm: "reordered e e' cs ds \<Longrightarrow> config_fail e s p cs = config_fail e' s p ds"
  using filters_perm [of e e' cs ds s p] by (auto simp: config_fail_def elim!: rel_sum.cases)

lemma distinct_feasible: "reordered e e' cs ds \<Longrightarrow> distinct (map Name (feasible e s p cs))"
  by (rule feasible_subset(2)) (simp add: reordered_def)

lemma score_map_perm:
  assumes "reordered e e' cs ds"
  shows "score_map e (handle s) p (feasible e s p cs) scp = score_map e' (handle s) p (feasible e' s p ds) scp"
    and "code (score_status e (handle s) p (feasible e s p cs) scp) =
      code (score_status e' (handle s) p (feasible e' s p ds) scp)"
proof -
  have w: "ScoreEnv e = ScoreEnv e'" using assms by (simp add: reordered_def same_world_def)
  note fp = feasible_perm [OF assms, of s p] distinct_feasible [OF assms, of s p]
  show "score_map e (handle s) p (feasible e s p cs) scp = score_map e' (handle s) p (feasible e' s p ds) scp"
    using sched_prioritizer.scores_perm [OF fp, of "snd scp" "ScoreEnv e (fst scp)" "handle s" p] w by simp
  show "code (score_status e (handle s) p (feasible e s p cs) scp) =
      code (score_status e' (handle s) p (feasible e' s p ds) scp)"
    using sched_prioritizer.code_perm [OF fp, of "snd scp" "ScoreEnv e (fst scp)" "handle s" p] w by simp
qed

lemma cluster_score_perm:
  assumes "reordered e e' cs ds"
  shows "cluster_score e s p cs = cluster_score e' s p ds"
proof
  fix n
  have "contribution e (handle s) p (feasible e s p cs) (sched_weights s p) n =
      contribution e' (handle s) p (feasible e' s p ds) (sched_weights s p) n"
    by (rule ext) (simp add: contribution_def score_map_perm(1) [OF assms])
  then show "cluster_score e s p cs n = cluster_score e' s p ds n"
    by (simp add: cluster_score_def score_of_def)
qed

lemma rank_perm: "reordered e e' cs ds \<Longrightarrow> rank e s p cs = rank e' s p ds"
  by (rule ext) (simp add: rank_def cluster_score_perm [of e e' cs ds])

lemma ranked_perm:
  assumes "reordered e e' cs ds"
  shows "ranked e s p cs = ranked e' s p ds"
  unfolding ranked_def rank_perm [OF assms, symmetric]
  by (rule sort_key_mset_unique [OF feasible_perm [OF assms] rank_inj])
    (use assms in \<open>simp add: reordered_def\<close>)

lemma sched_fail_perm:
  assumes "reordered e e' cs ds"
  shows "sched_fail e s p cs = sched_fail e' s p ds"
proof -
  have "IsError (Some (score_status e (handle s) p (feasible e s p cs) scp)) =
      IsError (Some (score_status e' (handle s) p (feasible e' s p ds) scp))" for scp
    using score_map_perm(2) [OF assms, where s = s and p = p and scp = scp] by (simp add: IsError_Some)
  then show ?thesis unfolding sched_fail_def scores_fail_def config_fail_perm [OF assms] by (simp only:)
qed

lemma sched_code_perm:
  assumes "reordered e e' cs ds"
  shows "sched_code e s p cs = sched_code e' s p ds"
  unfolding sched_code_def config_fail_perm [OF assms] sched_fail_perm [OF assms] image_image
    score_map_perm(2) [OF assms] ..

lemma cluster_scores_perm:
  assumes "reordered e e' cs ds"
  shows "cluster_scores e s p cs = cluster_scores e' s p ds"
proof -
  have "set (feasible e s p cs) = set (feasible e' s p ds)"
    using feasible_perm [OF assms] by (metis set_mset_mset)
  then show ?thesis unfolding cluster_scores_def cluster_score_perm [OF assms] by (simp only:)
qed

lemma filter_requeue_world:
  assumes "same_world e e'"
  shows "filter_requeue e s p = filter_requeue e' s p"
proof -
  have "RequeueTime (fst (filter_RequeueAfter f (RequeueEnv e' f) h p)) =
      RequeueTime (fst (filter_RequeueAfter f (RequeueEnv e f) h p))" for f h
  proof (cases f)
    case TaintTolerationFilter
    have "same_but_order (RequeueEnv e f) (RequeueEnv e' f)" using assms by (simp add: same_world_def)
    then have "RequeueEnv e' f = (RequeueEnv e f)\<lparr>NameOrder := NameOrder (RequeueEnv e' f)\<rparr>"
      "mset (NameOrder (RequeueEnv e' f) (getDecisionClusterNames h p)) =
        mset (NameOrder (RequeueEnv e f) (getDecisionClusterNames h p))"
      by (simp_all add: same_but_order_def)
    then show ?thesis using RequeueAfter_order TaintTolerationFilter by (metis filter_RequeueAfter.simps(2))
  qed simp
  then have "fst (filter_RequeueAfter f (RequeueEnv e' f) h p) = fst (filter_RequeueAfter f (RequeueEnv e f) h p)" for f h
    by simp
  then show ?thesis using assms by (simp add: filter_requeue_def same_world_def)
qed

text \<open>What a caller can observe of a result, less the two records kept for the debugger.\<close>

definition outcome :: "scheduleResult \<times> Status \<Rightarrow>
    ManagedCluster list \<times> ClusterDecision list \<times> int \<times> PrioritizerScore \<times> duration option \<times> StatusCode" where
  "outcome rs = (case rs of (r, st) \<Rightarrow> (feasibleClusters r, scheduledDecisions r, unscheduledDecisions r,
     scoreSum r, requeueAfter r, code st))"

definition ok_outcome where
  "ok_outcome e s p cs = map_option (\<lambda>ds. (ranked e s p cs, ds, unscheduled_of p ds, cluster_scores e s p cs,
     filter_requeue e s p, sched_code e s p cs)) (selectClusters p (ranked e s p cs))"

lemma Schedule_outcome:
  assumes "env_orders e"
  shows "map_option outcome (Schedule e s p cs) =
    (if sched_fail e s p cs then Some ([], [], 0, Map.empty, None, sched_code e s p cs)
     else ok_outcome e s p cs)"
proof (cases "sched_fail e s p cs")
  case True
  from Schedule_fail [OF this assms] show ?thesis using True by (auto simp: outcome_def no_outcome_def)
next
  case False
  from Schedule_ok [OF this assms] False show ?thesis
    by (auto simp: ok_outcome_def outcome_def option.map_comp comp_def)
qed

section \<open>A concrete run\<close>

text \<open>Three clusters and a placement that wants two of them; an addon score prefers one.\<close>

definition sample_env :: SchedEnv where
  "sample_env = \<lparr>FilterEnv = (\<lambda>f. sample_plugin_env), ScoreEnv = (\<lambda>sc. sample_plugin_env),
     RequeueEnv = (\<lambda>f. sample_plugin_env), UntilNow = 1000, WeightOrder = (\<lambda>xs. xs),
     ScoreOrder = (\<lambda>xs. xs), RequeueOrder = (\<lambda>xs. xs)\<rparr>"

definition sample_env_rev :: SchedEnv where
  "sample_env_rev = sample_env\<lparr>WeightOrder := rev, ScoreOrder := rev, RequeueOrder := rev,
     RequeueEnv := (\<lambda>f. sample_plugin_env\<lparr>NameOrder := rev\<rparr>)\<rparr>"

definition sample_clusters :: "ManagedCluster list" where
  "sample_clusters = [NewManagedCluster ''c3'', NewManagedCluster ''c1'', NewManagedCluster ''c2'']"

definition sample_scheduler :: pluginScheduler where
  "sample_scheduler = NewPluginScheduler (sample_handle []
     [WithScore ''cpu'' 30 (NewAddOnPlacementScore ''c2'' ''demo'')] sample_clusters)"

definition sample_placement :: Placement where
  "sample_placement = WithScoreCoordinateAddOn 1 ''demo'' ''cpu'' 2 (WithNOC 2 (NewPlacement ''ns'' ''p''))"

lemma sample_env_ok [simp]: "env_orders sample_env" "env_orders sample_env_rev"
  by (simp_all add: env_orders_def sample_env_def sample_env_rev_def)

lemma sample_clusters_distinct [simp]: "distinct (map Name sample_clusters)"
  by (simp add: sample_clusters_def)

lemma sample_same_world [simp]: "same_world sample_env sample_env_rev"
  by (simp add: same_world_def same_but_order_def sample_env_rev_def)
    (simp add: sample_env_def sample_plugin_env_def)

text \<open>The decisions and the code of a run, for evaluation.\<close>

definition run_summary :: "(scheduleResult \<times> Status) option \<Rightarrow> (string list \<times> int \<times> StatusCode) option" where
  "run_summary = map_option (\<lambda>(r, st). (map ClusterName (scheduledDecisions r), unscheduledDecisions r, code st))"

lemma run_summary_Some:
  "run_summary x = Some (ns, u, c) \<Longrightarrow>
     \<exists>r st. x = Some (r, st) \<and> map ClusterName (scheduledDecisions r) = ns \<and> unscheduledDecisions r = u \<and> code st = c"
  by (auto simp: run_summary_def)

lemma sample_run: "run_summary (Schedule sample_env sample_scheduler sample_placement sample_clusters) =
    Some ([''c2'', ''c1''], 0, Success)"
  by code_simp

lemma sample_run_result:
  "\<exists>r st. Schedule sample_env sample_scheduler sample_placement sample_clusters = Some (r, st) \<and>
     map ClusterName (scheduledDecisions r) = [''c2'', ''c1''] \<and> code st = Success \<and> \<not> IsError (Some st)"
  using run_summary_Some [OF sample_run] by (auto simp: IsError_Some)

text \<open>Iteration orders and the order of the input leave the outcome as it is.\<close>

lemma Schedule_outcome_perm:
  assumes "env_orders e" "env_orders e'" "same_world e e'" "mset cs = mset ds" "distinct (map Name cs)"
  shows "map_option outcome (Schedule e s p cs) = map_option outcome (Schedule e' s p ds)"
proof -
  have r: "reordered e e' cs ds" using assms(3-5) by (simp add: reordered_def)
  show ?thesis
    unfolding Schedule_outcome [OF assms(1)] Schedule_outcome [OF assms(2)] ok_outcome_def
      sched_fail_perm [OF r] sched_code_perm [OF r] ranked_perm [OF r] cluster_scores_perm [OF r]
      filter_requeue_world [OF assms(3)] ..
qed

text \<open>C27: the outcome of \<open>Schedule\<close> (feasible clusters in their order, decisions, unscheduled
  count, scores, requeue time, status code) does not depend on the iteration order of any map that the
  scheduler or a plugin ranges over, nor on the order in which the clusters are passed, although
  weights, prioritizers, scores and the clusters whose tolerations may run out are all collected by
  ranging over maps.\<close>

theorem Schedule_order_independent:
  assumes "env_orders e" "env_orders e'" "same_world e e'" "mset cs = mset ds" "distinct (map Name cs)"
  shows "map_option outcome (Schedule e s p cs) = map_option outcome (Schedule e' s p ds)"
  by (rule Schedule_outcome_perm [OF assms])

theorem Schedule_order_independent_witness:
  "map_option outcome (Schedule sample_env sample_scheduler sample_placement sample_clusters) =
   map_option outcome (Schedule sample_env_rev sample_scheduler sample_placement (rev sample_clusters))"
  by (rule Schedule_order_independent) simp_all

text \<open>C1: the decisions of a run that succeeds are the best clusters. Every decision is an eligible
  cluster (it satisfies a predicate and its taints are tolerated), no cluster is chosen twice, and
  every eligible cluster that is not chosen has a lower total score than every chosen one, or the
  same score and a greater name.\<close>

theorem Schedule_selects_best:
  assumes "env_orders e" "Schedule e (NewPluginScheduler h) p cs = Some (r, st)"
    "\<not> IsError (Some st)" "distinct (map Name cs)"
  shows "set (map ClusterName (scheduledDecisions r)) \<subseteq> Name ` {c \<in> set cs. eligible e h p c} \<and>
    distinct (map ClusterName (scheduledDecisions r)) \<and>
    (\<forall>c \<in> set (map ClusterName (scheduledDecisions r)).
      \<forall>d \<in> Name ` {d \<in> set cs. eligible e h p d} - set (map ClusterName (scheduledDecisions r)).
        sint (get0 (scoreSum r) c) > sint (get0 (scoreSum r) d) \<or>
        sint (get0 (scoreSum r) c) = sint (get0 (scoreSum r) d) \<and> c < d)"
proof -
  let ?s = "NewPluginScheduler h"
  let ?f = "feasible e ?s p cs" and ?R = "ranked e ?s p cs" and ?k = "wanted p (ranked e ?s p cs)"
  from assms(2,1) have ok: "\<not> sched_fail e ?s p cs"
    "selectClusters p ?R = Some (scheduledDecisions r)" "scoreSum r = cluster_scores e ?s p cs"
    by (cases rule: Schedule_cases, use assms(3) in auto)+
  have f: "?f = filter (eligible e h p) cs" by (rule feasible_eligible [OF ok(1)])
  have ds: "map ClusterName (scheduledDecisions r) = map Name (take ?k ?R)"
    by (rule selectClusters_Some(1) [OF ok(2)])
  have dn: "distinct (map Name ?R)" by (rule distinct_names_ranked [OF assms(4)])
  have sorted: "sorted (map (rank e ?s p cs) ?R)" by (simp add: ranked_def)
  have sub: "set (map Name (take ?k ?R)) \<subseteq> Name ` {c \<in> set cs. eligible e h p c}"
    using set_take_subset [of ?k ?R] by (auto simp: f)
  have dist: "distinct (map Name (take ?k ?R))" using dn by (simp flip: take_map)
  have best: "sint (get0 (scoreSum r) (Name c)) > sint (get0 (scoreSum r) (Name d)) \<or>
        sint (get0 (scoreSum r) (Name c)) = sint (get0 (scoreSum r) (Name d)) \<and> Name c < Name d"
    if c: "c \<in> set (take ?k ?R)" and d: "d \<in> set cs" "eligible e h p d" "Name d \<notin> set (map Name (take ?k ?R))"
    for c d
  proof -
    have dR: "d \<in> set ?R" using d by (simp add: f)
    then have "d \<in> set (drop ?k ?R)" using d(3) append_take_drop_id [of ?k ?R]
      by (metis Un_iff image_eqI list.set_map set_append)
    moreover have "sorted (map (rank e ?s p cs) (take ?k ?R) @ map (rank e ?s p cs) (drop ?k ?R))"
      using sorted by (simp flip: map_append)
    ultimately have le: "rank e ?s p cs c \<le> rank e ?s p cs d" using c by (auto simp: sorted_append)
    have "Name c \<noteq> Name d" using c d(3) by (metis image_eqI list.set_map)
    moreover have "c \<in> set ?R" using c by (rule in_set_takeD)
    ultimately show ?thesis using le dR
      by (auto simp: ok(3) cluster_scores_def get0_def rank_def less_eq_prod_def)
  qed
  show ?thesis unfolding ds using sub dist best by auto
qed

theorem Schedule_selects_best_witness:
  "\<exists>r st. Schedule sample_env sample_scheduler sample_placement sample_clusters = Some (r, st) \<and>
     map ClusterName (scheduledDecisions r) = [''c2'', ''c1''] \<and>
     set (map ClusterName (scheduledDecisions r)) \<subseteq> Name ` set sample_clusters"
  using sample_run_result unfolding sample_scheduler_def
  using Schedule_selects_best [OF sample_env_ok(1) _ _ sample_clusters_distinct] by fastforce

text \<open>C29: how many. A run that succeeds chooses exactly as many clusters as the placement asks for,
  or all eligible clusters when there are fewer or when no number is given; \<open>NumOfUnscheduled\<close> is
  what is missing and never negative.\<close>

theorem Schedule_counts:
  assumes "env_orders e" "Schedule e (NewPluginScheduler h) p cs = Some (r, st)" "\<not> IsError (Some st)"
  shows "(case NumberOfClusters (Spec p) of
      None \<Rightarrow> length (scheduledDecisions r) = length (filter (eligible e h p) cs) \<and> NumOfUnscheduled r = 0
    | Some n \<Rightarrow> 0 \<le> sint n \<and>
        length (scheduledDecisions r) = min (nat (sint n)) (length (filter (eligible e h p) cs)) \<and>
        NumOfUnscheduled r = max 0 (sint n - int (length (filter (eligible e h p) cs))))"
proof -
  let ?s = "NewPluginScheduler h"
  from assms(2,1) have ok: "\<not> sched_fail e ?s p cs"
    "selectClusters p (ranked e ?s p cs) = Some (scheduledDecisions r)"
    "unscheduledDecisions r = unscheduled_of p (scheduledDecisions r)"
    by (cases rule: Schedule_cases, use assms(3) in auto)+
  have l: "length (ranked e ?s p cs) = length (filter (eligible e h p) cs)"
    using feasible_eligible [OF ok(1)] by simp
  note d = selectClusters_Some(2) [OF ok(2), unfolded l]
  have nn: "0 \<le> sint n" if "NumberOfClusters (Spec p) = Some n" for n
    using that ok(2) selectClusters_None_iff [of p "ranked e ?s p cs"] by (cases "0 \<le> sint n") auto
  show ?thesis
  proof (cases "NumberOfClusters (Spec p)")
    case None
    then show ?thesis using d ok(3) l by (simp add: wanted_def NumOfUnscheduled_def unscheduled_of_def)
  next
    case (Some n)
    then show ?thesis using d ok(3) nn [OF Some]
      by (auto simp: wanted_def NumOfUnscheduled_def unscheduled_of_def min_def max_def split: if_splits)
  qed
qed

theorem Schedule_counts_witness:
  "\<exists>r st. Schedule sample_env sample_scheduler sample_placement sample_clusters = Some (r, st) \<and>
     length (scheduledDecisions r) = 2 \<and> 0 \<le> sint (2 :: int32)"
  using sample_run_result unfolding sample_scheduler_def
  using Schedule_counts [OF sample_env_ok(1), of _ sample_placement sample_clusters]
  by (fastforce simp: sample_placement_def builder_defs record_builders dest: arg_cong [of _ _ length])

text \<open>A run that ends with an error decides nothing: no decision, nothing unscheduled, no
  feasible cluster, no requeue; and a run ends with an error or a warning or success, each with the
  status code its cause has.\<close>

theorem Schedule_error_no_decisions:
  assumes "env_orders e" "Schedule e s p cs = Some (r, st)" "IsError (Some st)"
  shows "sched_Decisions r = [] \<and> NumOfUnscheduled r = 0 \<and> feasibleClusters r = [] \<and>
    PrioritizerScores r = Map.empty \<and> sched_RequeueAfter r = None"
  using assms(2,1)
proof (cases rule: Schedule_cases)
  case failed
  then show ?thesis
    by (simp add: no_outcome_def sched_Decisions_def NumOfUnscheduled_def PrioritizerScores_def
        sched_RequeueAfter_def)
qed (use assms(3) in simp)

definition sample_bad_placement :: Placement where
  "sample_bad_placement = WithPrioritizerPolicy ''Best'' sample_placement"

lemma sample_bad_run:
  "run_summary (Schedule sample_env sample_scheduler sample_bad_placement sample_clusters) =
     Some ([], 0, Misconfigured)"
  by code_simp

theorem Schedule_error_no_decisions_witness:
  "\<exists>r st. Schedule sample_env sample_scheduler sample_bad_placement sample_clusters = Some (r, st) \<and>
     sched_Decisions r = []"
  using run_summary_Some [OF sample_bad_run] Schedule_error_no_decisions [OF sample_env_ok(1)]
  by (metis IsError_Some)

section \<open>When a run panics\<close>

text \<open>C30: \<open>Schedule\<close> panics exactly when every check has passed and the placement asks for a
  negative number of clusters: \<open>selectClusters\<close> then slices with a negative bound. Nothing
  in the API's schema rejects such a number.\<close>

theorem Schedule_panics_iff:
  assumes "env_orders e"
  shows "Schedule e s p cs = None \<longleftrightarrow>
    \<not> sched_fail e s p cs \<and> (\<exists>n. NumberOfClusters (Spec p) = Some n \<and> sint n < 0)"
proof (cases "sched_fail e s p cs")
  case True
  then show ?thesis using Schedule_fail [OF True assms] by auto
next
  case False
  from Schedule_ok [OF False assms] obtain f where
    "Schedule e s p cs = map_option f (selectClusters p (ranked e s p cs))" by blast
  then show ?thesis using False selectClusters_None_iff [of p "ranked e s p cs"] by simp
qed

lemma sample_negative_run:
  "Option.is_none (Schedule sample_env sample_scheduler (WithNOC (- 1) sample_placement) sample_clusters)"
  by code_simp

theorem Schedule_panics_iff_witness:
  "\<not> sched_fail sample_env sample_scheduler (WithNOC (- 1) sample_placement) sample_clusters"
  using sample_negative_run
  by (simp add: Option.is_none_def Schedule_panics_iff [OF sample_env_ok(1), of sample_scheduler "WithNOC (- 1) sample_placement"])

end
