(* ===== verification/Reconcile.thy ===== *)
theory Reconcile
  imports BindProps SchedulerProps
begin

text \<open>
  A whole reconciliation (\<open>sync\<close>): when it does nothing, when it panics, what a run leaves on the API
  server, and its composition with the scheduler. What the controller relies on of a scheduler is
  the locale \<open>scheduler_api\<close>, interpreted on \<open>Schedule\<close>.
\<close>

section \<open>One reconciliation\<close>

definition active :: "Placement \<Rightarrow> bool" where
  "active p \<longleftrightarrow> time_is_zero (DeletionTimestamp p) \<and> \<not> disabled p"

definition placement_clusters :: "schedulingController \<Rightarrow> Placement \<Rightarrow> string + ManagedCluster list" where
  "placement_clusters c p = (case getValidManagedClusterSetBindings c (Namespace p) of
     Inl e \<Rightarrow> Inl e | Inr bs \<Rightarrow> getAvailableClusters c (getEligibleClusterSets p bs))"

lemma syncPlacement_inactive: "\<not> active p \<Longrightarrow> syncPlacement c p tr = Some (None, tr)"
  by (simp add: syncPlacement_def active_def)

lemma syncPlacement_no_clusters:
  "active p \<Longrightarrow> placement_clusters c p = Inl e \<Longrightarrow> syncPlacement c p tr = Some (Some e, tr)"
  by (auto simp: syncPlacement_def active_def placement_clusters_def Let_def split: sum.splits)

lemma syncPlacement_panic:
  "active p \<Longrightarrow> placement_clusters c p = Inr cls \<Longrightarrow> scheduler c tr p cls = None \<Longrightarrow> syncPlacement c p tr = None"
  by (auto simp: syncPlacement_def active_def placement_clusters_def Let_def split: sum.splits)

text \<open>The end of a run: bind, then the status.\<close>

definition run_status :: "schedulingController \<Rightarrow> Placement \<Rightarrow> ManagedCluster list \<Rightarrow> scheduleResult \<Rightarrow> Status \<Rightarrow>
    Condition list" where
  "run_status c p cls res st = (case getValidManagedClusterSetBindings c (Namespace p) of Inl e \<Rightarrow> []
     | Inr bs \<Rightarrow> [newMisconfiguredCondition st,
         newSatisfiedCondition (ClusterSets (Spec p)) (getEligibleClusterSets p bs) (length bs) (length cls)
           (length (sched_Decisions res)) (NumOfUnscheduled res) st])"

lemma syncPlacement_scheduled:
  assumes "active p" "placement_clusters c p = Inr cls" "scheduler c tr p cls = Some (res, st)"
  shows "syncPlacement c p tr =
    (case bind c p (sched_Decisions res) (PrioritizerScores res) st
            (requeue p (sched_RequeueAfter res) tr) of
       (Some er, tr1) \<Rightarrow> Some (Some er, tr1)
     | (None, tr1) \<Rightarrow> (case updateStatus c p (word_of_nat (length (sched_Decisions res)))
            (run_status c p cls res st) tr1 of
         (Some er, tr2) \<Rightarrow> Some (Some er, tr2)
       | (None, tr2) \<Rightarrow> Some (AsError (Some st), tr2)))"
proof -
  obtain bs where bs: "getValidManagedClusterSetBindings c (Namespace p) = Inr bs"
    using assms(2) by (auto simp: placement_clusters_def split: sum.splits)
  have "getAvailableClusters c (getEligibleClusterSets p bs) = Inr cls"
    using assms(2) bs by (simp add: placement_clusters_def)
  moreover have rs: "run_status c p cls res st = [newMisconfiguredCondition st,
      newSatisfiedCondition (ClusterSets (Spec p)) (getEligibleClusterSets p bs) (length bs) (length cls)
        (length (sched_Decisions res)) (NumOfUnscheduled res) st]"
    by (simp add: run_status_def bs)
  ultimately show ?thesis unfolding rs using assms(1,3) bs by (simp add: syncPlacement_def active_def)
qed

lemma syncPlacement_cases:
  assumes "syncPlacement c p tr = Some (er, tr')"
  obtains (nothing) "tr' = tr" "\<not> active p \<or> (\<exists>e. placement_clusters c p = Inl e)"
  | (bound) cls res st e1 tr1 where "active p" "placement_clusters c p = Inr cls"
      "scheduler c tr p cls = Some (res, st)"
      "bind c p (sched_Decisions res) (PrioritizerScores res) st (requeue p (sched_RequeueAfter res) tr) = (e1, tr1)"
      "tr' = tr1 \<or> e1 = None \<and> (\<exists>p' b. tr' = tr1 @ [(UpdatePlacementStatus p', b)])"
proof (cases "active p")
  case False
  then have "tr' = tr" using assms by (simp add: syncPlacement_inactive)
  then show thesis by (rule nothing) (simp add: False)
next
  case act: True
  show thesis
  proof (cases "placement_clusters c p")
    case (Inl e)
    then have "tr' = tr" using assms act by (simp add: syncPlacement_no_clusters)
    then show thesis by (rule nothing) (simp add: Inl)
  next
    case (Inr cls)
    then obtain res st where s: "scheduler c tr p cls = Some (res, st)"
      using assms act syncPlacement_panic by (cases "scheduler c tr p cls") auto
    obtain e1 tr1 where b: "bind c p (sched_Decisions res) (PrioritizerScores res) st
        (requeue p (sched_RequeueAfter res) tr) = (e1, tr1)" by fastforce
    have "tr' = tr1 \<or> e1 = None \<and> (\<exists>p' b. tr' = tr1 @ [(UpdatePlacementStatus p', b)])"
      using assms unfolding syncPlacement_scheduled [OF act Inr s] b
      by (auto simp: updateStatus_def Let_def split: option.splits if_splits)
    then show thesis using bound [OF act Inr s b] by blast
  qed
qed

lemma decs_requeue [simp]: "decs_of s0 (requeue p t tr) = decs_of s0 tr"
  by (auto simp: requeue_def decs_of_other split: option.splits)

text \<open>C20: when a reconciliation crashes the controller: exactly for a key with more than one slash
  (the placement is then nil), or when the scheduler panics on the placement and its clusters.
  Otherwise it returns.\<close>

theorem sync_panics_iff:
  "sync c key tr = None \<longleftrightarrow> 2 \<le> count_list key slash \<or>
     (\<exists>ns n p cls. SplitMetaNamespaceKey key = Some (ns, n) \<and> ns_get (placementLister c tr) ns n = Inr p \<and>
       active p \<and> placement_clusters c p = Inr cls \<and> scheduler c tr p cls = None)"
proof -
  have s: "syncPlacement c p tr = None \<longleftrightarrow>
      active p \<and> (\<exists>cls. placement_clusters c p = Inr cls \<and> scheduler c tr p cls = None)" for p
  proof (cases "syncPlacement c p tr")
    case None
    then have "active p" using syncPlacement_inactive [of p c tr] by auto
    moreover from this obtain cls where "placement_clusters c p = Inr cls"
      using None syncPlacement_no_clusters [of p c _ tr] by (cases "placement_clusters c p") auto
    moreover from calculation have "scheduler c tr p cls = None"
      using None syncPlacement_scheduled [of p c cls tr]
      by (cases "scheduler c tr p cls") (auto split: prod.splits option.splits)
    ultimately show ?thesis using None by simp
  next
    case (Some r)
    then show ?thesis using syncPlacement_panic [of p c _ tr] by (metis option.distinct(1))
  qed
  show ?thesis
  proof (cases "SplitMetaNamespaceKey key")
    case None
    then show ?thesis using SplitMetaNamespaceKey_None_iff [of key]
      by (simp add: sync_def getPlacement_def)
  next
    case (Some k)
    then have "\<not> 2 \<le> count_list key slash" using SplitMetaNamespaceKey_None_iff [of key] by simp
    then show ?thesis using Some s
      by (cases k) (auto simp: sync_def getPlacement_def split: sum.splits)
  qed
qed

text \<open>A placement that is gone, is being deleted or carries the disabling annotation is left alone:
  no call is made and no error returned, whatever decisions exist.\<close>

theorem sync_no_work:
  assumes "SplitMetaNamespaceKey key = Some (ns, n)"
    "(case ns_get (placementLister c tr) ns n of Inl e \<Rightarrow> IsNotFound e
      | Inr p \<Rightarrow> (\<exists>t. DeletionTimestamp p = Some t \<and> t \<noteq> zero_time) \<or>
          Annotations p PlacementDisableAnnotation = Some ''true'')"
  shows "sync c key tr = Some (None, tr)"
  using assms by (auto simp: sync_def getPlacement_def syncPlacement_def time_is_zero_def disabled_def
      split: sum.splits)

theorem sync_no_work_witness:
  "sync (sample_controller [] [] [] [WithDeletionTimestamp 7 (NewPlacement ''ns'' ''p'')] (\<lambda>_ _ _. None))
     ''ns/p'' [] = Some (None, []) \<and>
   sync (sample_controller [] [] [] [] (\<lambda>_ _ _. None)) ''ns/q'' [] = Some (None, [])"
proof -
  have k: "SplitMetaNamespaceKey ''ns/p'' = Some (''ns'', ''p'')"
    "SplitMetaNamespaceKey ''ns/q'' = Some (''ns'', ''q'')" by code_simp+
  show ?thesis
    by (intro conjI sync_no_work [OF k(1)] sync_no_work [OF k(2)])
      (simp_all add: sample_controller_def cache_ns_lister_def GetByKey_def MetaNamespaceKey_def slash_def
        WithDeletionTimestamp_def zero_time_def)
qed

section \<open>The conditions of the status\<close>

text \<open>A stored condition shows a new one when they agree on all but the transition time.\<close>

definition displays :: "Condition \<Rightarrow> Condition \<Rightarrow> bool" where
  "displays x c \<longleftrightarrow> cond_Type x = cond_Type c \<and> cond_Status x = cond_Status c \<and> cond_Reason x = cond_Reason c \<and>
     cond_Message x = cond_Message c \<and> ObservedGeneration x = ObservedGeneration c"

lemma find_append: "find P (xs @ ys) = (case find P xs of None \<Rightarrow> find P ys | Some x \<Rightarrow> Some x)"
  by (induction xs) auto

lemma find_update_first_same:
  "(\<And>x. P (f x) = P x) \<Longrightarrow> find P (update_first P f xs) = map_option f (find P xs)"
  by (induction xs) auto

lemma find_update_first_other:
  "(\<And>x. P x \<Longrightarrow> \<not> Q x \<and> \<not> Q (f x)) \<Longrightarrow> find Q (update_first P f xs) = find Q xs"
  by (induction xs) auto

lemma update_first_id: "find P xs = Some x \<Longrightarrow> f x = x \<Longrightarrow> update_first P f xs = xs"
  by (induction xs) auto

lemma update_existing_simps [simp]:
  "cond_Type (update_existing now c x) = cond_Type x"
  "cond_Status (update_existing now c x) = cond_Status c"
  "cond_Reason (update_existing now c x) = cond_Reason c"
  "cond_Message (update_existing now c x) = cond_Message c"
  "ObservedGeneration (update_existing now c x) = ObservedGeneration c"
  "cond_Status x = cond_Status c \<Longrightarrow> LastTransitionTime (update_existing now c x) = LastTransitionTime x"
  by (simp_all add: update_existing_def Let_def)

lemma update_existing_id: "displays x c \<Longrightarrow> update_existing now c x = x"
  by (simp add: displays_def update_existing_def)

lemma Find_type: "FindStatusCondition cs t = Some x \<Longrightarrow> cond_Type x = t"
  by (auto simp: FindStatusCondition_def find_Some_iff)

lemma Find_Set_same:
  "\<exists>x. FindStatusCondition (SetStatusCondition now cs c) (cond_Type c) = Some x \<and> displays x c \<and>
     (\<forall>old. FindStatusCondition cs (cond_Type c) = Some old \<and> cond_Status old = cond_Status c \<longrightarrow>
       LastTransitionTime x = LastTransitionTime old)"
proof (cases "FindStatusCondition cs (cond_Type c)")
  case None
  then show ?thesis by (auto simp: SetStatusCondition_def FindStatusCondition_def find_append displays_def)
next
  case (Some old)
  have "find (\<lambda>x. cond_Type x = cond_Type c)
      (update_first (\<lambda>x. cond_Type x = cond_Type c) (update_existing now c) cs) =
      map_option (update_existing now c) (find (\<lambda>x. cond_Type x = cond_Type c) cs)"
    by (rule find_update_first_same) simp
  then show ?thesis using Some Find_type [OF Some]
    by (simp add: SetStatusCondition_def FindStatusCondition_def displays_def)
qed

lemma Find_Set_other:
  assumes "t \<noteq> cond_Type c"
  shows "FindStatusCondition (SetStatusCondition now cs c) t = FindStatusCondition cs t"
proof (cases "FindStatusCondition cs (cond_Type c)")
  case None
  then show ?thesis using assms
    by (auto simp: SetStatusCondition_def FindStatusCondition_def find_append split: option.splits)
next
  case (Some old)
  have "find (\<lambda>x. cond_Type x = t) (update_first (\<lambda>x. cond_Type x = cond_Type c) (update_existing now c) cs) =
      find (\<lambda>x. cond_Type x = t) cs"
    by (rule find_update_first_other) (use assms in auto)
  then show ?thesis using Some by (simp add: SetStatusCondition_def FindStatusCondition_def)
qed

lemma Set_shown:
  "FindStatusCondition cs (cond_Type c) = Some x \<Longrightarrow> displays x c \<Longrightarrow> SetStatusCondition now cs c = cs"
  by (simp add: SetStatusCondition_def FindStatusCondition_def update_first_id update_existing_id)

lemma new_status_two:
  "Conditions (new_status ce st n [a, b]) = SetStatusCondition (StatusNow ce (cond_Type b))
     (SetStatusCondition (StatusNow ce (cond_Type a)) (Conditions st) a) b"
  "NumberOfSelectedClusters (new_status ce st n [a, b]) = n"
  by (simp_all add: new_status_def)

lemma new_status_idem:
  assumes "cond_Type a \<noteq> cond_Type b"
  shows "new_status ce (new_status ce st n [a, b]) n [a, b] = new_status ce st n [a, b]"
proof -
  let ?cs1 = "SetStatusCondition (StatusNow ce (cond_Type a)) (Conditions st) a"
  let ?cs2 = "SetStatusCondition (StatusNow ce (cond_Type b)) ?cs1 b"
  obtain x where "FindStatusCondition ?cs2 (cond_Type a) = Some x" "displays x a"
    unfolding Find_Set_other [OF assms] using Find_Set_same by blast
  moreover obtain y where "FindStatusCondition ?cs2 (cond_Type b) = Some y" "displays y b"
    using Find_Set_same by blast
  ultimately have "SetStatusCondition now ?cs2 a = ?cs2" "SetStatusCondition now' ?cs2 b = ?cs2" for now now'
    using Set_shown by blast+
  then show ?thesis by (simp add: new_status_def)
qed

text \<open>C19: the status update. Both conditions are set to the new ones, keeping their transition
  time while their status stays; conditions of other types are untouched; the update is
  idempotent; and the API server is called exactly when the status changes.\<close>

theorem updateStatus_spec:
  fixes c :: schedulingController and p :: Placement and n :: int32 and a b :: Condition
  assumes "cond_Type a \<noteq> cond_Type b"
  defines "st \<equiv> PStatus p" and "st' \<equiv> new_status (cenv c) (PStatus p) n [a, b]"
  shows "(\<forall>cnd \<in> {a, b}. \<exists>x. FindStatusCondition (Conditions st') (cond_Type cnd) = Some x \<and> displays x cnd \<and>
      (\<forall>old. FindStatusCondition (Conditions st) (cond_Type cnd) = Some old \<and>
        cond_Status old = cond_Status cnd \<longrightarrow> LastTransitionTime x = LastTransitionTime old)) \<and>
    (\<forall>t. t \<notin> {cond_Type a, cond_Type b} \<longrightarrow>
      FindStatusCondition (Conditions st') t = FindStatusCondition (Conditions st) t) \<and>
    NumberOfSelectedClusters st' = n \<and> new_status (cenv c) st' n [a, b] = st' \<and>
    (\<exists>ok. snd (updateStatus c p n [a, b] tr) =
      tr @ (if st' = st then [] else [(UpdatePlacementStatus (p\<lparr>PStatus := st'\<rparr>), ok)]))"
proof -
  let ?cs1 = "SetStatusCondition (StatusNow (cenv c) (cond_Type a)) (Conditions st) a"
  have c: "Conditions st' = SetStatusCondition (StatusNow (cenv c) (cond_Type b)) ?cs1 b"
    unfolding st'_def st_def by (rule new_status_two)
  have a: "\<exists>x. FindStatusCondition (Conditions st') (cond_Type a) = Some x \<and> displays x a \<and>
      (\<forall>old. FindStatusCondition (Conditions st) (cond_Type a) = Some old \<and>
        cond_Status old = cond_Status a \<longrightarrow> LastTransitionTime x = LastTransitionTime old)"
    unfolding c Find_Set_other [OF assms(1)] by (rule Find_Set_same)
  have b: "\<exists>x. FindStatusCondition (Conditions st') (cond_Type b) = Some x \<and> displays x b \<and>
      (\<forall>old. FindStatusCondition (Conditions st) (cond_Type b) = Some old \<and>
        cond_Status old = cond_Status b \<longrightarrow> LastTransitionTime x = LastTransitionTime old)"
    using Find_Set_same [of "StatusNow (cenv c) (cond_Type b)" ?cs1 b]
    unfolding c Find_Set_other [OF assms(1) [symmetric]] .
  have idem: "new_status (cenv c) st' n [a, b] = st'"
    unfolding st'_def by (rule new_status_idem [OF assms(1)])
  have other: "FindStatusCondition (Conditions st') t = FindStatusCondition (Conditions st) t"
    if "t \<notin> {cond_Type a, cond_Type b}" for t
    unfolding c using that by (simp add: Find_Set_other)
  have num: "NumberOfSelectedClusters st' = n" unfolding st'_def by (rule new_status_two)
  have "updateStatus c p n [a, b] tr = (if st' = st then (None, tr)
      else case client_UpdatePlacementStatus (client c) tr (p\<lparr>PStatus := st'\<rparr>) of
        None \<Rightarrow> (None, tr @ [(UpdatePlacementStatus (p\<lparr>PStatus := st'\<rparr>), True)])
      | Some er \<Rightarrow> (Some (api_err_text er), tr @ [(UpdatePlacementStatus (p\<lparr>PStatus := st'\<rparr>), False)]))"
    by (simp add: updateStatus_def Let_def st_def st'_def split: option.split)
  then have calls: "\<exists>ok. snd (updateStatus c p n [a, b] tr) =
      tr @ (if st' = st then [] else [(UpdatePlacementStatus (p\<lparr>PStatus := st'\<rparr>), ok)])"
    by (auto split: option.splits)
  show ?thesis using a b other num idem calls by blast
qed

text \<open>A status that was ready and stays so, with a condition of another controller.\<close>

definition sample_status_placement :: Placement where
  "sample_status_placement = (NewPlacement ''ns'' ''p'')\<lparr>PStatus := \<lparr>NumberOfSelectedClusters = 1,
     Conditions = [(condition ''Other'' ConditionTrue ''r'' ''m'')\<lparr>LastTransitionTime := 5\<rparr>,
       (condition PlacementConditionSatisfied ConditionTrue ''old'' '''')\<lparr>LastTransitionTime := 7\<rparr>]\<rparr>\<rparr>"

theorem updateStatus_spec_witness:
  "NumberOfSelectedClusters (new_status sample_cenv (PStatus sample_status_placement) 2
     [newMisconfiguredCondition (NewStatus '''' Success []), newSatisfiedCondition [] [''s''] 1 2 2 0 (NewStatus '''' Success [])]) = 2"
proof -
  let ?a = "newMisconfiguredCondition (NewStatus '''' Success [])"
  let ?b = "newSatisfiedCondition [] [''s''] 1 2 2 0 (NewStatus '''' Success [])"
  have "cond_Type ?a \<noteq> cond_Type ?b"
    by (simp add: newMisconfiguredCondition_def newSatisfiedCondition_def condition_def)
  from updateStatus_spec [OF this, where p = sample_status_placement and n = 2 and
      c = "sample_controller [] [] [] [] (\<lambda>_ _ _. None)"]
  show ?thesis by (simp add: sample_controller_def)
qed

lemma condition_types [simp]:
  "cond_Type (newMisconfiguredCondition st) = PlacementConditionMisconfigured"
  "cond_Type (newSatisfiedCondition cs es nb na nf nu st) = PlacementConditionSatisfied"
  by (simp_all add: newMisconfiguredCondition_def newSatisfiedCondition_def condition_def Let_def)

section \<open>Convergence\<close>

text \<open>The status of a placement after some calls.\<close>

definition status_after :: "Placement \<Rightarrow> trace \<Rightarrow> PlacementStatus" where
  "status_after p acts = foldl (\<lambda>s (a, ok). case a of
     UpdatePlacementStatus q \<Rightarrow> if ok \<and> placement_key q = placement_key p then PStatus q else s | _ \<Rightarrow> s)
     (PStatus p) acts"

lemma status_after_snoc: "status_after p (acts @ [(a, ok)]) = (case a of
     UpdatePlacementStatus q \<Rightarrow> if ok \<and> placement_key q = placement_key p then PStatus q else status_after p acts
   | _ \<Rightarrow> status_after p acts)"
  by (cases a) (simp_all add: status_after_def)

definition placement_update :: "action \<Rightarrow> bool" where
  "placement_update a = (case a of UpdatePlacementStatus q \<Rightarrow> True | _ \<Rightarrow> False)"

lemma status_after_none: "list_all (\<lambda>x. \<not> placement_update (fst x)) acts \<Longrightarrow> status_after p acts = PStatus p"
proof (induction acts rule: rev_induct)
  case (snoc x acts)
  then show ?case by (cases x) (auto simp: status_after_snoc placement_update_def split: action.splits)
qed (simp add: status_after_def)

lemma placement_key_status [simp]: "placement_key (p\<lparr>PStatus := s\<rparr>) = placement_key p"
  by (simp add: placement_key_def)

lemma no_placement_update:
  "slice_action p ss a \<Longrightarrow> \<not> placement_update a" "redundant_action p ss pds a \<Longrightarrow> \<not> placement_update a"
  by (cases a; auto simp: slice_action_def redundant_action_def placement_update_def)+

lemma requeue_app: "\<exists>acts. requeue p t tr = tr @ acts \<and> list_all (\<lambda>x. \<not> placement_update (fst x)) acts"
  by (cases t) (auto simp: requeue_def placement_update_def)

lemma bind_app:
  assumes "bind (on_server c fails s0 shown) p ds sc st tr = (er, tr')" "wf_meta p"
  shows "\<exists>acts. tr' = tr @ acts \<and> list_all (\<lambda>x. \<not> placement_update (fst x)) acts"
proof -
  have s: "slash \<notin> set (Namespace p)" "Namespace p \<noteq> []" using assms(2) by (simp_all add: wf_meta_def)
  from server.bind_trace [OF assms(1) s] obtain ws dels pds where "tr' = tr @ ws @ dels"
    "list_all (slice_action p (decision_slices (sort_key ClusterName ds)) \<circ> fst) ws"
    "list_all (redundant_action p (decision_slices (sort_key ClusterName ds)) pds \<circ> fst) dels" by blast
  then have "list_all (\<lambda>x. \<not> placement_update (fst x)) (ws @ dels)"
    by (auto simp: list_all_iff dest: no_placement_update)
  then show ?thesis using \<open>tr' = tr @ ws @ dels\<close> by blast
qed

lemma placement_clusters_on_server [simp]:
  "placement_clusters (on_server c fails s0 shown) p = placement_clusters c p"
proof -
  have steps: "binding_step (on_server c fails s0 shown) = binding_step c"
    "available_step (on_server c fails s0 shown) = available_step c"
    by (intro ext; simp only: binding_step_def available_step_def on_server_simps)+
  show ?thesis
    unfolding placement_clusters_def getValidManagedClusterSetBindings_def getAvailableClusters_def
      on_server_simps steps ..
qed

lemma run_status_on_server [simp]:
  "run_status (on_server c fails s0 shown) p cls res st = run_status c p cls res st"
proof -
  have step: "binding_step (on_server c fails s0 shown) = binding_step c"
    by (intro ext) (simp only: binding_step_def on_server_simps)
  show ?thesis unfolding run_status_def getValidManagedClusterSetBindings_def on_server_simps step ..
qed

lemma run_status_two:
  assumes "placement_clusters c p = Inr cls"
  obtains a b where "run_status c p cls res st = [a, b]" "cond_Type a \<noteq> cond_Type b"
  using assms that by (auto simp: placement_clusters_def run_status_def split: sum.splits)

lemma wf_meta_key:
  "wf_meta p \<Longrightarrow> getPlacement c (placement_queue_key p) tr =
     (case ns_get (placementLister c tr) (Namespace p) (Name p) of Inl e \<Rightarrow> Inl e | Inr q \<Rightarrow> Inr (Some q))"
  by (simp add: getPlacement_def placement_queue_key_def SplitMetaNamespaceKey_key)

lemma sync_scheduled:
  assumes p: "ns_get (placementLister c tr) (Namespace p) (Name p) = Inr p" "active p" "wf_meta p"
      "is_valid_label_value (Name p)"
    and cls: "placement_clusters c p = Inr cls" and sch: "scheduler c tr p cls = Some (res, st)"
    and inv: "decisions_inv (decs_of s0 tr)"
  shows "\<exists>acts. sync (fresh_server c no_failures s0) (placement_queue_key p) tr =
      Some (AsError (Some st), tr @ acts) \<and>
    decisions_view (decs_of s0 (tr @ acts)) =
      (decisions_view (decs_of s0 tr))(placement_key p := wanted_decisions p (sched_Decisions res)) \<and>
    decisions_inv (decs_of s0 (tr @ acts)) \<and>
    status_after p acts = new_status (cenv c) (PStatus p) (word_of_nat (length (sched_Decisions res)))
      (run_status c p cls res st)"
proof -
  let ?c = "fresh_server c no_failures s0" and ?tr0 = "requeue p (sched_RequeueAfter res) tr"
  let ?st' = "new_status (cenv c) (PStatus p) (word_of_nat (length (sched_Decisions res))) (run_status c p cls res st)"
  have s: "slash \<notin> set (Namespace p)" "Namespace p \<noteq> []" using p(3) by (simp_all add: wf_meta_def)
  obtain tr1 where b: "bind ?c p (sched_Decisions res) (PrioritizerScores res) st ?tr0 = (None, tr1)"
    using reliable.bind_succeeds [OF p(3,4), of c s0 "sched_Decisions res" "PrioritizerScores res" st ?tr0]
    unfolding no_failures_def by (metis prod.collapse)
  obtain a0 where a0: "?tr0 = tr @ a0" "list_all (\<lambda>x. \<not> placement_update (fst x)) a0"
    using requeue_app by blast
  obtain a1 where a1: "tr1 = ?tr0 @ a1" "list_all (\<lambda>x. \<not> placement_update (fst x)) a1"
    using bind_app [OF b p(3)] by blast
  have inv0: "decisions_inv (decs_of s0 ?tr0)" using inv by simp
  have view: "decisions_view (decs_of s0 tr1) =
      (decisions_view (decs_of s0 tr))(placement_key p := wanted_decisions p (sched_Decisions res))"
    using fresh.bind_refines [OF b s inv0] by simp
  have inv1: "decisions_inv (decs_of s0 tr1)" by (rule server.bind_inv [OF b s(1) inv0])
  define a2 where "a2 = (if ?st' = PStatus p then [] else [(UpdatePlacementStatus (p\<lparr>PStatus := ?st'\<rparr>), True)])"
  have u: "updateStatus ?c p (word_of_nat (length (sched_Decisions res))) (run_status c p cls res st) tr1 =
      (None, tr1 @ a2)"
    by (simp add: updateStatus_def Let_def server_client_def no_failures_def a2_def)
  have "sync ?c (placement_queue_key p) tr = syncPlacement ?c p tr"
    by (simp add: sync_def wf_meta_key [OF p(3)] p(1))
  also have "\<dots> = Some (AsError (Some st), tr1 @ a2)"
    using syncPlacement_scheduled [of p ?c cls tr res st] p(2) cls sch b u by simp
  finally have run: "sync ?c (placement_queue_key p) tr = Some (AsError (Some st), tr @ (a0 @ a1 @ a2))"
    using a0(1) a1(1) by simp
  have d2: "decs_of s0 (tr1 @ a2) = decs_of s0 tr1" by (simp add: a2_def decs_of_other)
  have "status_after p (a0 @ a1) = PStatus p" using a0(2) a1(2) by (intro status_after_none) simp
  then have "status_after p ((a0 @ a1) @ a2) = ?st'"
    unfolding a2_def by (simp only: status_after_snoc split: if_split) simp
  moreover have "decs_of s0 (tr @ (a0 @ a1 @ a2)) = decs_of s0 tr1"
    using d2 a0(1) a1(1) by (metis append.assoc)
  ultimately show ?thesis using run view inv1 by (intro exI [of _ "a0 @ a1 @ a2"]) simp
qed

text \<open>Convergence. From any state of the decisions, one reconciliation of an active placement
  that the API server does not fail ends with the scheduler's decisions as the placement's
  decisions, other placements' decisions unchanged, the placement's status set from the run, and
  the error of the scheduler's status as its result.\<close>

theorem sync_converges:
  assumes "ns_get (placementLister c tr) (Namespace p) (Name p) = Inr p" "active p" "wf_meta p"
      "is_valid_label_value (Name p)" "placement_clusters c p = Inr cls"
      "scheduler c tr p cls = Some (res, st)" "decisions_inv (decs_of s0 tr)"
  shows "\<exists>acts. sync (fresh_server c no_failures s0) (placement_queue_key p) tr =
      Some (AsError (Some st), tr @ acts) \<and>
    decisions_view (decs_of s0 (tr @ acts)) =
      (decisions_view (decs_of s0 tr))(placement_key p := wanted_decisions p (sched_Decisions res)) \<and>
    status_after p acts = new_status (cenv c) (PStatus p) (word_of_nat (length (sched_Decisions res)))
      (run_status c p cls res st)"
  using sync_scheduled [OF assms] by blast

text \<open>Where the decisions and the status are already the run's, a reconciliation makes no call.\<close>

lemma sync_idle:
  assumes p: "ns_get (placementLister c tr) (Namespace p) (Name p) = Inr p" "active p" "wf_meta p"
      "is_valid_label_value (Name p)"
    and cls: "placement_clusters c p = Inr cls" and sch: "scheduler c tr p cls = Some (res, st)"
    and view: "decisions_view (decs_of s0 tr) (placement_key p) = wanted_decisions p (sched_Decisions res)"
    and status: "PStatus p = new_status (cenv c) old (word_of_nat (length (sched_Decisions res)))
      (run_status c p cls res st)"
  shows "sync (fresh_server c fails s0) (placement_queue_key p) tr =
    Some (AsError (Some st), requeue p (sched_RequeueAfter res) tr)"
proof -
  let ?c = "fresh_server c fails s0" and ?tr0 = "requeue p (sched_RequeueAfter res) tr"
  have s: "slash \<notin> set (Namespace p)" "Namespace p \<noteq> []" using p(3) by (simp_all add: wf_meta_def)
  have b: "bind ?c p (sched_Decisions res) (PrioritizerScores res) st ?tr0 = (None, ?tr0)"
    by (rule fresh.bind_idle [OF s p(4)]) (simp add: view)
  obtain x y where xy: "run_status c p cls res st = [x, y]" "cond_Type x \<noteq> cond_Type y"
    by (rule run_status_two [OF cls])
  have "new_status (cenv c) (PStatus p) (word_of_nat (length (sched_Decisions res))) [x, y] = PStatus p"
    unfolding status xy(1) by (rule new_status_idem [OF xy(2)])
  then have u: "updateStatus ?c p (word_of_nat (length (sched_Decisions res))) (run_status c p cls res st) ?tr0 =
      (None, ?tr0)"
    by (simp add: updateStatus_def Let_def xy(1))
  have "sync ?c (placement_queue_key p) tr = syncPlacement ?c p tr"
    by (simp add: sync_def wf_meta_key [OF p(3)] p(1))
  then show ?thesis using syncPlacement_scheduled [of p ?c cls tr res st] p(2) cls sch b u by simp
qed

text \<open>C17: the steady state. When the placement's decisions and status are what the run computes, the
  run makes no call to the API server, whatever calls it would fail; only the requeue is left.\<close>

theorem sync_steady_state:
  assumes p: "ns_get (placementLister c tr) (Namespace p) (Name p) = Inr p" "active p" "wf_meta p"
      "is_valid_label_value (Name p)"
    and cls: "placement_clusters c p = Inr cls" and sch: "scheduler c tr p cls = Some (res, st)"
    and view: "decisions_view (decs_of s0 tr) (placement_key p) = wanted_decisions p (sched_Decisions res)"
    and status: "PStatus p = new_status (cenv c) old (word_of_nat (length (sched_Decisions res)))
      (run_status c p cls res st)"
  shows "sync (fresh_server c fails s0) (placement_queue_key p) tr =
    Some (AsError (Some st), requeue p (sched_RequeueAfter res) tr)"
  using assms by (rule sync_idle)

end
