(* ===== verification/EndToEnd.thy ===== *)
theory EndToEnd
  imports Reconcile
begin

text \<open>
  The controller with its scheduler. \<open>scheduler_api\<close> is what the controller relies on of a
  scheduler; it is interpreted on \<open>Schedule\<close> with the plugins of \<open>NewPluginScheduler\<close>. The last
  theorems are about the whole program: what the decisions of a placement are after a
  reconciliation, and when its status says it is satisfied.
\<close>

section \<open>The clusters of a placement\<close>

text \<open>A cluster is available to a placement through a set that exists, is bound to the placement's
  namespace, is named by the placement (if it names any) and selects the cluster.\<close>

definition available_to ::
  "ManagedClusterSet list \<Rightarrow> ManagedClusterSetBinding list \<Rightarrow> Placement \<Rightarrow> ManagedCluster \<Rightarrow> bool" where
  "available_to sets bindings p cl \<longleftrightarrow> (\<exists>s \<in> set sets. \<exists>b \<in> set bindings. Namespace b = Namespace p \<and>
     Name b = Name s \<and> (ClusterSets (Spec p) = [] \<or> Name s \<in> set (ClusterSets (Spec p))) \<and> set_matches s cl)"

lemma placement_clusters_cached:
  assumes c: "cached c clusters sets bindings" and v: "\<forall>s \<in> set sets. valid_set s" and ns: "Namespace p \<noteq> []"
  shows "\<exists>cls. placement_clusters c p = Inr cls \<and> distinct (map Name cls) \<and>
    set cls = {cl \<in> set clusters. available_to sets bindings p cl}"
proof -
  let ?bs = "filter (\<lambda>b. Namespace b = Namespace p \<and> Name b \<in> Name ` set sets) bindings"
  let ?ns = "getEligibleClusterSets p ?bs"
  obtain cls where cls: "getAvailableClusters c ?ns = Inr cls" "distinct (map Name cls)"
    "set cls = {cl \<in> set clusters. \<exists>n \<in> set ?ns. in_set_named sets n cl}"
    using getAvailableClusters_cached [OF c, of ?ns] v by blast
  have m: "n \<in> set ?ns \<longleftrightarrow> (\<exists>b \<in> set bindings. Namespace b = Namespace p \<and> Name b = n) \<and>
      n \<in> Name ` set sets \<and> (ClusterSets (Spec p) = [] \<or> n \<in> set (ClusterSets (Spec p)))" for n
    unfolding set_getEligibleClusterSets set_filter image_iff mem_Collect_eq Bex_def by metis
  have "(\<exists>n \<in> set ?ns. in_set_named sets n cl) \<longleftrightarrow> available_to sets bindings p cl" for cl
  proof
    assume "\<exists>n \<in> set ?ns. in_set_named sets n cl"
    then obtain n s where n: "n \<in> set ?ns" and s: "s \<in> set sets" "Name s = n" "set_matches s cl"
      by (auto simp: in_set_named_def)
    from n obtain b where "b \<in> set bindings" "Namespace b = Namespace p" "Name b = n"
      "ClusterSets (Spec p) = [] \<or> n \<in> set (ClusterSets (Spec p))" unfolding m by auto
    with s show "available_to sets bindings p cl" by (auto simp: available_to_def)
  next
    assume "available_to sets bindings p cl"
    then obtain s b where "s \<in> set sets" "b \<in> set bindings" "Namespace b = Namespace p" "Name b = Name s"
      "ClusterSets (Spec p) = [] \<or> Name s \<in> set (ClusterSets (Spec p))" "set_matches s cl"
      by (auto simp: available_to_def)
    then have "Name s \<in> set ?ns" "in_set_named sets (Name s) cl"
      unfolding m by (auto simp: in_set_named_def)
    then show "\<exists>n \<in> set ?ns. in_set_named sets n cl" by blast
  qed
  moreover have "placement_clusters c p = Inr cls"
    using cls(1) getValidManagedClusterSetBindings_cached [OF c ns] by (simp add: placement_clusters_def)
  ultimately show ?thesis using cls(2,3) by auto
qed

text \<open>C16: the clusters handed to the scheduler are, each once, exactly the clusters available to the
  placement, whatever the iteration order of the map they are collected in.\<close>

theorem available_clusters_spec:
  assumes "cached c clusters sets bindings" "\<forall>s \<in> set sets. valid_set s" "Namespace p \<noteq> []"
  shows "\<exists>cls. placement_clusters c p = Inr cls \<and> distinct (map Name cls) \<and>
    set cls = {cl \<in> set clusters. available_to sets bindings p cl}"
  by (rule placement_clusters_cached [OF assms])

section \<open>What the controller relies on of a scheduler\<close>

definition asked :: "Placement \<Rightarrow> nat \<Rightarrow> nat" where
  "asked p n = (case NumberOfClusters (Spec p) of None \<Rightarrow> n | Some k \<Rightarrow> min (nat (sint k)) n)"

locale scheduler_api =
  fixes sched :: "SchedEnv \<Rightarrow> Placement \<Rightarrow> ManagedCluster list \<Rightarrow> (scheduleResult \<times> Status) option"
    and elig :: "SchedEnv \<Rightarrow> Placement \<Rightarrow> ManagedCluster \<Rightarrow> bool"
  assumes failed: "env_orders e \<Longrightarrow> sched e p cs = Some (r, st) \<Longrightarrow> IsError (Some st) \<Longrightarrow>
      sched_Decisions r = []"
    and chosen: "env_orders e \<Longrightarrow> sched e p cs = Some (r, st) \<Longrightarrow> \<not> IsError (Some st) \<Longrightarrow>
      distinct (map Name cs) \<Longrightarrow> distinct (map ClusterName (sched_Decisions r)) \<and>
      ClusterName ` set (sched_Decisions r) \<subseteq> Name ` {c \<in> set cs. elig e p c}"
    and counted: "env_orders e \<Longrightarrow> sched e p cs = Some (r, st) \<Longrightarrow> \<not> IsError (Some st) \<Longrightarrow>
      length (sched_Decisions r) = asked p (length (filter (elig e p) cs)) \<and>
      NumOfUnscheduled r = (case NumberOfClusters (Spec p) of None \<Rightarrow> 0
        | Some n \<Rightarrow> sint n - int (length (sched_Decisions r)))"
    and panics: "env_orders e \<Longrightarrow> sched e p cs = None \<Longrightarrow>
      \<exists>n. NumberOfClusters (Spec p) = Some n \<and> sint n < 0"
begin

text \<open>The clusters chosen, as a set.\<close>

lemma chosen_clusters:
  assumes "env_orders e" "sched e p cs = Some (r, st)" "distinct (map Name cs)"
  shows "if IsError (Some st) then sched_Decisions r = []
    else ClusterName ` set (sched_Decisions r) \<subseteq> Name ` {c \<in> set cs. elig e p c} \<and>
      card (ClusterName ` set (sched_Decisions r)) = asked p (card {c \<in> set cs. elig e p c})"
proof (cases "IsError (Some st)")
  case True
  then show ?thesis using failed [OF assms(1,2)] by simp
next
  case False
  note ch = chosen [OF assms(1,2) False assms(3)] and co = counted [OF assms(1,2) False]
  have "card (ClusterName ` set (sched_Decisions r)) = length (sched_Decisions r)"
    using ch distinct_card [of "map ClusterName (sched_Decisions r)"] by simp
  moreover have "card {c \<in> set cs. elig e p c} = length (filter (elig e p) cs)"
    using assms(3) distinct_card [of "filter (elig e p) cs"] by (simp add: distinct_map)
  ultimately show ?thesis using False ch co by simp
qed

text \<open>When the condition is true.\<close>

lemma satisfied_iff:
  assumes "env_orders e" "sched e p cs = Some (r, st)" "distinct (map Name cs)"
  shows "cond_Status (newSatisfiedCondition ss es nb na (length (sched_Decisions r)) (NumOfUnscheduled r) st) =
      ConditionTrue \<longleftrightarrow>
    nb \<noteq> 0 \<and> es \<noteq> [] \<and> na \<noteq> 0 \<and> \<not> IsError (Some st) \<and> 0 < card {c \<in> set cs. elig e p c} \<and>
    (\<forall>n. NumberOfClusters (Spec p) = Some n \<longrightarrow> 0 < sint n \<and> sint n \<le> int (card {c \<in> set cs. elig e p c}))"
proof (cases "IsError (Some st)")
  case True
  then show ?thesis using failed [OF assms(1,2) True]
    by (simp add: newSatisfiedCondition_def condition_def Let_def)
next
  case False
  note co = counted [OF assms(1,2) False]
  have l: "card {c \<in> set cs. elig e p c} = length (filter (elig e p) cs)"
    using assms(3) distinct_card [of "filter (elig e p) cs"] by (simp add: distinct_map)
  have "code st \<noteq> Error" using False by (simp add: IsError_Some)
  then have "cond_Status (newSatisfiedCondition ss es nb na (length (sched_Decisions r)) (NumOfUnscheduled r) st) =
      ConditionTrue \<longleftrightarrow> nb \<noteq> 0 \<and> es \<noteq> [] \<and> na \<noteq> 0 \<and> length (sched_Decisions r) \<noteq> 0 \<and> NumOfUnscheduled r = 0"
    by (simp add: newSatisfiedCondition_def condition_def Let_def)
  then show ?thesis using False co unfolding l
    by (cases "NumberOfClusters (Spec p)") (auto simp: asked_def min_def split: if_splits)
qed

end

lemma Schedule_chosen:
  assumes "env_orders e" "Schedule e (NewPluginScheduler h) p cs = Some (r, st)" "\<not> IsError (Some st)"
  shows "\<not> sched_fail e (NewPluginScheduler h) p cs"
    "selectClusters p (ranked e (NewPluginScheduler h) p cs) = Some (scheduledDecisions r)"
    "unscheduledDecisions r = unscheduled_of p (scheduledDecisions r)"
    "set (ranked e (NewPluginScheduler h) p cs) = {c \<in> set cs. eligible e h p c}"
    "length (ranked e (NewPluginScheduler h) p cs) = length (filter (eligible e h p) cs)"
proof -
  from assms(2,1) show ok: "\<not> sched_fail e (NewPluginScheduler h) p cs"
    "selectClusters p (ranked e (NewPluginScheduler h) p cs) = Some (scheduledDecisions r)"
    "unscheduledDecisions r = unscheduled_of p (scheduledDecisions r)"
    by (cases rule: Schedule_cases, use assms(3) in auto)+
  show "set (ranked e (NewPluginScheduler h) p cs) = {c \<in> set cs. eligible e h p c}"
    "length (ranked e (NewPluginScheduler h) p cs) = length (filter (eligible e h p) cs)"
    using feasible_eligible [OF ok(1)] by auto
qed

interpretation plugin_sched: scheduler_api "\<lambda>e. Schedule e (NewPluginScheduler h)" "\<lambda>e. eligible e h" for h
proof (unfold_locales, goal_cases)
  case (1 e p cs r st)
  from 1(2,1) show ?case
    by (cases rule: Schedule_cases) (use 1(3) in \<open>simp_all add: no_outcome_def sched_Decisions_def\<close>)
next
  case (2 e p cs r st)
  note s = Schedule_chosen [OF 2(1,2,3)]
  have "distinct (map Name (ranked e (NewPluginScheduler h) p cs))" by (rule distinct_names_ranked [OF 2(4)])
  then show ?case
    using selectClusters_Some(1) [OF s(2)] s(4) set_take_subset
    by (auto simp: sched_Decisions_def simp flip: set_map take_map) (force dest: in_set_takeD)
next
  case (3 e p cs r st)
  note s = Schedule_chosen [OF 3(1,2,3)]
  show ?case using selectClusters_Some(2) [OF s(2)] s(3,5)
    by (auto simp: sched_Decisions_def NumOfUnscheduled_def unscheduled_of_def wanted_def asked_def
        split: option.splits)
next
  case (4 e p cs)
  show ?case
  proof (cases "sched_fail e (NewPluginScheduler h) p cs")
    case True
    then show ?thesis using Schedule_fail [OF True 4(1)] 4(2) by auto
  next
    case False
    then show ?thesis using Schedule_ok [OF False 4(1)] 4(2) selectClusters_None_iff
      by (auto simp: map_option_case split: option.splits)
  qed
qed

section \<open>The whole program\<close>

definition with_scheduler ::
  "schedulingController \<Rightarrow> (trace \<Rightarrow> SchedEnv) \<Rightarrow> (trace \<Rightarrow> Handle) \<Rightarrow> schedulingController" where
  "with_scheduler c e h = c\<lparr>scheduler := (\<lambda>tr p cls. Schedule (e tr) (NewPluginScheduler (h tr)) p cls)\<rparr>"

text \<open>The names of the clusters in a placement's decisions.\<close>

definition placed :: "decisions_map \<Rightarrow> string \<times> string \<Rightarrow> string set" where
  "placed m k = {ClusterName d |n s d. decisions_view m k n = Some s \<and> d \<in> set s}"

definition good_clusters :: "ManagedCluster list \<Rightarrow> ManagedClusterSet list \<Rightarrow> ManagedClusterSetBinding list \<Rightarrow>
    SchedEnv \<Rightarrow> Handle \<Rightarrow> Placement \<Rightarrow> ManagedCluster set" where
  "good_clusters clusters sets bindings e h p =
     {cl \<in> set clusters. available_to sets bindings p cl \<and> eligible e h p cl}"

lemma placed_wanted:
  assumes "decisions_view m (placement_key p) = wanted_decisions p ds"
  shows "placed m (placement_key p) = ClusterName ` set ds"
proof -
  let ?ss = "decision_slices (sort_key ClusterName ds)"
  have w: "(\<exists>n. wanted_decisions p ds n = Some s) \<longleftrightarrow> s \<in> set ?ss" for s
    by (auto simp: wanted_decisions_Some in_set_conv_nth)
  have "x \<in> placed m (placement_key p) \<longleftrightarrow>
      (\<exists>s d. (\<exists>n. wanted_decisions p ds n = Some s) \<and> d \<in> set s \<and> x = ClusterName d)" for x
    unfolding placed_def assms by blast
  then have "placed m (placement_key p) = ClusterName ` (\<Union>s \<in> set ?ss. set s)"
    unfolding w by blast
  also have "(\<Union>s \<in> set ?ss. set s) = set ds"
    by (metis concat_decision_slices set_concat set_sort)
  finally show ?thesis .
qed

lemma with_scheduler_simps [simp]:
  "scheduler (with_scheduler c e h) tr p cls = Schedule (e tr) (NewPluginScheduler (h tr)) p cls"
  "placementLister (with_scheduler c e h) = placementLister c" "cenv (with_scheduler c e h) = cenv c"
  "clusterLister (with_scheduler c e h) = clusterLister c"
  "clusterSetLister (with_scheduler c e h) = clusterSetLister c"
  "clusterSetBindingLister (with_scheduler c e h) = clusterSetBindingLister c"
  by (simp_all add: with_scheduler_def)

lemma cached_with_scheduler [simp]: "cached (with_scheduler c e h) = cached c"
  by (intro ext) (simp add: cached_def)

lemma no_clusters_no_sets:
  assumes "placement_clusters c p = Inr cls" "cls \<noteq> []" "getValidManagedClusterSetBindings c (Namespace p) = Inr bs"
  shows "bs \<noteq> [] \<and> getEligibleClusterSets p bs \<noteq> []"
proof -
  have "getAvailableClusters c (getEligibleClusterSets p bs) = Inr cls"
    using assms(1,3) by (simp add: placement_clusters_def)
  then have "getEligibleClusterSets p bs \<noteq> []" using assms(2) by (auto simp: getAvailableClusters_def)
  moreover from this have "bs \<noteq> []" using set_getEligibleClusterSets [of p bs] by auto
  ultimately show ?thesis by simp
qed

text \<open>The clusters a reconciliation passes to the scheduler, and the run it makes of them.\<close>

definition scheduled_run :: "schedulingController \<Rightarrow> trace \<Rightarrow> Placement \<Rightarrow> scheduleResult \<Rightarrow> Status \<Rightarrow> bool" where
  "scheduled_run c tr p res st \<longleftrightarrow>
     (\<exists>cls. placement_clusters c p = Inr cls \<and> scheduler c tr p cls = Some (res, st))"

lemma scheduled_run_unique:
  "scheduled_run c tr p res st \<Longrightarrow> scheduled_run c tr p res' st' \<Longrightarrow> res' = res \<and> st' = st"
  by (auto simp: scheduled_run_def)

lemma sync_outcome:
  fixes h :: "trace \<Rightarrow> Handle" and clusters :: "ManagedCluster list"
  assumes c: "cached c clusters sets bindings" "\<forall>s \<in> set sets. valid_set s"
    and e: "env_orders (e tr)" "\<forall>k. NumberOfClusters (Spec p) = Some k \<longrightarrow> 0 \<le> sint k"
    and p: "ns_get (placementLister c tr) (Namespace p) (Name p) = Inr p" "active p" "wf_meta p"
      "is_valid_label_value (Name p)"
    and inv: "decisions_inv (decs_of s0 tr)"
  defines "good \<equiv> good_clusters clusters sets bindings (e tr) (h tr) p"
  obtains acts res st where "scheduled_run (with_scheduler c e h) tr p res st"
    "sync (fresh_server (with_scheduler c e h) no_failures s0) (placement_queue_key p) tr =
       Some (AsError (Some st), tr @ acts)"
    "if IsError (Some st) then placed (decs_of s0 (tr @ acts)) (placement_key p) = {}
     else placed (decs_of s0 (tr @ acts)) (placement_key p) \<subseteq> Name ` good \<and>
       card (placed (decs_of s0 (tr @ acts)) (placement_key p)) = asked p (card good)"
    "\<forall>k. k \<noteq> placement_key p \<longrightarrow>
       decisions_view (decs_of s0 (tr @ acts)) k = decisions_view (decs_of s0 tr) k"
    "\<exists>x. FindStatusCondition (Conditions (status_after p acts)) PlacementConditionSatisfied = Some x \<and>
       (cond_Status x = ConditionTrue \<longleftrightarrow> \<not> IsError (Some st) \<and> good \<noteq> {} \<and>
         (\<forall>n. NumberOfClusters (Spec p) = Some n \<longrightarrow> 0 < sint n \<and> sint n \<le> int (card good)))"
proof -
  let ?c = "with_scheduler c e h" and ?e = "e tr" and ?h = "h tr"
  have ns: "Namespace p \<noteq> []" using p(3) by (simp add: wf_meta_def)
  have "cached ?c clusters sets bindings" using c(1) by simp
  from placement_clusters_cached [OF this c(2) ns] obtain cls where
    cls: "placement_clusters ?c p = Inr cls" "distinct (map Name cls)"
      "set cls = {cl \<in> set clusters. available_to sets bindings p cl}" by blast
  have good: "{cl \<in> set cls. eligible ?e ?h p cl} = good"
    by (auto simp: cls(3) good_def good_clusters_def)
  obtain res st where sch: "Schedule ?e (NewPluginScheduler ?h) p cls = Some (res, st)"
    using plugin_sched.panics [OF e(1), of ?h p cls] e(2)
    by (cases "Schedule ?e (NewPluginScheduler ?h) p cls") force+
  from sync_scheduled [of ?c tr p cls res st s0] p cls(1) sch inv obtain acts where
    a: "sync (fresh_server ?c no_failures s0) (placement_queue_key p) tr = Some (AsError (Some st), tr @ acts)"
      "decisions_view (decs_of s0 (tr @ acts)) =
        (decisions_view (decs_of s0 tr))(placement_key p := wanted_decisions p (sched_Decisions res))"
      "status_after p acts = new_status (cenv c) (PStatus p) (word_of_nat (length (sched_Decisions res)))
        (run_status ?c p cls res st)" by auto
  have placed: "placed (decs_of s0 (tr @ acts)) (placement_key p) = ClusterName ` set (sched_Decisions res)"
    by (rule placed_wanted) (simp add: a(2))
  note ch = plugin_sched.chosen_clusters [OF e(1) sch cls(2), unfolded good]
  obtain bs where bs: "getValidManagedClusterSetBindings ?c (Namespace p) = Inr bs"
    using cls(1) by (auto simp: placement_clusters_def split: sum.splits)
  let ?sat = "newSatisfiedCondition (ClusterSets (Spec p)) (getEligibleClusterSets p bs) (length bs) (length cls)
      (length (sched_Decisions res)) (NumOfUnscheduled res) st"
  have "run_status ?c p cls res st = [newMisconfiguredCondition st, ?sat]" by (simp add: run_status_def bs)
  then have "Conditions (status_after p acts) = SetStatusCondition (StatusNow (cenv c) (cond_Type ?sat))
      (SetStatusCondition (StatusNow (cenv c) PlacementConditionMisconfigured) (Conditions (PStatus p))
        (newMisconfiguredCondition st)) ?sat"
    unfolding a(3) by (simp only: new_status_two condition_types)
  then obtain x where x: "FindStatusCondition (Conditions (status_after p acts)) PlacementConditionSatisfied = Some x"
    "displays x ?sat"
    using Find_Set_same [where c = ?sat] by (metis condition_types(2))
  have fin: "finite good" by (simp add: good_def good_clusters_def)
  have "good \<noteq> {} \<Longrightarrow> cls \<noteq> []" using good by auto
  then have "cond_Status ?sat = ConditionTrue \<longleftrightarrow> \<not> IsError (Some st) \<and> good \<noteq> {} \<and>
      (\<forall>n. NumberOfClusters (Spec p) = Some n \<longrightarrow> 0 < sint n \<and> sint n \<le> int (card good))"
    using plugin_sched.satisfied_iff [OF e(1) sch cls(2), unfolded good]
      no_clusters_no_sets [OF cls(1) _ bs] fin by (auto simp: card_gt_0_iff)
  then have sat: "cond_Status x = ConditionTrue \<longleftrightarrow> \<not> IsError (Some st) \<and> good \<noteq> {} \<and>
      (\<forall>n. NumberOfClusters (Spec p) = Some n \<longrightarrow> 0 < sint n \<and> sint n \<le> int (card good))"
    using x(2) by (simp add: displays_def)
  have run: "scheduled_run ?c tr p res st" using cls(1) sch by (simp add: scheduled_run_def)
  show thesis
  proof (rule that [OF run a(1)])
    show "if IsError (Some st) then placed (decs_of s0 (tr @ acts)) (placement_key p) = {}
     else placed (decs_of s0 (tr @ acts)) (placement_key p) \<subseteq> Name ` good \<and>
       card (placed (decs_of s0 (tr @ acts)) (placement_key p)) = asked p (card good)"
      using ch unfolding placed by (simp split: if_splits)
  qed (use a(2) x(1) sat in auto)
qed

text \<open>Two clusters in a set bound to the namespace, one in another set; a placement that wants one.\<close>

definition member :: "string \<Rightarrow> string \<Rightarrow> ManagedCluster" where
  "member s n = WithLabel ClusterSetLabel s (NewManagedCluster n)"

definition world_clusters :: "ManagedCluster list" where
  "world_clusters = [member ''s1'' ''c1'', member ''s1'' ''c2'', member ''s2'' ''c3'']"

definition world_sets :: "ManagedClusterSet list" where
  "world_sets = [NewClusterSet ''s1'', NewClusterSet ''s2'']"

definition world_bindings :: "ManagedClusterSetBinding list" where
  "world_bindings = [NewClusterSetBinding ''ns'' ''s1'']"

definition world_placement :: Placement where
  "world_placement = WithNOC 1 (NewPlacement ''ns'' ''p'')"

definition world_controller :: schedulingController where
  "world_controller = sample_controller world_clusters world_sets world_bindings [world_placement] (\<lambda>_ _ _. None)"

definition world_handle :: "trace \<Rightarrow> Handle" where
  "world_handle tr = sample_handle (store_of [] tr) [] world_clusters"

lemma world_cached: "cached world_controller world_clusters world_sets world_bindings"
  by (simp add: cached_def world_controller_def sample_controller_def sample_cenv_def wf_cl_items_def
      world_clusters_def world_sets_def member_def wf_cl_meta_def slash_def)

lemma world_sets_valid: "\<forall>s \<in> set world_sets. valid_set s"
  by (simp add: world_sets_def valid_set_def NewClusterSet_def builder_defs record_builders)

lemma world_placement_ok:
  "ns_get (placementLister world_controller tr) (Namespace world_placement) (Name world_placement) = Inr world_placement"
  "active world_placement" "wf_meta world_placement" "is_valid_label_value (Name world_placement)"
proof -
  show "ns_get (placementLister world_controller tr) (Namespace world_placement) (Name world_placement) = Inr world_placement"
    by (simp add: world_controller_def sample_controller_def cache_ns_lister_def GetByKey_def
        MetaNamespaceKey_def world_placement_def)
  show "active world_placement"
    by (simp add: active_def disabled_def time_is_zero_def world_placement_def builder_defs record_builders)
  show "wf_meta world_placement" by (simp add: wf_meta_def world_placement_def slash_def)
  show "is_valid_label_value (Name world_placement)" by (simp add: world_placement_def) code_simp
qed

lemma world_asks: "\<forall>k. NumberOfClusters (Spec world_placement) = Some k \<longrightarrow> 0 \<le> sint k"
  by (simp add: world_placement_def builder_defs record_builders)

text \<open>C2: the whole program. A reconciliation that the API server does not fail makes the run of the
  scheduler on the clusters of the placement. If the status of this run is an error, the placement has
  no decisions afterwards; otherwise its decisions name clusters that are available to it through
  its cluster sets and that pass its predicates and tolerations, as many as it asks for or all of them
  when there are fewer; and no other placement's decisions have changed.\<close>

theorem sync_places:
  assumes "cached c clusters sets bindings" "\<forall>s \<in> set sets. valid_set s"
    "env_orders (e tr)" "\<forall>k. NumberOfClusters (Spec p) = Some k \<longrightarrow> 0 \<le> sint k"
    "ns_get (placementLister c tr) (Namespace p) (Name p) = Inr p" "active p" "wf_meta p"
    "is_valid_label_value (Name p)" "decisions_inv (decs_of s0 tr)"
  shows "\<exists>acts res st. scheduled_run (with_scheduler c e h) tr p res st \<and>
    sync (fresh_server (with_scheduler c e h) no_failures s0) (placement_queue_key p) tr =
      Some (AsError (Some st), tr @ acts) \<and>
    (if IsError (Some st) then placed (decs_of s0 (tr @ acts)) (placement_key p) = {}
     else placed (decs_of s0 (tr @ acts)) (placement_key p) \<subseteq> Name ` good_clusters clusters sets bindings (e tr) (h tr) p \<and>
       card (placed (decs_of s0 (tr @ acts)) (placement_key p)) = asked p (card (good_clusters clusters sets bindings (e tr) (h tr) p))) \<and>
    (\<forall>k. k \<noteq> placement_key p \<longrightarrow>
       decisions_view (decs_of s0 (tr @ acts)) k = decisions_view (decs_of s0 tr) k)"
  by (rule sync_outcome [where e = e and tr = tr and h = h, OF assms]) blast

text \<open>C15: after such a reconciliation the placement's \<open>PlacementSatisfied\<close> condition is true exactly when
  the status of the run of the scheduler is no error, some cluster qualifies, and at least the number
  asked for, which is not zero, qualify. (The API documents a placement as not satisfied only if there is
  an empty decision; the controller never writes an empty decision.)\<close>

theorem sync_satisfied_iff:
  assumes "cached c clusters sets bindings" "\<forall>s \<in> set sets. valid_set s"
    "env_orders (e tr)" "\<forall>k. NumberOfClusters (Spec p) = Some k \<longrightarrow> 0 \<le> sint k"
    "ns_get (placementLister c tr) (Namespace p) (Name p) = Inr p" "active p" "wf_meta p"
    "is_valid_label_value (Name p)" "decisions_inv (decs_of s0 tr)"
  shows "\<exists>acts res st x. scheduled_run (with_scheduler c e h) tr p res st \<and>
    sync (fresh_server (with_scheduler c e h) no_failures s0) (placement_queue_key p) tr =
      Some (AsError (Some st), tr @ acts) \<and>
    FindStatusCondition (Conditions (status_after p acts)) PlacementConditionSatisfied = Some x \<and>
    (cond_Status x = ConditionTrue \<longleftrightarrow> \<not> IsError (Some st) \<and> good_clusters clusters sets bindings (e tr) (h tr) p \<noteq> {} \<and>
      (\<forall>n. NumberOfClusters (Spec p) = Some n \<longrightarrow> 0 < sint n \<and> 
        sint n \<le> int (card (good_clusters clusters sets bindings (e tr) (h tr) p))))"
  by (rule sync_outcome [where e = e and tr = tr and h = h, OF assms]) blast

theorem available_clusters_spec_witness:
  "\<exists>cls. placement_clusters world_controller world_placement = Inr cls \<and> distinct (map Name cls) \<and>
    set cls = {cl \<in> set world_clusters. available_to world_sets world_bindings world_placement cl}"
  by (rule available_clusters_spec [OF world_cached world_sets_valid])
    (simp add: world_placement_def)

theorem sync_converges_witness:
  "\<exists>acts st ds. sync (fresh_server (with_scheduler world_controller (\<lambda>tr. sample_env) world_handle) no_failures [])
      (placement_queue_key world_placement) [] = Some (AsError (Some st), [] @ acts) \<and>
    decisions_view (decs_of [] acts) (placement_key world_placement) = wanted_decisions world_placement ds"
proof -
  let ?c = "with_scheduler world_controller (\<lambda>tr. sample_env) world_handle"
  have "cached ?c world_clusters world_sets world_bindings" by (simp add: world_cached)
  then obtain cls where cls: "placement_clusters ?c world_placement = Inr cls"
    using placement_clusters_cached [OF _ world_sets_valid, of ?c world_clusters world_bindings world_placement]
      world_placement_ok(3) by (auto simp: wf_meta_def)
  obtain res st where "scheduler ?c [] world_placement cls = Some (res, st)"
    using plugin_sched.panics [OF sample_env_ok(1), of "world_handle []" world_placement cls] world_asks
    by (cases "Schedule sample_env (NewPluginScheduler (world_handle [])) world_placement cls") force+
  from sync_converges [OF _ world_placement_ok(2-4) cls this empty_store_inv] world_placement_ok(1)
  show ?thesis by fastforce
qed

text \<open>A placement without clusters, in its steady state.\<close>

definition steady_sched :: "trace \<Rightarrow> Placement \<Rightarrow> ManagedCluster list \<Rightarrow> (scheduleResult \<times> Status) option" where
  "steady_sched tr p cls = Some (empty_result, NewStatus '''' Success [])"

definition steady_placement :: Placement where
  "steady_placement = (NewPlacement ''ns'' ''p'')\<lparr>PStatus := new_status sample_cenv
     (PStatus (NewPlacement ''ns'' ''p'')) 0 (run_status (sample_controller [] [] [] [] steady_sched)
       (NewPlacement ''ns'' ''p'') [] empty_result (NewStatus '''' Success []))\<rparr>"

definition steady_controller :: schedulingController where
  "steady_controller = sample_controller [] [] [] [steady_placement] steady_sched"

definition steady_trace :: trace where
  "steady_trace = snd (bind (fresh_server steady_controller no_failures []) steady_placement [] Map.empty
     (NewStatus '''' Success []) [])"

lemma steady_placement_simps [simp]:
  "Name steady_placement = ''p''" "Namespace steady_placement = ''ns''"
  "Spec steady_placement = Spec (NewPlacement ''ns'' ''p'')"
  "DeletionTimestamp steady_placement = None" "Annotations steady_placement = Map.empty"
  by (simp_all add: steady_placement_def builder_defs record_builders)

lemma steady_clusters: "placement_clusters steady_controller steady_placement = Inr []"
  by (simp add: placement_clusters_def steady_controller_def sample_controller_def
      getValidManagedClusterSetBindings_def ListAllByNamespace_eq getEligibleClusterSets_def Let_def
      sets_insert_all_def sets_list_def getAvailableClusters_def)

lemma steady_status:
  "run_status steady_controller steady_placement [] empty_result st =
   run_status (sample_controller [] [] [] [] steady_sched) (NewPlacement ''ns'' ''p'') [] empty_result st"
  by (simp add: run_status_def steady_controller_def sample_controller_def
      getValidManagedClusterSetBindings_def ListAllByNamespace_eq getEligibleClusterSets_def Let_def)

theorem sync_steady_state_witness:
  "sync (fresh_server steady_controller (\<lambda>tr a. Some ''down'') []) (placement_queue_key steady_placement) steady_trace =
     Some (None, steady_trace)"
proof -
  have wf: "wf_meta steady_placement" by (simp add: wf_meta_def slash_def)
  have l: "is_valid_label_value (Name steady_placement)" by simp code_simp
  have b: "bind (fresh_server steady_controller no_failures []) steady_placement [] Map.empty
      (NewStatus '''' Success []) [] = (None, steady_trace)"
    using reliable.bind_succeeds [OF wf l] unfolding steady_trace_def no_failures_def by (metis prod.collapse)
  have view: "decisions_view (decs_of [] steady_trace) (placement_key steady_placement) =
      wanted_decisions steady_placement []"
    using fresh.bind_refines [OF b _ _ empty_store_inv] wf by (simp add: wf_meta_def)
  have get: "ns_get (placementLister steady_controller steady_trace) (Namespace steady_placement)
      (Name steady_placement) = Inr steady_placement"
    by (simp add: steady_controller_def sample_controller_def cache_ns_lister_def GetByKey_def MetaNamespaceKey_def)
  have act: "active steady_placement" by (simp add: active_def time_is_zero_def disabled_def)
  have sch: "scheduler steady_controller steady_trace steady_placement [] =
      Some (empty_result, NewStatus '''' Success [])"
    by (simp add: steady_controller_def sample_controller_def steady_sched_def)
  have st: "PStatus steady_placement = new_status (cenv steady_controller) (PStatus (NewPlacement ''ns'' ''p''))
      (word_of_nat (length (sched_Decisions empty_result)))
      (run_status steady_controller steady_placement [] empty_result (NewStatus '''' Success []))"
    unfolding steady_status
    by (simp add: steady_placement_def steady_controller_def sample_controller_def empty_result_def
        sched_Decisions_def)
  have d: "sched_Decisions empty_result = []" "sched_RequeueAfter empty_result = None"
    by (simp_all add: sched_Decisions_def sched_RequeueAfter_def empty_result_def)
  from sync_steady_state [OF get act wf l steady_clusters sch _ st, of "[]" "\<lambda>tr a. Some ''down''"] view
  show ?thesis by (simp add: d requeue_def AsError_def)
qed

end
