(* ===== verification/Hub.thy ===== *)
theory Hub
  imports EndToEnd
begin

text \<open>
  The PlacementDecisions on the hub as a transition system: reconciliations of any placement by a
  controller with any listers, scheduler, stale cache and failing calls, which may stop after any
  call (a crash, or a new leader taking over), interleaved with the removal of objects by others (the
  garbage collector, users). The invariant holds in every reachable state, and from every such
  state one reconciliation repairs the decisions of its placement.
\<close>

definition lists_wf_placements :: "schedulingController \<Rightarrow> bool" where
  "lists_wf_placements c \<longleftrightarrow> (\<forall>tr ns n p. ns_get (placementLister c tr) ns n = Inr p \<longrightarrow> wf_meta p)"

inductive hub_step :: "PlacementDecision list \<Rightarrow> PlacementDecision list \<Rightarrow> bool" where
  reconcile: "lists_wf_placements c \<Longrightarrow> sync (on_server c fails S shown) key [] = Some (r, tr) \<Longrightarrow>
    hub_step S (store_of S (take calls tr))"
| removal: "hub_step S (filter P S)"

inductive hub_reachable :: "PlacementDecision list \<Rightarrow> bool" where
  start: "hub_reachable []"
| step: "hub_reachable S \<Longrightarrow> hub_step S S' \<Longrightarrow> hub_reachable S'"


definition hub_inv :: "PlacementDecision list \<Rightarrow> bool" where
  "hub_inv S \<longleftrightarrow> wf_store S \<and> decisions_inv (lookup S)"

text \<open>The calls that keep the invariant.\<close>

definition ok_action :: "action \<Rightarrow> bool" where
  "ok_action a = (case a of
     CreatePD pd \<Rightarrow> \<exists>p i. 1 \<le> i \<and> pd = new_decision p (decision_name (Name p) i)
   | UpdatePDStatus pd \<Rightarrow> length (Decisions pd) \<le> 100 | _ \<Rightarrow> True)"

lemma decisions_inv_sub:
  assumes "decisions_inv m" "\<And>k d. m' k = Some d \<Longrightarrow> m k = Some d"
  shows "decisions_inv m'"
  using assms unfolding decisions_inv_def by blast

lemma hub_inv_filter: "hub_inv S \<Longrightarrow> hub_inv (filter P S)"
  unfolding hub_inv_def
  by (auto simp: wf_store_filter lookup_Some_iff intro: decisions_inv_sub)

lemma store_step_inv:
  assumes "hub_inv S" "ok_action a"
  shows "hub_inv (store_step S (a, b))"
proof -
  have wf: "wf_store (store_step S (a, b))" using assms(1) by (simp add: hub_inv_def wf_store_step)
  have inv: "decisions_inv (lookup S)" using assms(1) by (simp add: hub_inv_def)
  have "decisions_inv (lookup (store_step S (a, b)))"
  proof (cases b)
    case b: True
    show ?thesis
    proof (cases a)
      case (CreatePD pd)
      then obtain p i where pd: "1 \<le> i" "pd = new_decision p (decision_name (Name p) i)"
        using assms(2) by (auto simp: ok_action_def)
      have "lookup (store_step S (a, b)) = lookup S \<or>
          lookup S (pd_key pd) = None \<and> lookup (store_step S (a, b)) = (lookup S)(pd_key pd \<mapsto> pd)"
        using b CreatePD pd(2) by (auto simp: lookup_append fun_eq_iff split: option.splits)
      moreover have "decisions_inv ((lookup S)(pd_key pd \<mapsto> pd))" if "lookup S (pd_key pd) = None"
        using touched_inv [OF touched_created inv pd(1), of p "[]"] that pd(2) by simp
      ultimately show ?thesis using inv by auto
    next
      case (UpdatePDStatus pd)
      let ?f = "\<lambda>d. if pd_key d = pd_key pd then d\<lparr>Decisions := Decisions pd\<rparr> else d"
      have "lookup (store_step S (a, b)) k = map_option ?f (lookup S k)" for k
        using b UpdatePDStatus lookup_map [of ?f S k] by simp
      then show ?thesis using inv assms(2) UpdatePDStatus
        by (auto simp: decisions_inv_def ok_action_def split: if_splits)
    next
      case (DeletePD ns n)
      then show ?thesis using b inv by (auto simp: lookup_filter intro: decisions_inv_sub split: if_splits)
    qed (use b inv in auto)
  qed (use inv in \<open>cases a; simp\<close>)
  with wf show ?thesis by (simp add: hub_inv_def)
qed

lemma store_of_inv:
  assumes "hub_inv S" "list_all (ok_action \<circ> fst) tr"
  shows "hub_inv (store_of S tr)"
proof -
  have "store_of S tr = foldl store_step S tr"
    using assms(1) by (simp add: store_of_def admit_id hub_inv_def)
  moreover have "hub_inv (foldl store_step S tr)"
    using assms
  proof (induction tr arbitrary: S)
    case (Cons x tr)
    obtain a b where "x = (a, b)" by fastforce
    then have "hub_inv (store_step S x)" using Cons.prems store_step_inv [of S a b] by simp
    then show ?case using Cons by simp
  qed simp
  ultimately show ?thesis by simp
qed

lemma slice_action_ok:
  assumes "slice_action p (decision_slices xs) a"
  shows "ok_action a"
proof -
  obtain i where "i < length (decision_slices xs)"
    "writes p (decision_name (Name p) (i + 1)) (decision_slices xs ! i) a"
    using assms by (auto simp: slice_action_def)
  then show ?thesis using decision_slices_bound [OF nth_mem]
    by (cases a) (auto simp: ok_action_def intro: exI [of _ "i + 1"])
qed

lemma redundant_action_ok: "redundant_action p ss pds a \<Longrightarrow> ok_action a"
  by (cases a) (auto simp: redundant_action_def ok_action_def)

lemma requeue_ok: "\<exists>a0. requeue p t tr = tr @ a0 \<and> list_all (ok_action \<circ> fst) a0"
  by (cases t) (auto simp: requeue_def ok_action_def)

lemma sync_actions_ok:
  assumes "lists_wf_placements c" "sync (on_server c fails S shown) key tr = Some (r, tr')"
  shows "\<exists>acts. tr' = tr @ acts \<and> list_all (ok_action \<circ> fst) acts"
proof (cases "getPlacement (on_server c fails S shown) key tr")
  case (Inl e)
  then show ?thesis using assms(2) by (auto simp: sync_def split: if_splits)
next
  case (Inr q)
  then obtain p where p: "q = Some p" "syncPlacement (on_server c fails S shown) p tr = Some (r, tr')"
    using assms(2) by (cases q) (auto simp: sync_def)
  have wf: "wf_meta p"
    using Inr p(1) assms(1) by (auto simp: getPlacement_def lists_wf_placements_def split: option.splits sum.splits)
  then have s: "slash \<notin> set (Namespace p)" "Namespace p \<noteq> []" by (simp_all add: wf_meta_def)
  from p(2) show ?thesis
  proof (cases rule: syncPlacement_cases)
    case (bound cls res st e1 tr1)
    obtain a0 where a0: "requeue p (sched_RequeueAfter res) tr = tr @ a0" "list_all (ok_action \<circ> fst) a0"
      using requeue_ok by blast
    from server.bind_trace [OF bound(4) s] obtain ws dels pds where b:
      "tr1 = requeue p (sched_RequeueAfter res) tr @ ws @ dels"
      "list_all (slice_action p (decision_slices (sort_key ClusterName (sched_Decisions res))) \<circ> fst) ws"
      "list_all (redundant_action p (decision_slices (sort_key ClusterName (sched_Decisions res))) pds \<circ> fst) dels"
      by blast
    have "list_all (ok_action \<circ> fst) (a0 @ ws @ dels)"
      using a0(2) b(2,3) by (auto simp: list_all_iff intro: slice_action_ok redundant_action_ok)
    moreover have "tr1 = tr @ (a0 @ ws @ dels)" using a0(1) b(1) by simp
    moreover have "ok_action (UpdatePlacementStatus p')" for p' by (simp add: ok_action_def)
    ultimately show ?thesis using bound(5) by (auto simp: list_all_iff)
  qed simp
qed

lemma hub_step_inv:
  assumes "hub_step S S'" "hub_inv S"
  shows "hub_inv S'"
  using assms(1)
proof (cases rule: hub_step.cases)
  case (reconcile c fails shown key r tr calls)
  from sync_actions_ok [OF reconcile(2,3)] have "list_all (ok_action \<circ> fst) tr" by auto
  then have "list_all (ok_action \<circ> fst) (take calls tr)" by (auto simp: list_all_iff dest: in_set_takeD)
  then show ?thesis using store_of_inv [OF assms(2)] reconcile(1) by simp
next
  case (removal P)
  then show ?thesis using hub_inv_filter [OF assms(2)] by simp
qed

lemma hub_inv_empty: "hub_inv []"
  by (simp add: hub_inv_def wf_store_def decisions_inv_def lookup_def)

lemma reachable_inv: "hub_reachable S \<Longrightarrow> hub_inv S"
  by (induction rule: hub_reachable.induct) (auto intro: hub_inv_empty hub_step_inv)

text \<open>C5: the invariant of the hub. In every reachable state, no two PlacementDecisions of a namespace
  share a name, each holds at most 100 decisions, and an object is labelled with a placement
  exactly when its name is one of that placement's numbered names.\<close>

theorem hub_invariant:
  assumes "hub_reachable S"
  shows "distinct (map (\<lambda>d. (Namespace d, Name d)) S) \<and>
    (\<forall>d \<in> set S. length (Decisions d) \<le> 100 \<and>
      (\<forall>pn. ObjLabels d PlacementLabel = Some pn \<longleftrightarrow> (\<exists>i \<ge> 1. Name d = decision_name pn i)))"
proof -
  have inv: "wf_store S" "decisions_inv (lookup S)" using reachable_inv [OF assms] by (simp_all add: hub_inv_def)
  have "lookup S (Namespace d, Name d) = Some d" if "d \<in> set S" for d
    using lookup_Some_iff [OF inv(1)] that by (simp add: pd_key_def)
  then have "length (Decisions d) \<le> 100 \<and> (label_of d = Some pn \<longleftrightarrow> (\<exists>i \<ge> 1. Name d = decision_name pn i))"
    if "d \<in> set S" for d pn
    using decisions_invD [OF inv(2)] that by blast
  moreover have "distinct (map (\<lambda>d. (Namespace d, Name d)) S)"
    using inv(1) by (simp add: wf_store_def pd_key_def [abs_def])
  ultimately show ?thesis by blast
qed

text \<open>C18: recovery. From every reachable state, whatever crashes, failures and stale caches led to it, one
  undisturbed reconciliation of an active placement sets its decisions to the scheduler's.\<close>

theorem hub_recovers:
  assumes "hub_reachable S" "ns_get (placementLister c []) (Namespace p) (Name p) = Inr p" "active p" "wf_meta p"
    "is_valid_label_value (Name p)" "placement_clusters c p = Inr cls" "scheduler c [] p cls = Some (res, st)"
  shows "\<exists>tr. sync (fresh_server c no_failures S) (placement_queue_key p) [] = Some (AsError (Some st), tr) \<and>
    decisions_view (lookup (store_of S tr)) (placement_key p) = wanted_decisions p (sched_Decisions res)"
proof -
  have "wf_store S" "decisions_inv (lookup S)" using reachable_inv [OF assms(1)] by (simp_all add: hub_inv_def)
  then have "decisions_inv (decs_of S [])" by (simp add: decs_of_def admit_id)
  from sync_scheduled [OF assms(2-7) this] show ?thesis by (auto simp: decs_of_def)
qed

text \<open>A reachable state: the controller stops after creating the first object.\<close>

definition first_run :: trace where
  "first_run = (case sync (fresh_server steady_controller no_failures []) ''ns/p'' [] of
     Some (r, tr) \<Rightarrow> tr | None \<Rightarrow> [])"

definition crashed_store :: "PlacementDecision list" where
  "crashed_store = store_of [] (take 1 first_run)"

lemma crashed_store_names: "map Name crashed_store = [''p-decision-1'']"
  by code_simp

lemma first_run_ok: "map_option fst (sync (fresh_server steady_controller no_failures []) ''ns/p'' []) = Some None"
  by code_simp

lemma steady_lists_wf: "lists_wf_placements steady_controller"
  by (auto simp: lists_wf_placements_def steady_controller_def sample_controller_def cache_ns_lister_def
      GetByKey_def wf_meta_def slash_def split: if_splits)

lemma crashed_reachable: "hub_reachable crashed_store"
proof -
  have "sync (fresh_server steady_controller no_failures []) ''ns/p'' [] = Some (None, first_run)"
    using first_run_ok unfolding first_run_def by (auto split: option.splits)
  then have "hub_step [] (store_of [] (take 1 first_run))"
    by (rule hub_step.reconcile [OF steady_lists_wf])
  then show ?thesis unfolding crashed_store_def by (rule hub_reachable.step [OF hub_reachable.start])
qed

theorem hub_invariant_witness:
  "map Name crashed_store = [''p-decision-1''] \<and> length (Decisions (hd crashed_store)) \<le> 100 \<and>
    (ObjLabels (hd crashed_store) PlacementLabel = Some ''p'' \<longleftrightarrow> (\<exists>i \<ge> 1. ''p-decision-1'' = decision_name ''p'' i))"
proof -
  obtain d where d: "crashed_store = [d]" "Name d = ''p-decision-1''" using crashed_store_names by auto
  show ?thesis using hub_invariant [OF crashed_reachable] unfolding d(1) by (simp add: d(2))
qed

theorem hub_recovers_witness:
  "\<exists>tr. sync (fresh_server steady_controller no_failures crashed_store) (placement_queue_key steady_placement) [] =
      Some (None, tr) \<and>
    decisions_view (lookup (store_of crashed_store tr)) (placement_key steady_placement) =
      wanted_decisions steady_placement []"
proof -
  have wf: "wf_meta steady_placement" by (simp add: wf_meta_def slash_def)
  have l: "is_valid_label_value (Name steady_placement)" by simp code_simp
  have get: "ns_get (placementLister steady_controller []) (Namespace steady_placement)
      (Name steady_placement) = Inr steady_placement"
    by (simp add: steady_controller_def sample_controller_def cache_ns_lister_def GetByKey_def MetaNamespaceKey_def)
  have act: "active steady_placement" by (simp add: active_def time_is_zero_def disabled_def)
  have sch: "scheduler steady_controller [] steady_placement [] =
      Some (empty_result, NewStatus '''' Success [])"
    by (simp add: steady_controller_def sample_controller_def steady_sched_def)
  from hub_recovers [OF crashed_reachable get act wf l steady_clusters sch] show ?thesis
    by (simp add: AsError_def sched_Decisions_def empty_result_def)
qed

end
