(* ===== verification/Enqueue.thy ===== *)
theory Enqueue
  imports EndToEnd
begin

text \<open>
  \<open>pkg/controllers/scheduling/enqueue.go\<close> and \<open>cluster_event_handler.go\<close>: which placements a change
  of a cluster, cluster set, binding or score puts in the queue. An event object (an
  \<open>interface{}\<close>) is one of the API objects, a tombstone of the informer (\<open>DeletedFinalStateUnknown\<close>),
  nil or something else. The queue is the list of the keys that wait; an error that is only
  reported leaves it as it is. The indices were added when the enqueuer was made, so a lookup in
  them does not fail.
\<close>

section \<open>Objects and queue\<close>

datatype event_object =
    ClusterObj ManagedCluster
  | SetObj ManagedClusterSet
  | BindingObj ManagedClusterSetBinding
  | PlacementObj Placement
  | ScoreObj AddOnPlacementScore
  | DeletedFinalStateUnknown string event_object
  | Nil_object
  | Other_object

text \<open>\<open>None\<close> is the error of an object without metadata.\<close>

fun DeletionHandlingMetaNamespaceKeyFunc :: "event_object \<Rightarrow> string option" where
  "DeletionHandlingMetaNamespaceKeyFunc (DeletedFinalStateUnknown key obj) = Some key"
| "DeletionHandlingMetaNamespaceKeyFunc (ClusterObj o1) = Some (MetaNamespaceKey o1)"
| "DeletionHandlingMetaNamespaceKeyFunc (SetObj o1) = Some (MetaNamespaceKey o1)"
| "DeletionHandlingMetaNamespaceKeyFunc (BindingObj o1) = Some (MetaNamespaceKey o1)"
| "DeletionHandlingMetaNamespaceKeyFunc (PlacementObj o1) = Some (MetaNamespaceKey o1)"
| "DeletionHandlingMetaNamespaceKeyFunc (ScoreObj o1) = Some (MetaNamespaceKey o1)"
| "DeletionHandlingMetaNamespaceKeyFunc Nil_object = None"
| "DeletionHandlingMetaNamespaceKeyFunc Other_object = None"

type_synonym queue = "string list"

text \<open>\<open>Add\<close> of a work queue: a key that waits already is not added again.\<close>

definition queue_Add :: "queue \<Rightarrow> string \<Rightarrow> queue" where
  "queue_Add q key = sets_insert q key"

definition anyClusterSet :: string where
  "anyClusterSet = ''*''"

record enqueuer =
  enq_clusterLister :: "ManagedCluster ClLister"
  enq_clusterSetLister :: "ManagedClusterSet ClLister"
  placementIndexer :: "Placement list"
  clusterSetBindingIndexer :: "ManagedClusterSetBinding list"

definition newEnqueuer :: "ManagedCluster list \<Rightarrow> ManagedClusterSet list \<Rightarrow> Placement list \<Rightarrow>
    ManagedClusterSetBinding list \<Rightarrow> enqueuer" where
  "newEnqueuer clusterInformer clusterSetInformer placementInformer clusterSetBindingInformer =
     \<lparr>enq_clusterLister = cache_cl_lister ''managedclusters'' clusterInformer,
      enq_clusterSetLister = cache_cl_lister ''managedclustersets'' clusterSetInformer,
      placementIndexer = placementInformer, clusterSetBindingIndexer = clusterSetBindingInformer\<rparr>"

section \<open>Indices\<close>

definition indexPlacementByClusterSetBinding :: "Placement \<Rightarrow> string list" where
  "indexPlacementByClusterSetBinding placement =
     (let clustersets = ClusterSets (Spec placement) in
      if length clustersets = 0 then [Namespace placement @ [slash] @ anyClusterSet]
      else map (\<lambda>clusterset. Namespace placement @ [slash] @ clusterset) clustersets)"

definition score_index_key :: "PrioritizerConfig \<Rightarrow> string list" where
  "score_index_key config = (case ConfigCoordinate config of
     None \<Rightarrow> []
   | Some sc \<Rightarrow> if CoordType sc \<noteq> ScoreCoordinateTypeAddOn then []
       else (case CoordAddOn sc of None \<Rightarrow> [] | Some (ptr, addOn) \<Rightarrow> [ResourceName addOn]))"

definition indexPlacementsByScore :: "Placement \<Rightarrow> string list" where
  "indexPlacementsByScore placement =
     concat (map score_index_key (Configurations (Policy (Spec placement))))"

definition indexClusterSetBindingByClusterSet :: "ManagedClusterSetBinding \<Rightarrow> string list" where
  "indexClusterSetBindingByClusterSet binding = [BoundClusterSet binding]"

section \<open>Enqueueing\<close>

definition enqueuePlacement :: "event_object \<Rightarrow> queue \<Rightarrow> queue" where
  "enqueuePlacement obj queue = (case DeletionHandlingMetaNamespaceKeyFunc obj of
     None \<Rightarrow> queue | Some key \<Rightarrow> queue_Add queue key)"

definition enqueueClusterSetBinding :: "enqueuer \<Rightarrow> event_object \<Rightarrow> queue \<Rightarrow> queue" where
  "enqueueClusterSetBinding e obj queue = (case DeletionHandlingMetaNamespaceKeyFunc obj of
     None \<Rightarrow> queue
   | Some key \<Rightarrow> (case SplitMetaNamespaceKey key of
       None \<Rightarrow> queue
     | Some (namespace, name) \<Rightarrow>
         let objs = ByIndex indexPlacementByClusterSetBinding (placementIndexer e) key;
             anyObjs = ByIndex indexPlacementByClusterSetBinding (placementIndexer e)
               (namespace @ [slash] @ anyClusterSet)
         in foldl (\<lambda>queue o1. enqueuePlacement (PlacementObj o1) queue) queue (objs @ anyObjs)))"

definition enqueueClusterSet :: "enqueuer \<Rightarrow> event_object \<Rightarrow> queue \<Rightarrow> queue" where
  "enqueueClusterSet e obj queue = (case DeletionHandlingMetaNamespaceKeyFunc obj of
     None \<Rightarrow> queue
   | Some key \<Rightarrow> foldl (\<lambda>queue o1. enqueueClusterSetBinding e (BindingObj o1) queue) queue
       (ByIndex indexClusterSetBindingByClusterSet (clusterSetBindingIndexer e) key))"

definition enqueueCluster :: "ControllerEnv \<Rightarrow> enqueuer \<Rightarrow> event_object \<Rightarrow> queue \<Rightarrow> queue" where
  "enqueueCluster ce e obj queue = (case obj of
     ClusterObj cluster \<Rightarrow> (case GetClusterSetsOfCluster ce cluster (enq_clusterSetLister e) of
         Inl er \<Rightarrow> queue
       | Inr clusterSets \<Rightarrow> foldl (\<lambda>queue s. enqueueClusterSet e (SetObj s) queue) queue clusterSets)
   | _ \<Rightarrow> queue)"

text \<open>The namespaces bound to the cluster sets.\<close>

definition binding_namespaces :: "enqueuer \<Rightarrow> ManagedClusterSet list \<Rightarrow> string list" where
  "binding_namespaces e clusterSets = foldl (\<lambda>acc clusterset. foldl (\<lambda>acc b. sets_insert acc (Namespace b)) acc
     (ByIndex indexClusterSetBindingByClusterSet (clusterSetBindingIndexer e) (Name clusterset))) [] clusterSets"

definition enqueuePlacementScore :: "ControllerEnv \<Rightarrow> enqueuer \<Rightarrow> event_object \<Rightarrow> queue \<Rightarrow> queue" where
  "enqueuePlacementScore ce e obj queue = (case DeletionHandlingMetaNamespaceKeyFunc obj of
     None \<Rightarrow> queue
   | Some key \<Rightarrow> (case SplitMetaNamespaceKey key of
       None \<Rightarrow> queue
     | Some (namespace, name) \<Rightarrow>
         let objs = ByIndex indexPlacementsByScore (placementIndexer e) name;
             clusterSets = (case cl_get (enq_clusterLister e) namespace of
               Inl er \<Rightarrow> Inr []
             | Inr cluster \<Rightarrow> GetClusterSetsOfCluster ce cluster (enq_clusterSetLister e))
         in case clusterSets of
              Inl er \<Rightarrow> queue
            | Inr clusterSets \<Rightarrow>
                let filteredBindingNamespaces = binding_namespaces e clusterSets
                in foldl (\<lambda>queue o1. if sets_has filteredBindingNamespaces (Namespace o1)
                     then enqueuePlacement (PlacementObj o1) queue else queue) queue objs))"

section \<open>The cluster event handler\<close>

definition OnAdd :: "ControllerEnv \<Rightarrow> enqueuer \<Rightarrow> event_object \<Rightarrow> queue \<Rightarrow> queue" where
  "OnAdd ce e obj queue = enqueueCluster ce e obj queue"

definition OnUpdate :: "ControllerEnv \<Rightarrow> enqueuer \<Rightarrow> event_object \<Rightarrow> event_object \<Rightarrow> queue \<Rightarrow> queue" where
  "OnUpdate ce e oldObj newObj queue = (case newObj of
     ClusterObj newCluster \<Rightarrow>
       let queue = enqueueCluster ce e newObj queue in
       (case oldObj of
          ClusterObj oldCluster \<Rightarrow> if ObjLabels newCluster \<noteq> ObjLabels oldCluster
            then enqueueCluster ce e (ClusterObj oldCluster) queue else queue
        | _ \<Rightarrow> queue)
   | _ \<Rightarrow> queue)"

definition OnDelete :: "ControllerEnv \<Rightarrow> enqueuer \<Rightarrow> event_object \<Rightarrow> queue \<Rightarrow> queue" where
  "OnDelete ce e obj queue = (case obj of
     ClusterObj cluster \<Rightarrow> enqueueCluster ce e obj queue
   | DeletedFinalStateUnknown key t \<Rightarrow> enqueueCluster ce e t queue
   | _ \<Rightarrow> queue)"

section \<open>The handlers of the informers\<close>

text \<open>The four informers whose changes are turned into keys by the enqueuer
  (\<open>NewSchedulingController\<close>).\<close>

datatype informer = ClusterInformer | ClusterSetInformer | ClusterSetBindingInformer | PlacementScoreInformer

datatype change = Added event_object | Updated event_object event_object | Deleted event_object

fun on_change :: "ControllerEnv \<Rightarrow> enqueuer \<Rightarrow> informer \<Rightarrow> change \<Rightarrow> queue \<Rightarrow> queue" where
  "on_change ce e ClusterInformer (Added obj) q = OnAdd ce e obj q"
| "on_change ce e ClusterInformer (Updated oldObj newObj) q = OnUpdate ce e oldObj newObj q"
| "on_change ce e ClusterInformer (Deleted obj) q = OnDelete ce e obj q"
| "on_change ce e ClusterSetInformer (Added obj) q = enqueueClusterSet e obj q"
| "on_change ce e ClusterSetInformer (Updated oldObj newObj) q = enqueueClusterSet e newObj q"
| "on_change ce e ClusterSetInformer (Deleted obj) q = enqueueClusterSet e obj q"
| "on_change ce e ClusterSetBindingInformer (Added obj) q = enqueueClusterSetBinding e obj q"
| "on_change ce e ClusterSetBindingInformer (Updated oldObj newObj) q = enqueueClusterSetBinding e newObj q"
| "on_change ce e ClusterSetBindingInformer (Deleted obj) q = enqueueClusterSetBinding e obj q"
| "on_change ce e PlacementScoreInformer (Added obj) q = enqueuePlacementScore ce e obj q"
| "on_change ce e PlacementScoreInformer (Updated oldObj newObj) q = enqueuePlacementScore ce e newObj q"
| "on_change ce e PlacementScoreInformer (Deleted obj) q = enqueuePlacementScore ce e obj q"

section \<open>What is enqueued\<close>

lemma set_queue_Add [simp]: "set (queue_Add q k) = insert k (set q)"
  by (simp add: queue_Add_def)

lemma set_enqueuePlacement [simp]:
  "set (enqueuePlacement (PlacementObj p) q) = insert (placement_queue_key p) (set q)"
  by (simp add: enqueuePlacement_def placement_queue_key_def)

lemma set_foldl_enqueue:
  assumes "\<And>x q. x \<in> set xs \<Longrightarrow> set (f q x) = set q \<union> K x"
  shows "set (foldl f q xs) = set q \<union> (\<Union>x \<in> set xs. K x)"
  using assms by (induction xs arbitrary: q) auto

text \<open>The placements a binding concerns: those of its namespace that name its set or any set.\<close>

definition bound_placements :: "enqueuer \<Rightarrow> ManagedClusterSetBinding \<Rightarrow> Placement set" where
  "bound_placements e b = {p \<in> set (placementIndexer e). Namespace p = Namespace b \<and>
     (ClusterSets (Spec p) = [] \<or> Name b \<in> set (ClusterSets (Spec p)))}"

text \<open>What the API server enforces of the objects in the caches.\<close>

definition wf_caches :: "enqueuer \<Rightarrow> ManagedClusterSet list \<Rightarrow> bool" where
  "wf_caches e sets \<longleftrightarrow>
     enq_clusterSetLister e = cache_cl_lister ''managedclustersets'' sets \<and> wf_cl_items sets \<and>
     (\<forall>p \<in> set (placementIndexer e). wf_meta p \<and> (\<forall>s \<in> set (ClusterSets (Spec p)). s \<noteq> anyClusterSet \<and> slash \<notin> set s)) \<and>
     (\<forall>b \<in> set (clusterSetBindingIndexer e). wf_meta b \<and> Name b = BoundClusterSet b \<and> Name b \<noteq> anyClusterSet)"

lemma index_iff:
  assumes "wf_meta p" "slash \<notin> set ns" "\<forall>s \<in> set (ClusterSets (Spec p)). s \<noteq> anyClusterSet"
  shows "ns @ [slash] @ n \<in> set (indexPlacementByClusterSetBinding p) \<longleftrightarrow> Namespace p = ns \<and>
    (if n = anyClusterSet then ClusterSets (Spec p) = [] else n \<in> set (ClusterSets (Spec p)))"
  using assms by (auto simp: indexPlacementByClusterSetBinding_def Let_def key_inj wf_meta_def)

lemma set_enqueueClusterSetBinding:
  assumes w: "wf_caches e sets" and m: "wf_meta b" "Name b \<noteq> anyClusterSet"
  shows "set (enqueueClusterSetBinding e (BindingObj b) q) = set q \<union> placement_queue_key ` bound_placements e b"
proof -
  have s: "slash \<notin> set (Namespace b)" and k: "MetaNamespaceKey b = Namespace b @ [slash] @ Name b"
    using m(1) by (simp_all add: wf_meta_def MetaNamespaceKey_def)
  have "SplitMetaNamespaceKey (MetaNamespaceKey b) = Some (Namespace b, Name b)"
    by (rule SplitMetaNamespaceKey_key [OF m(1)])
  then have "set (enqueueClusterSetBinding e (BindingObj b) q) = set q \<union>
      (\<Union>p \<in> set (ByIndex indexPlacementByClusterSetBinding (placementIndexer e) (MetaNamespaceKey b) @
        ByIndex indexPlacementByClusterSetBinding (placementIndexer e) (Namespace b @ [slash] @ anyClusterSet)).
        {placement_queue_key p})"
    by (simp add: enqueueClusterSetBinding_def Let_def del: foldl_append set_append)
      (rule set_foldl_enqueue, simp)
  also have "(\<Union>p \<in> set (ByIndex indexPlacementByClusterSetBinding (placementIndexer e) (MetaNamespaceKey b) @
        ByIndex indexPlacementByClusterSetBinding (placementIndexer e) (Namespace b @ [slash] @ anyClusterSet)).
        {placement_queue_key p}) = placement_queue_key ` bound_placements e b"
  proof -
    have "p \<in> set (placementIndexer e) \<Longrightarrow>
        Namespace b @ [slash] @ n \<in> set (indexPlacementByClusterSetBinding p) \<longleftrightarrow> Namespace p = Namespace b \<and>
        (if n = anyClusterSet then ClusterSets (Spec p) = [] else n \<in> set (ClusterSets (Spec p)))" for p n
      using w s by (intro index_iff) (auto simp: wf_caches_def)
    then show ?thesis unfolding k bound_placements_def set_append set_ByIndex using m(2) by auto
  qed
  finally show ?thesis .
qed

lemma set_enqueueClusterSet_key:
  assumes w: "wf_caches e sets" and k: "DeletionHandlingMetaNamespaceKeyFunc obj = Some n"
  shows "set (enqueueClusterSet e obj q) = set q \<union>
    (\<Union>b \<in> {b \<in> set (clusterSetBindingIndexer e). BoundClusterSet b = n}.
      placement_queue_key ` bound_placements e b)"
proof -
  have "set (enqueueClusterSet e obj q) = set q \<union>
      (\<Union>b \<in> set (ByIndex indexClusterSetBindingByClusterSet (clusterSetBindingIndexer e) n).
        placement_queue_key ` bound_placements e b)"
    by (simp add: enqueueClusterSet_def k del: set_ByIndex)
      (rule set_foldl_enqueue, use w in \<open>auto simp: set_enqueueClusterSetBinding [OF w] wf_caches_def\<close>)
  then show ?thesis by (auto simp: indexClusterSetBindingByClusterSet_def)
qed

lemma set_enqueueClusterSet:
  assumes w: "wf_caches e sets" and s: "s \<in> set sets"
  shows "set (enqueueClusterSet e (SetObj s) q) = set q \<union>
    (\<Union>b \<in> {b \<in> set (clusterSetBindingIndexer e). BoundClusterSet b = Name s}.
      placement_queue_key ` bound_placements e b)"
  using s w by (intro set_enqueueClusterSet_key [OF w]) (auto simp: wf_caches_def wf_cl_items_def list_all_iff)

lemma set_enqueueCluster:
  assumes w: "wf_caches e sets" and v: "list_all valid_set sets"
  shows "set (enqueueCluster ce e (ClusterObj cl) q) = set q \<union>
    placement_queue_key ` {p \<in> set (placementIndexer e). available_to sets (clusterSetBindingIndexer e) p cl}"
proof -
  have g: "GetClusterSetsOfCluster ce cl (enq_clusterSetLister e) = Inr (filter (\<lambda>s. set_matches s cl) sets)"
    using GetClusterSetsOfCluster_spec [of "enq_clusterSetLister e" _ sets ce cl] w v by (simp add: wf_caches_def)
  have "set (enqueueCluster ce e (ClusterObj cl) q) = set q \<union>
      (\<Union>s \<in> set (filter (\<lambda>s. set_matches s cl) sets).
        \<Union>b \<in> {b \<in> set (clusterSetBindingIndexer e). BoundClusterSet b = Name s}.
          placement_queue_key ` bound_placements e b)"
    by (simp only: enqueueCluster_def g event_object.case sum.case)
      (rule set_foldl_enqueue, simp add: set_enqueueClusterSet [OF w])
  also have "(\<Union>s \<in> set (filter (\<lambda>s. set_matches s cl) sets).
        \<Union>b \<in> {b \<in> set (clusterSetBindingIndexer e). BoundClusterSet b = Name s}.
          placement_queue_key ` bound_placements e b) =
      placement_queue_key ` {p \<in> set (placementIndexer e). available_to sets (clusterSetBindingIndexer e) p cl}"
  proof -
    have n: "b \<in> set (clusterSetBindingIndexer e) \<Longrightarrow> BoundClusterSet b = Name b" for b
      using w by (simp add: wf_caches_def)
    have "(\<exists>s \<in> set (filter (\<lambda>s. set_matches s cl) sets).
        \<exists>b \<in> {b \<in> set (clusterSetBindingIndexer e). BoundClusterSet b = Name s}. p \<in> bound_placements e b) \<longleftrightarrow>
        p \<in> set (placementIndexer e) \<and> available_to sets (clusterSetBindingIndexer e) p cl" for p
      using n by (fastforce simp: available_to_def bound_placements_def)
    then show ?thesis by (simp add: set_eq_iff image_iff) blast
  qed
  finally show ?thesis .
qed

lemma enqueueCluster_invalid:
  assumes "wf_caches e sets" "\<not> list_all valid_set sets"
  shows "enqueueCluster ce e (ClusterObj cl) q = q"
proof -
  have "isl (for_each (sets_of_cluster_step ce cl) [] sets) \<longleftrightarrow> (\<exists>s \<in> set sets. \<not> valid_set s)"
    by (rule for_each_isl)
      (simp add: sets_of_cluster_step_def BuildClusterSelector_valid [symmetric, of _ ce] split: sum.split)
  then obtain er where "GetClusterSetsOfCluster ce cl (enq_clusterSetLister e) = Inl er"
    using assms by (auto simp: wf_caches_def GetClusterSetsOfCluster_def ListAll_eq list_all_iff isl_def)
  then show ?thesis by (simp add: enqueueCluster_def)
qed

text \<open>C21: a change of a cluster queues exactly the placements to which the cluster is available, the
  same relation by which a reconciliation collects its clusters; but a single cluster set with an
  invalid selector makes the handler queue nothing.\<close>

theorem enqueueCluster_spec:
  assumes "wf_caches e sets"
  shows "set (enqueueCluster ce e (ClusterObj cl) q) = (if list_all valid_set sets
    then set q \<union> placement_queue_key `
      {p \<in> set (placementIndexer e). available_to sets (clusterSetBindingIndexer e) p cl}
    else set q)"
  using set_enqueueCluster [OF assms] enqueueCluster_invalid [OF assms] by simp

definition world_enqueuer :: enqueuer where
  "world_enqueuer = newEnqueuer world_clusters world_sets [world_placement, NewPlacement ''other'' ''q''] world_bindings"

lemma world_caches: "wf_caches world_enqueuer world_sets"
  by (simp add: wf_caches_def world_enqueuer_def newEnqueuer_def world_sets_def wf_cl_items_def wf_cl_meta_def
      world_placement_def world_bindings_def wf_meta_def slash_def anyClusterSet_def)
    (simp add: builder_defs record_builders)

theorem enqueueCluster_spec_witness:
  "enqueueCluster sample_cenv world_enqueuer (ClusterObj (member ''s1'' ''c1'')) [] = [''ns/p''] \<and>
   set (enqueueCluster sample_cenv world_enqueuer (ClusterObj (member ''s2'' ''c3'')) []) =
     placement_queue_key ` {p \<in> set (placementIndexer world_enqueuer).
       available_to world_sets (clusterSetBindingIndexer world_enqueuer) p (member ''s2'' ''c3'')}"
proof -
  have "enqueueCluster sample_cenv world_enqueuer (ClusterObj (member ''s1'' ''c1'')) [] = [''ns/p'']"
    by code_simp
  moreover have "list_all valid_set world_sets" using world_sets_valid by (simp add: list_all_iff)
  ultimately show ?thesis using enqueueCluster_spec [OF world_caches, of sample_cenv "member ''s2'' ''c3''" "[]"]
    by simp
qed

lemma binding_tombstone:
  "enqueueClusterSetBinding e (DeletedFinalStateUnknown (MetaNamespaceKey b) t) q =
   enqueueClusterSetBinding e (BindingObj b) q"
  by (simp add: enqueueClusterSetBinding_def)

text \<open>What an update and a deletion of a cluster queue.\<close>

lemma set_cluster_update:
  assumes "wf_caches e sets" "list_all valid_set sets"
  shows "set (on_change ce e ClusterInformer (Updated (ClusterObj old) (ClusterObj new)) q) = set q \<union>
    placement_queue_key ` {p \<in> set (placementIndexer e). available_to sets (clusterSetBindingIndexer e) p old \<or>
      available_to sets (clusterSetBindingIndexer e) p new}"
proof -
  have "available_to sets bs p new \<longleftrightarrow> available_to sets bs p old" if "ObjLabels new = ObjLabels old" for bs p
    using that by (simp add: available_to_def set_matches_def)
  then show ?thesis by (auto simp: OnUpdate_def Let_def set_enqueueCluster [OF assms])
qed

lemma set_cluster_deletion:
  assumes "wf_caches e sets" "list_all valid_set sets" "obj \<in> {ClusterObj old, DeletedFinalStateUnknown key (ClusterObj old)}"
  shows "set (on_change ce e ClusterInformer (Deleted obj) q) = set q \<union>
    placement_queue_key ` {p \<in> set (placementIndexer e). available_to sets (clusterSetBindingIndexer e) p old}"
  using assms(3) by (auto simp: OnDelete_def set_enqueueCluster [OF assms(1,2)])



lemma binding_namespaces_set:
  "set (binding_namespaces e ss) =
     (\<Union>s \<in> set ss. Namespace ` {b \<in> set (clusterSetBindingIndexer e). BoundClusterSet b = Name s})"
proof -
  have i: "set (foldl (\<lambda>acc b. sets_insert acc (Namespace b)) acc bs) = set acc \<union> (\<Union>b \<in> set bs. {Namespace b})"
    for acc and bs :: "ManagedClusterSetBinding list"
    by (rule set_foldl_enqueue) simp
  have "set (binding_namespaces e ss) = set [] \<union> (\<Union>s \<in> set ss.
      \<Union>b \<in> set (ByIndex indexClusterSetBindingByClusterSet (clusterSetBindingIndexer e) (Name s)). {Namespace b})"
    unfolding binding_namespaces_def by (rule set_foldl_enqueue) (rule i)
  moreover have "(\<Union>b \<in> set (ByIndex indexClusterSetBindingByClusterSet (clusterSetBindingIndexer e) n). {Namespace b}) =
      Namespace ` {b \<in> set (clusterSetBindingIndexer e). BoundClusterSet b = n}" for n
    by (auto simp: indexClusterSetBindingByClusterSet_def)
  ultimately show ?thesis by simp
qed

text \<open>A placement uses the scores of an AddOnPlacementScore when one of its configurations names it.\<close>

definition uses_score :: "Placement \<Rightarrow> string \<Rightarrow> bool" where
  "uses_score p n \<longleftrightarrow> (\<exists>c \<in> set (Configurations (Policy (Spec p))). \<exists>k ptr a. ConfigCoordinate c = Some k \<and>
     CoordType k = ''AddOn'' \<and> CoordAddOn k = Some (ptr, a) \<and> ResourceName a = n)"

lemma index_uses_score: "n \<in> set (indexPlacementsByScore p) \<longleftrightarrow> uses_score p n"
proof -
  have "n \<in> set (score_index_key c) \<longleftrightarrow> (\<exists>k ptr a. ConfigCoordinate c = Some k \<and>
     CoordType k = ''AddOn'' \<and> CoordAddOn k = Some (ptr, a) \<and> ResourceName a = n)" for c
  proof (cases "ConfigCoordinate c")
    case (Some k)
    then show ?thesis by (cases "CoordAddOn k") (auto simp: score_index_key_def)
  qed (simp add: score_index_key_def)
  then show ?thesis by (simp add: indexPlacementsByScore_def uses_score_def)
qed

text \<open>C23: a change of an AddOnPlacementScore, also a deletion learnt from a tombstone, queues exactly the
  placements one of whose configurations names an addon score of that name and whose namespace is
  bound to a set of the cluster the score belongs to; in particular every such placement to which the
  cluster is available.\<close>

theorem enqueuePlacementScore_spec:
  assumes w: "wf_caches e sets" and v: "list_all valid_set sets"
    and cl: "enq_clusterLister e = cache_cl_lister ''managedclusters'' clusters" "wf_cl_items clusters"
      "cl \<in> set clusters"
    and score: "Namespace sc = Name cl" "wf_meta sc"
    and obj: "obj = ScoreObj sc \<or> obj = DeletedFinalStateUnknown (MetaNamespaceKey sc) t"
  shows "set (enqueuePlacementScore ce e obj q) = set q \<union> placement_queue_key `
    {p \<in> set (placementIndexer e). uses_score p (Name sc) \<and>
      (\<exists>s \<in> set sets. \<exists>b \<in> set (clusterSetBindingIndexer e). set_matches s cl \<and> Name b = Name s \<and>
        Namespace b = Namespace p)}"
proof -
  have k: "DeletionHandlingMetaNamespaceKeyFunc obj = Some (MetaNamespaceKey sc)"
    "SplitMetaNamespaceKey (MetaNamespaceKey sc) = Some (Name cl, Name sc)"
    using obj SplitMetaNamespaceKey_key [OF score(2)] score(1) by auto
  have g: "cl_get (enq_clusterLister e) (Name cl) = Inr cl" using cache_cl_get [OF cl(2,3)] cl(1) by simp
  have s: "GetClusterSetsOfCluster ce cl (enq_clusterSetLister e) = Inr (filter (\<lambda>s. set_matches s cl) sets)"
    using GetClusterSetsOfCluster_spec [of "enq_clusterSetLister e" _ sets ce cl] w v by (simp add: wf_caches_def)
  let ?nss = "binding_namespaces e (filter (\<lambda>s. set_matches s cl) sets)"
  have "set (enqueuePlacementScore ce e obj q) = set q \<union>
      (\<Union>p \<in> set (ByIndex indexPlacementsByScore (placementIndexer e) (Name sc)).
        if sets_has ?nss (Namespace p) then {placement_queue_key p} else {})"
    by (simp only: enqueuePlacementScore_def k g s Let_def option.case sum.case prod.case)
      (rule set_foldl_enqueue, simp)
  moreover have "sets_has ?nss ns \<longleftrightarrow> (\<exists>s \<in> set sets. \<exists>b \<in> set (clusterSetBindingIndexer e).
      set_matches s cl \<and> Name b = Name s \<and> Namespace b = ns)" for ns
    using w by (auto simp: binding_namespaces_set wf_caches_def)
  moreover have "(\<Union>p \<in> A. if P p then {f p} else {}) = f ` {p \<in> A. P p}"
    for A :: "Placement set" and P and f :: "Placement \<Rightarrow> string" by auto
  ultimately show ?thesis unfolding set_ByIndex index_uses_score by (simp add: conj_assoc)
qed

definition world_score :: AddOnPlacementScore where
  "world_score = NewAddOnPlacementScore ''c1'' ''demo''"

definition score_enqueuer :: enqueuer where
  "score_enqueuer = newEnqueuer world_clusters world_sets
     [WithScoreCoordinateAddOn 1 ''demo'' ''cpu'' 2 (NewPlacement ''ns'' ''r''), NewPlacement ''ns'' ''q''] world_bindings"

lemma score_caches: "wf_caches score_enqueuer world_sets"
  by (simp add: wf_caches_def score_enqueuer_def newEnqueuer_def world_sets_def wf_cl_items_def wf_cl_meta_def
      world_bindings_def wf_meta_def slash_def anyClusterSet_def)
    (simp add: builder_defs record_builders)

theorem enqueuePlacementScore_spec_witness:
  "enqueuePlacementScore sample_cenv score_enqueuer (ScoreObj world_score) [] = [''ns/r''] \<and>
   set (enqueuePlacementScore sample_cenv score_enqueuer (DeletedFinalStateUnknown ''c1/demo'' Nil_object) []) =
   placement_queue_key ` {p \<in> set (placementIndexer score_enqueuer). uses_score p ''demo'' \<and>
      (\<exists>s \<in> set world_sets. \<exists>b \<in> set (clusterSetBindingIndexer score_enqueuer).
        set_matches s (member ''s1'' ''c1'') \<and> Name b = Name s \<and> Namespace b = Namespace p)}"
proof -
  have "enqueuePlacementScore sample_cenv score_enqueuer (ScoreObj world_score) [] = [''ns/r'']"
    by code_simp
  moreover have sc: "Namespace world_score = Name (member ''s1'' ''c1'')" "Name world_score = ''demo''"
    "wf_meta world_score" "MetaNamespaceKey world_score = ''c1/demo''"
    by (simp_all add: world_score_def member_def builder_defs record_builders wf_meta_def slash_def MetaNamespaceKey_def)
  moreover have v: "list_all valid_set world_sets" using world_sets_valid by (simp add: list_all_iff)
  have l: "enq_clusterLister score_enqueuer = cache_cl_lister ''managedclusters'' world_clusters"
    by (simp add: score_enqueuer_def newEnqueuer_def)
  have w: "wf_cl_items world_clusters" using world_cached by (simp add: cached_def)
  have m: "member ''s1'' ''c1'' \<in> set world_clusters" by (simp add: world_clusters_def)
  from enqueuePlacementScore_spec [OF score_caches v l w m sc(1,3) disjI2 [OF refl], of sample_cenv Nil_object "[]"]
  show ?thesis using calculation by (simp add: sc)
qed

end
