(* ===== verification/Lag.thy ===== *)
theory Lag
  imports Hub Enqueue "HOL-Library.Sublist"
begin

text \<open>
  A cache of PlacementDecisions that lags behind the hub. The watch hands over, in their order, the
  calls that changed an object; until it has, the cache shows an older state. The calls of a
  reconciliation concern its placement's own objects. A reconciliation that reads an old state of them
  may write something else than it wants, or nothing; but then a change of one of these objects is
  outstanding or has just arrived, and its event queues the placement again. Where there is none, the
  reconciliation has read the present state, and without error it leaves the wanted decisions.
\<close>

section \<open>Changes\<close>

text \<open>The object an accepted call writes or deletes, as the informer hands it over.\<close>

fun written :: "PlacementDecision list \<Rightarrow> action \<Rightarrow> PlacementDecision option" where
  "written S (CreatePD pd) = (if wf_meta pd \<and> lookup S (pd_key pd) = None then Some pd else None)"
| "written S (UpdatePDStatus pd) = lookup S (pd_key pd)"
| "written S (DeletePD ns n) = lookup S (ns, n)"
| "written S _ = None"

definition change_of :: "PlacementDecision list \<Rightarrow> action \<times> bool \<Rightarrow> PlacementDecision option" where
  "change_of S x = (if snd x then written S (fst x) else None)"

text \<open>The calls of a trace that change an object.\<close>

fun effective :: "PlacementDecision list \<Rightarrow> trace \<Rightarrow> trace" where
  "effective S [] = []"
| "effective S (x # tr) = (if change_of S x = None then [] else [x]) @ effective (store_step S x) tr"

fun all_effective :: "PlacementDecision list \<Rightarrow> trace \<Rightarrow> bool" where
  "all_effective S [] \<longleftrightarrow> True"
| "all_effective S (x # tr) \<longleftrightarrow> change_of S x \<noteq> None \<and> all_effective (store_step S x) tr"

text \<open>The handler of the PlacementDecision informer.\<close>

definition decision_event :: "PlacementDecision option \<Rightarrow> queue \<Rightarrow> queue" where
  "decision_event obj q = (case obj of None \<Rightarrow> q
     | Some d \<Rightarrow> if decision_filter d then queue_Add q (decision_queue_key d) else q)"

fun notify :: "PlacementDecision list \<Rightarrow> trace \<Rightarrow> queue \<Rightarrow> queue" where
  "notify S [] q = q"
| "notify S (x # tr) q = notify (store_step S x) tr (decision_event (change_of S x) q)"

lemma store_step_no_change: "change_of S x = None \<Longrightarrow> store_step S x = S"
proof (cases x)
  case (Pair a b)
  assume c: "change_of S x = None"
  show ?thesis
  proof (cases b)
    case b: True
    show ?thesis
    proof (cases a)
      case (UpdatePDStatus pd)
      then have "pd_key pd \<notin> pd_key ` set S" using c b Pair by (simp add: change_of_def lookup_None)
      then have "map (\<lambda>d. if pd_key d = pd_key pd then d\<lparr>Decisions := Decisions pd\<rparr> else d) S = S"
        by (intro map_idI) (metis image_eqI)
      then show ?thesis using UpdatePDStatus b Pair by simp
    next
      case (DeletePD ns n)
      then have "(ns, n) \<notin> pd_key ` set S" using c b Pair by (simp add: change_of_def lookup_None)
      then have "filter (\<lambda>d. pd_key d \<noteq> (ns, n)) S = S" by (intro filter_True) (metis image_eqI)
      then show ?thesis using DeletePD b Pair by simp
    qed (use c b Pair in \<open>auto simp: change_of_def split: if_splits\<close>)
  qed (cases a; simp add: Pair)
qed

lemma foldl_effective [simp]: "foldl store_step S (effective S tr) = foldl store_step S tr"
  by (induction tr arbitrary: S) (auto simp: store_step_no_change)

lemma all_effective_effective [simp]: "all_effective S (effective S tr)"
  by (induction tr arbitrary: S) (auto simp: store_step_no_change)

lemma all_effective_append [simp]:
  "all_effective S (xs @ ys) \<longleftrightarrow> all_effective S xs \<and> all_effective (foldl store_step S xs) ys"
  by (induction xs arbitrary: S) auto

lemma effective_append: "effective S (xs @ ys) = effective S xs @ effective (foldl store_step S xs) ys"
  by (induction xs arbitrary: S) (auto simp: store_step_no_change)

lemma set_effective: "set (effective S tr) \<subseteq> set tr"
  by (induction tr arbitrary: S) auto

lemma notify_append: "notify S (xs @ ys) q = notify (foldl store_step S xs) ys (notify S xs q)"
  by (induction xs arbitrary: S q) auto

lemma notify_effective: "notify S (effective S tr) q = notify S tr q"
  by (induction tr arbitrary: S q) (auto simp: store_step_no_change decision_event_def)

lemma set_decision_event: "set q \<subseteq> set (decision_event obj q)"
  by (auto simp: decision_event_def split: option.split)

lemma set_notify: "set q \<subseteq> set (notify S tr q)"
  by (induction tr arbitrary: S q) (use set_decision_event in fastforce)+

lemma set_notify_union: "set (notify S tr q) = set q \<union> set (notify S tr [])"
proof (induction tr arbitrary: S q)
  case (Cons x tr)
  let ?e = "decision_event (change_of S x)"
  have "set (?e q) = set q \<union> set (?e [])" by (auto simp: decision_event_def split: option.split)
  then show ?case using Cons.IH [of "store_step S x" "?e q"] Cons.IH [of "store_step S x" "?e []"] by auto
qed simp

lemma hub_inv_foldl: "hub_inv S \<Longrightarrow> list_all (ok_action \<circ> fst) tr \<Longrightarrow> hub_inv (foldl store_step S tr)"
  using store_of_inv [of S tr] by (simp add: store_of_def admit_id hub_inv_def)

section \<open>The objects of a placement\<close>

fun target :: "action \<Rightarrow> (string \<times> string) option" where
  "target (CreatePD pd) = Some (pd_key pd)"
| "target (UpdatePDStatus pd) = Some (pd_key pd)"
| "target (DeletePD ns n) = Some (ns, n)"
| "target _ = None"

definition about :: "Placement \<Rightarrow> action \<Rightarrow> bool" where
  "about p a \<longleftrightarrow> (\<exists>i \<ge> 1. target a = Some (Namespace p, decision_name (Name p) i))"

definition own_object :: "Placement \<Rightarrow> PlacementDecision list \<Rightarrow> nat \<Rightarrow> PlacementDecision option" where
  "own_object p S i = lookup S (Namespace p, decision_name (Name p) i)"

lemma lookup_store_step: "target a \<noteq> Some k \<Longrightarrow> lookup (store_step S (a, b)) k = lookup S k"
proof (cases b)
  case True
  assume t: "target a \<noteq> Some k"
  show ?thesis
  proof (cases a)
    case (UpdatePDStatus pd)
    let ?f = "\<lambda>d. if pd_key d = pd_key pd then d\<lparr>Decisions := Decisions pd\<rparr> else d"
    have "lookup (map ?f S) k = map_option ?f (lookup S k)" by (rule lookup_map) simp
    then show ?thesis using True UpdatePDStatus t lookup_key [of S k] by (cases "lookup S k") auto
  qed (use True t in \<open>auto simp: lookup_append lookup_filter split: option.split\<close>)
qed (cases a; simp)

lemma own_object_foldl:
  assumes "\<forall>x \<in> set tr. \<not> about p (fst x)" "1 \<le> i"
  shows "own_object p (foldl store_step S tr) i = own_object p S i"
  using assms(1)
proof (induction tr arbitrary: S)
  case (Cons x tr)
  obtain a b where x: "x = (a, b)" by fastforce
  then have "target a \<noteq> Some (Namespace p, decision_name (Name p) i)" using Cons.prems assms(2) by (auto simp: about_def)
  then have "own_object p (store_step S x) i = own_object p S i" unfolding own_object_def x by (rule lookup_store_step)
  then show ?case using Cons by simp
qed simp

text \<open>The objects determine the view.\<close>

lemma own_objects_view:
  assumes "decisions_inv (lookup S)" "decisions_inv (lookup S')" "\<And>i. 1 \<le> i \<Longrightarrow> own_object p S' i = own_object p S i"
  shows "decisions_view (lookup S') (placement_key p) = decisions_view (lookup S) (placement_key p)"
proof
  fix n
  show "decisions_view (lookup S') (placement_key p) n = decisions_view (lookup S) (placement_key p) n"
  proof (cases "\<exists>i \<ge> 1. n = decision_name (Name p) i")
    case True
    then show ?thesis using assms(3) by (auto simp: own_object_def decisions_view_def placement_key_def)
  next
    case False
    then have "decisions_view (lookup T) (placement_key p) n = None" if "decisions_inv (lookup T)" for T
      using decisions_invD(2) [OF that, of "Namespace p" n _ "Name p"]
      by (auto simp: decisions_view_def placement_key_def split: option.splits)
    then show ?thesis using assms(1,2) by simp
  qed
qed

text \<open>An arriving change of one of the objects queues the placement.\<close>

lemma change_of_about:
  assumes "hub_inv S" "ok_action a" "about p a" "change_of S (a, b) = Some d" "wf_meta p"
  shows "decision_filter d \<and> decision_queue_key d = placement_queue_key p"
proof -
  have k: "placement_queue_key p = Namespace p @ [slash] @ Name p"
    using assms(5) by (simp add: placement_queue_key_def MetaNamespaceKey_def wf_meta_def)
  have l: "label_of d = Some (Name p) \<and> Namespace d = Namespace p"
    if "lookup S (Namespace p, decision_name (Name p) i) = Some d" "1 \<le> i" for i
    using decisions_invD(2) [of "lookup S", OF _ that(1)] that(2) lookup_key [OF that(1)] assms(1)
    by (auto simp: hub_inv_def pd_key_def)
  have "label_of d = Some (Name p) \<and> Namespace d = Namespace p"
    using assms(2-4) l
    by (cases a) (auto simp: about_def change_of_def ok_action_def new_decision_def pd_key_def split: if_splits)
  then show ?thesis using k by (simp add: decision_filter_def decision_queue_key_def)
qed

lemma notify_about:
  assumes "hub_inv S" "list_all (ok_action \<circ> fst) tr" "all_effective S tr" "wf_meta p" "\<exists>x \<in> set tr. about p (fst x)"
  shows "placement_queue_key p \<in> set (notify S tr q)"
  using assms(1-3,5)
proof (induction tr arbitrary: S q)
  case (Cons x tr)
  obtain a b where x: "x = (a, b)" by fastforce
  show ?case
  proof (cases "about p a")
    case True
    obtain d where "change_of S x = Some d" using Cons.prems(3) by auto
    then have "placement_queue_key p \<in> set (decision_event (change_of S x) q)"
      using change_of_about [of S a p b d] Cons.prems(1,2) True assms(4) x by (simp add: decision_event_def)
    then show ?thesis using set_notify by auto
  next
    case False
    have "hub_inv (store_step S x)" using Cons.prems(1,2) store_step_inv [of S a b] x by simp
    then show ?thesis using Cons.IH [of "store_step S x"] Cons.prems False x by auto
  qed
qed simp

text \<open>Keys of decisions are well formed.\<close>

lemma decision_key_slash:
  assumes "hub_inv S" "ok_action a" "change_of S (a, b) = Some d" "decision_filter d"
  shows "count_list (decision_queue_key d) slash < 2"
proof -
  have l: "\<exists>pn i. label_of d = Some pn \<and> Name d = decision_name pn i \<and> wf_meta d" if "lookup S k = Some d" for k
  proof -
    obtain pn where pn: "label_of d = Some pn" using assms(4) by (auto simp: decision_filter_def)
    have k: "pd_key d = k" by (rule lookup_key [OF that])
    then have d: "lookup S (Namespace d, Name d) = Some d" using that by (simp add: pd_key_def)
    have "d \<in> set S" using that lookup_Some_iff assms(1) by (auto simp: hub_inv_def)
    then have "wf_meta d" using assms(1) by (simp add: hub_inv_def wf_store_def list_all_iff)
    moreover obtain i where "Name d = decision_name pn i"
      using decisions_invD(2) [of "lookup S", OF _ d, of pn] pn assms(1) by (auto simp: hub_inv_def)
    ultimately show ?thesis using pn by blast
  qed
  have "\<exists>pn i. label_of d = Some pn \<and> Name d = decision_name pn i \<and> wf_meta d"
  proof (cases a)
    case (CreatePD pd)
    then show ?thesis using assms(2,3) by (auto simp: change_of_def ok_action_def new_decision_def split: if_splits)
  qed (use assms(3) l in \<open>auto simp: change_of_def split: if_splits\<close>)
  then obtain pn i where d: "label_of d = Some pn" "Name d = decision_name pn i" "wf_meta d" by blast
  then have "slash \<notin> set pn" "slash \<notin> set (Namespace d)" by (auto simp: wf_meta_def)
  then show ?thesis
    using SplitMetaNamespaceKey_slash [of "Namespace d" pn] SplitMetaNamespaceKey_None_iff [of "decision_queue_key d"] d(1)
    by (simp add: decision_queue_key_def)
qed

lemma notify_slash:
  assumes "hub_inv S" "list_all (ok_action \<circ> fst) tr" "\<forall>k \<in> set q. count_list k slash < 2"
  shows "\<forall>k \<in> set (notify S tr q). count_list k slash < 2"
  using assms
proof (induction tr arbitrary: S q)
  case (Cons x tr)
  obtain a b where x: "x = (a, b)" by fastforce
  have "hub_inv (store_step S x)" using Cons.prems(1,2) store_step_inv [of S a b] x by simp
  moreover have "\<forall>k \<in> set (decision_event (change_of S x) q). count_list k slash < 2"
  proof (cases "change_of S x")
    case (Some d)
    then have "decision_filter d \<Longrightarrow> count_list (decision_queue_key d) slash < 2"
      using decision_key_slash [of S a b d] Cons.prems(1,2) x by simp
    then show ?thesis using Cons.prems(3) by (simp add: decision_event_def Some)
  qed (use Cons.prems(3) in \<open>simp add: decision_event_def\<close>)
  ultimately show ?case using Cons.IH [of "store_step S x"] Cons.prems(2) by simp
qed simp

section \<open>What a reconciliation writes\<close>

text \<open>The calls of a reconciliation of a placement concern its own numbered objects and its status.\<close>

definition own_action :: "Placement \<Rightarrow> action \<Rightarrow> bool" where
  "own_action p a = (case a of
     CreatePD pd \<Rightarrow> \<exists>i \<ge> 1. pd = new_decision p (decision_name (Name p) i)
   | UpdatePDStatus pd \<Rightarrow> \<exists>i \<ge> 1. pd_key pd = (Namespace p, decision_name (Name p) i)
   | DeletePD ns n \<Rightarrow> ns = Namespace p \<and> (\<exists>i \<ge> 1. n = decision_name (Name p) i)
   | UpdatePlacementStatus q \<Rightarrow> \<exists>st. q = p\<lparr>PStatus := st\<rparr>
   | _ \<Rightarrow> True)"

lemma slice_action_own: "slice_action p ss a \<Longrightarrow> own_action p a"
  by (cases a) (auto simp: slice_action_def own_action_def intro: exI [of _ "Suc i" for i])

lemma requeue_own: "\<exists>a0. requeue p t tr = tr @ a0 \<and> list_all (own_action p \<circ> fst) a0"
  by (cases t) (auto simp: requeue_def own_action_def)

text \<open>The cache of a server, at any state of it.\<close>

lemma shown_get:
  assumes "slash \<notin> set ns"
  shows "ns_get (placementDecisionLister (on_server c fails S shown) tr) ns n =
    (case lookup (admit (shown tr)) (ns, n) of None \<Rightarrow> Inl (NewNotFound ''placementdecisions'' n) | Some d \<Rightarrow> Inr d)"
  using store_get [OF assms, of "''placementdecisions''" "admit (shown tr)" "[]" n] by (simp add: decs_of_def admit_id)

lemma shown_list:
  assumes "ns \<noteq> []" "equals_selector PlacementLabel pn = Inr sel"
    "ns_list (placementDecisionLister (on_server c fails S shown) tr) ns sel = Inr pds"
  shows "d \<in> set pds \<longleftrightarrow> lookup (admit (shown tr)) (pd_key d) = Some d \<and> Namespace d = ns \<and> label_of d = Some pn"
proof -
  have "set pds = {d \<in> set (admit (shown tr)). Namespace d = ns \<and> Matches sel (ObjLabels d)}"
    using assms(3) assms(1) by (auto simp: ListAllByNamespace_eq)
  moreover have "lookup (admit (shown tr)) (pd_key d) = Some d \<longleftrightarrow> d \<in> set (admit (shown tr))"
    using lookup_Some_iff [of "admit (shown tr)" "pd_key d" d] by simp
  ultimately show ?thesis using equals_selector_matches [OF assms(2)] by auto
qed

lemma bind_own:
  assumes b: "bind (on_server c fails S shown) p ds sc st tr = (er, tr')" and p: "wf_meta p"
    and inv: "\<And>t. prefix t tr' \<Longrightarrow> decisions_inv (lookup (admit (shown t)))"
  shows "\<exists>acts. tr' = tr @ acts \<and> list_all (own_action p \<circ> fst) acts"
proof -
  have s: "slash \<notin> set (Namespace p)" "Namespace p \<noteq> []" using p by (simp_all add: wf_meta_def)
  from b show ?thesis
  proof (cases rule: server.bind_cases)
    case (writes errs names)
    then show ?thesis using server.bind_loop(2) [OF writes(1) s(1)]
      by (fastforce simp: list_all_iff dest: slice_action_own)
  next
    case (deletes names tr1 sel pds errs)
    note loop = server.bind_loop [OF deletes(1) s(1)]
    obtain ws where ws: "tr1 = tr @ ws" "list_all (own_action p \<circ> fst) ws"
      using loop(2) by (fastforce simp: list_all_iff dest: slice_action_own)
    obtain dels where dels: "tr' = tr1 @ dels" "list_all (delete_action names pds \<circ> fst) dels"
      using server.delete_loop(1) [OF deletes(4)] by blast
    have inv1: "decisions_inv (lookup (admit (shown tr1)))" by (rule inv) (simp add: dels(1))
    have "Namespace d = Namespace p \<and> (\<exists>i \<ge> 1. Name d = decision_name (Name p) i)" if "d \<in> set pds" for d
    proof -
      have d: "lookup (admit (shown tr1)) (Namespace d, Name d) = Some d" "Namespace d = Namespace p" "label_of d = Some (Name p)"
        using iffD1 [OF shown_list [OF s(2) deletes(2,3), of d] that] by (auto simp: pd_key_def)
      then show ?thesis using decisions_invD(2) [OF inv1 d(1)] by blast
    qed
    then have "own_action p a" if "delete_action names pds a" for a
      using that by (fastforce simp: delete_action_def own_action_def pd_key_def split: action.splits)
    then have "list_all (own_action p \<circ> fst) dels" using dels(2) by (simp add: list_all_iff)
    then show ?thesis using ws dels(1) by auto
  qed
qed

lemma syncPlacement_own:
  assumes s: "syncPlacement (on_server c fails S shown) p [] = Some (r, tr)" and p: "wf_meta p"
    and inv: "\<And>t. prefix t tr \<Longrightarrow> decisions_inv (lookup (admit (shown t)))"
  shows "list_all (own_action p \<circ> fst) tr"
proof (cases "active p")
  case False
  then show ?thesis using s by (simp add: syncPlacement_inactive)
next
  case act: True
  let ?c = "on_server c fails S shown"
  show ?thesis
  proof (cases "placement_clusters ?c p")
    case (Inl e)
    then show ?thesis using s syncPlacement_no_clusters [OF act, of ?c] by simp
  next
    case (Inr cls)
    obtain res st where sch: "scheduler ?c [] p cls = Some (res, st)"
      using syncPlacement_panic [OF act Inr, of "[]"] s by (cases "scheduler ?c [] p cls") auto
    obtain e1 tr1 where b: "bind ?c p (sched_Decisions res) (PrioritizerScores res) st
        (requeue p (sched_RequeueAfter res) []) = (e1, tr1)" by fastforce
    obtain a0 where a0: "requeue p (sched_RequeueAfter res) [] = a0" "list_all (own_action p \<circ> fst) a0"
      using requeue_own [of p "sched_RequeueAfter res" "[]"] by auto
    have tr: "tr = tr1 \<or> (\<exists>st b. tr = tr1 @ [(UpdatePlacementStatus (p\<lparr>PStatus := st\<rparr>), b)])"
      using s unfolding syncPlacement_scheduled [OF act Inr sch] b
      by (auto simp: updateStatus_def Let_def split: option.splits if_splits)
    then have "\<And>t. prefix t tr1 \<Longrightarrow> prefix t tr" by auto
    from bind_own [OF b p inv [OF this]] a0 have "list_all (own_action p \<circ> fst) tr1" by auto
    then show ?thesis using tr by (auto simp: own_action_def)
  qed
qed

text \<open>An own call is about no other placement.\<close>

lemma own_about: "own_action p a \<Longrightarrow> about q a \<Longrightarrow> placement_key q = placement_key p"
  by (cases a) (auto simp: own_action_def about_def placement_key_def pd_key_def new_decision_def)

section \<open>Reading the present state\<close>

text \<open>At the call after \<open>tr\<close> the hub and the cache have the objects \<open>V\<close> of a placement.\<close>

definition shows_own :: "schedulingController \<Rightarrow> (trace \<Rightarrow> decisions_map) \<Rightarrow> Placement \<Rightarrow>
    (nat \<Rightarrow> PlacementDecision option) \<Rightarrow> trace \<Rightarrow> bool" where
  "shows_own c decs p V tr \<longleftrightarrow> (\<forall>i \<ge> 1. decs tr (Namespace p, decision_name (Name p) i) = V i \<and>
     (\<exists>er. IsNotFound er \<and> ns_get (placementDecisionLister c tr) (Namespace p) (decision_name (Name p) i) =
       (case V i of None \<Rightarrow> Inl er | Some d \<Rightarrow> Inr d)) \<and>
     (\<forall>sel pds d. equals_selector PlacementLabel (Name p) = Inr sel \<longrightarrow>
       ns_list (placementDecisionLister c tr) (Namespace p) sel = Inr pds \<longrightarrow> V i = Some d \<longrightarrow>
       label_of d = Some (Name p) \<longrightarrow> d \<in> set pds \<and> pd_key d = (Namespace p, decision_name (Name p) i)))"

context decisions_api
begin

lemma createOrUpdate_kept:
  assumes g: "createOrUpdatePlacementDecision c p (decision_name (Name p) i) ds sc st tr = (None, tr')" and i: "1 \<le> i"
    and s: "slash \<notin> set (Namespace p)" and V: "shows_own c decs p V tr" "shows_own c decs p V tr'"
  shows "\<exists>d. V i = Some d \<and> Decisions d = ds"
proof -
  let ?n = "decision_name (Name p) i" and ?k = "(Namespace p, decision_name (Name p) i)"
  have decs: "decs tr ?k = V i" "decs tr' ?k = V i" using V i by (simp_all add: shows_own_def)
  obtain er where er: "IsNotFound er" "ns_get (placementDecisionLister c tr) (Namespace p) ?n =
      (case V i of None \<Rightarrow> Inl er | Some d \<Rightarrow> Inr d)" using V(1) i by (auto simp: shows_own_def)
  obtain d tr1 where d: "get_or_create c p ?n tr = (Inr d, tr1)"
    using g by (auto simp: createOrUpdatePlacementDecision_def split: if_splits sum.splits prod.splits)
  note k = get_or_create_effect [OF d s]
  have upd: "Decisions d = ds \<and> tr' = tr1 \<or> (\<exists>d0. decs tr1 ?k = Some d0 \<and> decs tr' ?k = Some (d0\<lparr>Decisions := ds\<rparr>))"
  proof (cases "Decisions d = ds")
    case True
    then show ?thesis using g d by (simp add: createOrUpdatePlacementDecision_def split: if_splits)
  next
    case False
    let ?new = "d\<lparr>Decisions := ds\<rparr>"
    obtain r where u: "client_UpdatePDStatus (client c) tr1 ?new = Inr r"
      "tr' = update_events c p (Name d) sc st (tr1 @ [(UpdatePDStatus ?new, True)])"
      using g d False by (auto simp: createOrUpdatePlacementDecision_def Let_def split: if_splits sum.splits)
    moreover have "pd_key d = ?k" using k by auto
    ultimately show ?thesis using updated [OF u(1)] by auto
  qed
  show ?thesis
  proof (cases "V i")
    case None
    then have "client_CreatePD (client c) tr (new_decision p ?n) = Inr d"
      "tr1 = event ''Normal'' ''DecisionCreate'' ''DecisionCreated'' (decision_note ''created'' (Name d) p)
        (tr @ [(CreatePD (new_decision p ?n), True)])"
      using d er by (auto simp: get_or_create_def Let_def split: sum.splits)
    then have "decs tr1 ?k \<noteq> None" using created [of tr "new_decision p ?n" d] by simp
    then show ?thesis using upd decs None by auto
  next
    case (Some d0)
    then have "d = d0" "tr1 = tr" using d er by (simp_all add: get_or_create_def)
    moreover have "d0 = d0\<lparr>Decisions := ds\<rparr> \<Longrightarrow> Decisions d0 = ds"
      by (drule arg_cong [where f = Decisions]) simp
    ultimately show ?thesis using upd decs Some by auto
  qed
qed

text \<open>A run without error while the objects stay as they are: they are the wanted ones.\<close>

lemma bind_kept:
  assumes b: "bind c p ds sc st tr = (None, tr')" and s: "slash \<notin> set (Namespace p)" "Namespace p \<noteq> []"
    and V: "\<And>t. prefix tr t \<Longrightarrow> prefix t tr' \<Longrightarrow> shows_own c decs p V t"
  defines "slices \<equiv> decision_slices (sort_key ClusterName ds)"
  shows "i < length slices \<Longrightarrow> \<exists>d. V (i + 1) = Some d \<and> Decisions d = slices ! i"
    and "1 \<le> i \<Longrightarrow> V i = Some d \<Longrightarrow> label_of d = Some (Name p) \<Longrightarrow> i \<le> length slices"
  using b
proof (atomize (full), cases rule: bind_cases)
  case (deletes names tr1 sel pds errs)
  have errs: "errs = []" using deletes(5) by simp
  note loop = bind_loop [OF deletes(1) s(1)]
  obtain ws where ws: "tr1 = tr @ ws" using loop(2) by blast
  obtain dels where dels: "tr' = tr1 @ dels" using delete_loop(1) [OF deletes(4)] by blast
  let ?kept = "\<lambda>tr1. \<forall>t. prefix tr t \<longrightarrow> prefix t tr1 \<longrightarrow> shows_own c decs p V t"
  have slices: "prefix tr tr1 \<and> (([] :: string list) = [] \<longrightarrow> ?kept tr1 \<longrightarrow>
      (\<forall>i < length slices. \<exists>d. V (i + 1) = Some d \<and> Decisions d = slices ! i))"
    unfolding slices_def
  proof (rule bind_loop_rule [OF deletes(1), where I = "\<lambda>n errs names tr1. prefix tr tr1 \<and> (errs = [] \<longrightarrow> ?kept tr1 \<longrightarrow>
      (\<forall>i < n. \<exists>d. V (i + 1) = Some d \<and> Decisions d = decision_slices (sort_key ClusterName ds) ! i))"])
    fix k names tr2 er tr3 and errs :: "string list"
    let ?slices = "decision_slices (sort_key ClusterName ds)"
    assume I: "prefix tr tr2 \<and> (errs = [] \<longrightarrow> ?kept tr2 \<longrightarrow> (\<forall>i < k. \<exists>d. V (i + 1) = Some d \<and> Decisions d = ?slices ! i))" and
      g: "createOrUpdatePlacementDecision c p (decision_name (Name p) (k + 1)) (?slices ! k) sc st tr2 = (er, tr3)"
    obtain acts where a: "tr3 = tr2 @ acts" using createOrUpdate_effect [OF g s(1)] by blast
    show "prefix tr tr3 \<and> ((case er of None \<Rightarrow> errs | Some e \<Rightarrow> errs @ [e]) = [] \<longrightarrow> ?kept tr3 \<longrightarrow>
        (\<forall>i < Suc k. \<exists>d. V (i + 1) = Some d \<and> Decisions d = ?slices ! i))"
    proof (intro conjI impI)
      show pre: "prefix tr tr3" using I a by auto
      assume e: "(case er of None \<Rightarrow> errs | Some e \<Rightarrow> errs @ [e]) = []" and K: "?kept tr3"
      then have er: "er = None" "errs = []" by (simp_all split: option.splits)
      have "shows_own c decs p V tr2" "shows_own c decs p V tr3" using K I a pre by auto
      from createOrUpdate_kept [OF g [unfolded er(1)] _ s(1) this]
      have "\<exists>d. V (k + 1) = Some d \<and> Decisions d = ?slices ! k" by simp
      moreover have "?kept tr2" using K a by auto
      ultimately show "\<forall>i < Suc k. \<exists>d. V (i + 1) = Some d \<and> Decisions d = ?slices ! i"
        using I er(2) by (auto simp: less_Suc_eq)
    qed
  qed simp
  have V1: "shows_own c decs p V tr1" and V2: "shows_own c decs p V tr'"
    using V ws dels by auto
  have "?kept tr1" using V dels by auto
  then have first: "\<forall>i < length slices. \<exists>d. V (i + 1) = Some d \<and> Decisions d = slices ! i" using slices by simp
  have "i \<le> length slices" if i: "1 \<le> i" "V i = Some d" "label_of d = Some (Name p)" for i d
  proof (rule ccontr)
    assume n: "\<not> i \<le> length slices"
    have d: "d \<in> set pds" "pd_key d = (Namespace p, decision_name (Name p) i)"
      using V1 i deletes(2,3) by (auto simp: shows_own_def)
    have "\<not> sets_has names (Name d)"
      using loop(1) d(2) n i(1) unfolding slices_def [symmetric] by (auto simp: pd_key_def)
    then have "decs tr' (pd_key d) = None" using delete_loop(4) [OF deletes(4) _ d(1)] errs by simp
    then show False using V2 i d(2) by (auto simp: shows_own_def)
  qed
  then show "(i < length slices \<longrightarrow> (\<exists>d. V (i + 1) = Some d \<and> Decisions d = slices ! i)) \<and>
      (1 \<le> i \<longrightarrow> V i = Some d \<longrightarrow> label_of d = Some (Name p) \<longrightarrow> i \<le> length slices)"
    using first by blast
qed simp

end

lemma shows_own_server:
  assumes "\<forall>i \<ge> 1. own_object p (store_of S t) i = V i \<and> own_object p (admit (shown t)) i = V i" "wf_meta p"
  shows "shows_own (on_server c fails S shown) (decs_of S) p V t"
proof -
  have s: "slash \<notin> set (Namespace p)" "Namespace p \<noteq> []" using assms(2) by (simp_all add: wf_meta_def)
  have "decs_of S t (Namespace p, decision_name (Name p) i) = V i" if "1 \<le> i" for i
    using assms(1) that by (simp add: own_object_def decs_of_def)
  moreover have "\<exists>er. IsNotFound er \<and> ns_get (placementDecisionLister (on_server c fails S shown) t) (Namespace p)
      (decision_name (Name p) i) = (case V i of None \<Rightarrow> Inl er | Some d \<Rightarrow> Inr d)" if "1 \<le> i" for i
    using assms(1) that unfolding shown_get [OF s(1)] own_object_def
    by (intro exI [of _ "NewNotFound ''placementdecisions'' (decision_name (Name p) i)"]) simp
  moreover have "d \<in> set pds \<and> pd_key d = (Namespace p, decision_name (Name p) i)"
    if "1 \<le> i" "equals_selector PlacementLabel (Name p) = Inr sel" "V i = Some d" "label_of d = Some (Name p)"
      "ns_list (placementDecisionLister (on_server c fails S shown) t) (Namespace p) sel = Inr pds" for i sel pds d
  proof -
    have l: "lookup (admit (shown t)) (Namespace p, decision_name (Name p) i) = Some d"
      using assms(1) that(1,3) by (simp add: own_object_def)
    then have "pd_key d = (Namespace p, decision_name (Name p) i)" by (rule lookup_key)
    then show ?thesis using l that(4) shown_list [OF s(2) that(2,5), of d] by (simp add: pd_key_def)
  qed
  ultimately show ?thesis unfolding shows_own_def by blast
qed

lemma bind_kept_view:
  assumes b: "bind (on_server c fails S shown) p ds sc st tr = (None, tr')" and p: "wf_meta p"
    and V: "\<And>t. prefix tr t \<Longrightarrow> prefix t tr' \<Longrightarrow>
      \<forall>i \<ge> 1. own_object p (store_of S t) i = V i \<and> own_object p (admit (shown t)) i = V i"
    and inv: "decisions_inv (decs_of S tr')"
  shows "decisions_view (decs_of S tr') (placement_key p) = wanted_decisions p ds"
proof
  fix n
  let ?slices = "decision_slices (sort_key ClusterName ds)"
  have s: "slash \<notin> set (Namespace p)" "Namespace p \<noteq> []" using p by (simp_all add: wf_meta_def)
  have V': "shows_own (on_server c fails S shown) (decs_of S) p V t" if "prefix tr t" "prefix t tr'" for t
    using V [OF that] p by (rule shows_own_server)
  have kept: "\<exists>d. V (i + 1) = Some d \<and> Decisions d = ?slices ! i" if "i < length ?slices" for i
    by (rule server.bind_kept(1) [where V = V, OF b s _ that]) (rule V', assumption+)
  have kept': "i \<le> length ?slices" if "1 \<le> i" "V i = Some d" "label_of d = Some (Name p)" for i d
    by (rule server.bind_kept(2) [where V = V, OF b s _ that]) (rule V', assumption+)
  have pre: "prefix tr tr'" using server.bind_trace [OF b s] by auto
  have l: "decs_of S tr' (Namespace p, decision_name (Name p) i) = V i" if "1 \<le> i" for i
    using V [OF pre] that by (simp add: own_object_def decs_of_def)
  show "decisions_view (decs_of S tr') (placement_key p) n = wanted_decisions p ds n"
  proof (cases "\<exists>i \<ge> 1. n = decision_name (Name p) i")
    case True
    then obtain i where i: "1 \<le> i" "n = decision_name (Name p) i" by blast
    show ?thesis
    proof (cases "i \<le> length ?slices")
      case True
      then have "i - 1 < length ?slices" "i - 1 + 1 = i" using i(1) by linarith+
      then obtain d where d: "V i = Some d" "Decisions d = ?slices ! (i - 1)" using kept [of "i - 1"] by metis
      then have "label_of d = Some (Name p)" using decisions_invD(2) [OF inv, of "Namespace p" n d] l [OF i(1)] i by auto
      moreover have "wanted_decisions p ds n = Some (?slices ! (i - 1))"
        unfolding wanted_decisions_Some using True i by (intro exI [of _ "i - 1"]) auto
      ultimately show ?thesis using d l [OF i(1)] i(2) by (simp add: decisions_view_def placement_key_def)
    next
      case False
      then have "\<not> label_of d = Some (Name p)" if "V i = Some d" for d using kept' [OF i(1) that] by auto
      moreover have "wanted_decisions p ds n = None"
      proof (rule ccontr)
        assume "wanted_decisions p ds n \<noteq> None"
        then obtain s where "wanted_decisions p ds n = Some s" by blast
        then show False using False i(2) unfolding wanted_decisions_Some by auto
      qed
      ultimately show ?thesis using l [OF i(1)] i(2) by (auto simp: decisions_view_def placement_key_def split: option.split)
    qed
  next
    case False
    then have "decisions_view (decs_of S tr') (placement_key p) n = None"
      using decisions_invD(2) [OF inv, of "Namespace p" n _ "Name p"]
      by (auto simp: decisions_view_def placement_key_def split: option.splits)
    moreover have "wanted_decisions p ds n = None"
    proof (rule ccontr)
      assume "wanted_decisions p ds n \<noteq> None"
      then obtain s where "wanted_decisions p ds n = Some s" by blast
      then show False using False unfolding wanted_decisions_Some by (metis le_add2)
    qed
    ultimately show ?thesis by simp
  qed
qed

end
