(* ===== verification/World.thy ===== *)
theory World
  imports Lag
begin

text \<open>
  The controller in its world: the informer caches, the PlacementDecisions on the hub and the work
  queue. An event changes a cache and runs the handlers registered for it
  (\<open>NewSchedulingController\<close>); a worker takes a key and reconciles; a key leaves the queue only when
  its reconciliation returns no error and nothing has added it meanwhile. The cache of
  PlacementDecisions lags behind the hub: changes arrive in their order, some of them while a worker
  reconciles. The invariant ties all this together: a placement that does not wait in the queue, and
  none of whose objects has a change that is still to arrive, has exactly the decision objects of some
  choice of clusters that are available to it and match its predicates.
\<close>

section \<open>States\<close>

record hub_world =
  wClusters :: "ManagedCluster list"
  wSets :: "ManagedClusterSet list"
  wBindings :: "ManagedClusterSetBinding list"
  wPlacements :: "Placement list"
  wCache :: "PlacementDecision list"
  wPending :: trace
  wQueue :: queue

text \<open>The PlacementDecisions on the hub: the cache, and the changes that have not arrived.\<close>

definition wStore :: "hub_world \<Rightarrow> PlacementDecision list" where
  "wStore w = foldl store_step (wCache w) (wPending w)"

lemma wStore_simps [simp]:
  "wStore (w\<lparr>wClusters := cs\<rparr>) = wStore w" "wStore (w\<lparr>wSets := ss\<rparr>) = wStore w"
  "wStore (w\<lparr>wBindings := bs\<rparr>) = wStore w" "wStore (w\<lparr>wPlacements := ps\<rparr>) = wStore w"
  "wStore (w\<lparr>wQueue := q\<rparr>) = wStore w"
  by (simp_all add: wStore_def)

definition enq_of :: "hub_world \<Rightarrow> enqueuer" where
  "enq_of w = newEnqueuer (wClusters w) (wSets w) (wPlacements w) (wBindings w)"

text \<open>What the API server enforces of the cached objects, and valid cluster sets.\<close>

definition wf_world :: "hub_world \<Rightarrow> bool" where
  "wf_world w \<longleftrightarrow> wf_cl_items (wClusters w) \<and> list_all valid_set (wSets w) \<and> wf_ns_items (wPlacements w) \<and>
     wf_caches (enq_of w) (wSets w)"

text \<open>The controller that reads these caches.\<close>

definition connected :: "schedulingController \<Rightarrow> hub_world \<Rightarrow> bool" where
  "connected c w \<longleftrightarrow> cached c (wClusters w) (wSets w) (wBindings w) \<and>
     placementLister c = (\<lambda>tr. cache_ns_lister ''placements'' (wPlacements w))"

section \<open>Steps\<close>

text \<open>A cache takes a new state of an object, or forgets an object.\<close>

definition put_obj :: "'m ObjectMeta_scheme \<Rightarrow> 'm ObjectMeta_scheme list \<Rightarrow> 'm ObjectMeta_scheme list" where
  "put_obj o1 xs = filter (\<lambda>x. MetaNamespaceKey x \<noteq> MetaNamespaceKey o1) xs @ [o1]"

definition drop_obj :: "'m ObjectMeta_scheme \<Rightarrow> 'm ObjectMeta_scheme list \<Rightarrow> 'm ObjectMeta_scheme list" where
  "drop_obj o1 xs = filter (\<lambda>x. MetaNamespaceKey x \<noteq> MetaNamespaceKey o1) xs"

text \<open>A deleted object is handed over as it is or in a tombstone with its key.\<close>

definition deleted_obj :: "string \<Rightarrow> event_object \<Rightarrow> event_object \<Rightarrow> bool" where
  "deleted_obj key o1 obj \<longleftrightarrow> obj \<in> {o1, DeletedFinalStateUnknown key o1}"

definition on_event :: "ControllerEnv \<Rightarrow> informer \<Rightarrow> change \<Rightarrow> hub_world \<Rightarrow> hub_world" where
  "on_event ce i ch w = w\<lparr>wQueue := on_change ce (enq_of w) i ch (wQueue w)\<rparr>"

text \<open>A worker reconciles a key that waits. While it does so, the cache shows the hub as it was at some
  time, and the first \<open>m\<close> of the changes arrive. After an error the key is put back.\<close>

definition changes_after :: "hub_world \<Rightarrow> trace \<Rightarrow> trace" where
  "changes_after w tr = wPending w @ effective (wStore w) tr"

definition lagging :: "hub_world \<Rightarrow> trace \<Rightarrow> (trace \<Rightarrow> PlacementDecision list) \<Rightarrow> bool" where
  "lagging w tr shown \<longleftrightarrow> (\<forall>t. prefix t tr \<longrightarrow> (\<exists>k. shown t = foldl store_step (wCache w) (take k (changes_after w tr))))"

inductive reconcile_step :: "hub_world \<Rightarrow> hub_world \<Rightarrow> bool" where
  "connected c w \<Longrightarrow> (\<And>tr. env_orders (e tr)) \<Longrightarrow> key \<in> set (wQueue w) \<Longrightarrow>
   sync (on_server (with_scheduler c e h) fails (wStore w) shown) key [] = Some (r, tr) \<Longrightarrow> lagging w tr shown \<Longrightarrow>
   q = notify (wCache w) (take m (changes_after w tr)) (removeAll key (wQueue w)) \<Longrightarrow>
   reconcile_step w (w\<lparr>wCache := foldl store_step (wCache w) (take m (changes_after w tr)),
     wPending := drop m (changes_after w tr), wQueue := if r = None then q else queue_Add q key\<rparr>)"

inductive world_step :: "hub_world \<Rightarrow> hub_world \<Rightarrow> bool" where
  reconciled: "reconcile_step w w' \<Longrightarrow> world_step w w'"
| arrived: "wPending w = x # xs \<Longrightarrow> world_step w (w\<lparr>wCache := store_step (wCache w) x, wPending := xs,
    wQueue := decision_event (change_of (wCache w) x) (wQueue w)\<rparr>)"
| restarted: "connected c w \<Longrightarrow> sync (on_server (with_scheduler c e h) fails (wStore w) shown) key [] = Some (r, tr) \<Longrightarrow>
    world_step w (w\<lparr>wCache := store_of (wStore w) (take calls tr), wPending := [],
      wQueue := foldl (\<lambda>q p. enqueuePlacement (PlacementObj p) q) [] (wPlacements w)\<rparr>)"
| cluster_added: "MetaNamespaceKey cl \<notin> MetaNamespaceKey ` set (wClusters w) \<Longrightarrow>
    w' = w\<lparr>wClusters := put_obj cl (wClusters w)\<rparr> \<Longrightarrow> wf_world w' \<Longrightarrow>
    world_step w (on_event ce ClusterInformer (Added (ClusterObj cl)) w')"
| cluster_updated: "old \<in> set (wClusters w) \<Longrightarrow> MetaNamespaceKey new = MetaNamespaceKey old \<Longrightarrow>
    w' = w\<lparr>wClusters := put_obj new (wClusters w)\<rparr> \<Longrightarrow> wf_world w' \<Longrightarrow>
    world_step w (on_event ce ClusterInformer (Updated (ClusterObj old) (ClusterObj new)) w')"
| cluster_deleted: "old \<in> set (wClusters w) \<Longrightarrow> w' = w\<lparr>wClusters := drop_obj old (wClusters w)\<rparr> \<Longrightarrow>
    deleted_obj (MetaNamespaceKey old) (ClusterObj old) obj \<Longrightarrow> 
    world_step w (on_event ce ClusterInformer (Deleted obj) w')"
| set_changed: "w' = w\<lparr>wSets := put_obj s (wSets w)\<rparr> \<Longrightarrow> wf_world w' \<Longrightarrow>
    change \<in> {Added (SetObj s), Updated oldObj (SetObj s)} \<Longrightarrow>
    world_step w (on_event ce ClusterSetInformer change w')"
| set_deleted: "s \<in> set (wSets w) \<Longrightarrow> w' = w\<lparr>wSets := drop_obj s (wSets w)\<rparr> \<Longrightarrow>
    deleted_obj (MetaNamespaceKey s) (SetObj s) obj \<Longrightarrow>
    world_step w (on_event ce ClusterSetInformer (Deleted obj) w')"
| binding_changed: "w' = w\<lparr>wBindings := put_obj b (wBindings w)\<rparr> \<Longrightarrow> wf_world w' \<Longrightarrow>
    change \<in> {Added (BindingObj b), Updated oldObj (BindingObj b)} \<Longrightarrow>
    world_step w (on_event ce ClusterSetBindingInformer change w')"
| binding_deleted: "b \<in> set (wBindings w) \<Longrightarrow> w' = w\<lparr>wBindings := drop_obj b (wBindings w)\<rparr> \<Longrightarrow>
    deleted_obj (MetaNamespaceKey b) (BindingObj b) obj \<Longrightarrow>
    world_step w (on_event ce ClusterSetBindingInformer (Deleted obj) w')"
| placement_changed: "w' = w\<lparr>wPlacements := put_obj p (wPlacements w)\<rparr> \<Longrightarrow> wf_world w' \<Longrightarrow>
    world_step w (w'\<lparr>wQueue := queue_Add (wQueue w) (placement_queue_key p)\<rparr>)"
| placement_deleted: "p \<in> set (wPlacements w) \<Longrightarrow>
    world_step w (w\<lparr>wPlacements := drop_obj p (wPlacements w),
      wQueue := queue_Add (wQueue w) (placement_queue_key p)\<rparr>)"
| decision_deleted: "d \<in> set (wStore w) \<Longrightarrow>
    world_step w (w\<lparr>wPending := wPending w @ [(DeletePD (Namespace d) (Name d), True)]\<rparr>)"
| score_changed: "world_step w (on_event ce PlacementScoreInformer ch w)"
| woken: "p \<in> set (wPlacements w) \<Longrightarrow>
    world_step w (w\<lparr>wQueue := queue_Add (wQueue w) (placement_queue_key p)\<rparr>)"

text \<open>The controller starts with whatever is on the hub that keeps the hub's invariant; the placement
  informer first hands over all placements.\<close>

inductive world_reachable :: "hub_world \<Rightarrow> bool" where
  start: "wf_world w \<Longrightarrow> hub_inv (wCache w) \<Longrightarrow> wPending w = [] \<Longrightarrow>
    wQueue w = foldl (\<lambda>q p. enqueuePlacement (PlacementObj p) q) [] (wPlacements w) \<Longrightarrow> world_reachable w"
| step: "world_reachable w \<Longrightarrow> world_step w w' \<Longrightarrow> world_reachable w'"

section \<open>The invariant\<close>

definition matches_predicates :: "Placement \<Rightarrow> ManagedCluster \<Rightarrow> bool" where
  "matches_predicates p cl \<longleftrightarrow>
     Predicates (Spec p) = [] \<or> (\<exists>pr \<in> set (Predicates (Spec p)). satisfies_predicate cl pr)"

definition suitable :: "hub_world \<Rightarrow> Placement \<Rightarrow> ManagedCluster set" where
  "suitable w p = {cl \<in> set (wClusters w). available_to (wSets w) (wBindings w) p cl \<and> matches_predicates p cl}"

definition well_placed :: "hub_world \<Rightarrow> Placement \<Rightarrow> bool" where
  "well_placed w p \<longleftrightarrow> (\<exists>ds. decisions_view (lookup (wStore w)) (placement_key p) = wanted_decisions p ds \<and>
     ClusterName ` set ds \<subseteq> Name ` suitable w p)"

text \<open>A change of an object of the placement is still to arrive.\<close>

definition outstanding :: "hub_world \<Rightarrow> Placement \<Rightarrow> bool" where
  "outstanding w p \<longleftrightarrow> (\<exists>x \<in> set (wPending w). about p (fst x))"

definition world_inv :: "hub_world \<Rightarrow> bool" where
  "world_inv w \<longleftrightarrow> wf_world w \<and> hub_inv (wCache w) \<and> list_all (ok_action \<circ> fst) (wPending w) \<and>
     all_effective (wCache w) (wPending w) \<and> (\<forall>k \<in> set (wQueue w). count_list k slash < 2) \<and>
     (\<forall>p \<in> set (wPlacements w). active p \<longrightarrow> placement_queue_key p \<notin> set (wQueue w) \<longrightarrow> \<not> outstanding w p \<longrightarrow>
       well_placed w p)"

lemma well_placed_mono:
  assumes "well_placed w p" "Name ` suitable w p \<subseteq> Name ` suitable w' p"
    "decisions_view (lookup (wStore w')) (placement_key p) = decisions_view (lookup (wStore w)) (placement_key p)"
  shows "well_placed w' p"
  using assms unfolding well_placed_def by fastforce

subsection \<open>Queues\<close>

text \<open>The handlers only add keys, and only keys of cached placements.\<close>

definition adds_keys :: "enqueuer \<Rightarrow> queue \<Rightarrow> queue \<Rightarrow> bool" where
  "adds_keys e q q' \<longleftrightarrow> set q \<subseteq> set q' \<and> set q' \<subseteq> set q \<union> placement_queue_key ` set (placementIndexer e)"

lemma adds_keys_refl [simp]: "adds_keys e q q"
  by (simp add: adds_keys_def)

lemma adds_keys_trans: "adds_keys e q q1 \<Longrightarrow> adds_keys e q1 q2 \<Longrightarrow> adds_keys e q q2"
  by (auto simp: adds_keys_def)

lemma adds_keys_foldl: "(\<And>q x. x \<in> set xs \<Longrightarrow> adds_keys e q (f q x)) \<Longrightarrow> adds_keys e q (foldl f q xs)"
  by (induction xs arbitrary: q) (auto intro: adds_keys_trans)

lemma adds_keys_placement: "p \<in> set (placementIndexer e) \<Longrightarrow> adds_keys e q (enqueuePlacement (PlacementObj p) q)"
  by (auto simp: adds_keys_def)

lemma adds_keys_binding: "adds_keys e q (enqueueClusterSetBinding e obj q)"
  by (auto simp: enqueueClusterSetBinding_def Let_def simp del: foldl_append split: option.split
      intro!: adds_keys_foldl adds_keys_placement)

lemma adds_keys_set: "adds_keys e q (enqueueClusterSet e obj q)"
  by (auto simp: enqueueClusterSet_def split: option.split intro!: adds_keys_foldl adds_keys_binding)

lemma adds_keys_cluster: "adds_keys e q (enqueueCluster ce e obj q)"
  by (auto simp: enqueueCluster_def split: event_object.split sum.split intro!: adds_keys_foldl adds_keys_set)

lemma adds_keys_score: "adds_keys e q (enqueuePlacementScore ce e obj q)"
  by (auto simp: enqueuePlacementScore_def Let_def split: option.split sum.split
      intro!: adds_keys_foldl adds_keys_placement)

lemma adds_keys_change: "adds_keys e q (on_change ce e i ch q)"
proof -
  have "adds_keys e q (OnUpdate ce e o1 o2 q)" for o1 o2
    using adds_keys_trans [OF adds_keys_cluster adds_keys_cluster]
    by (simp add: OnUpdate_def Let_def adds_keys_cluster split: event_object.split)
  moreover have "adds_keys e q (OnDelete ce e o1 q)" for o1
    by (simp add: OnDelete_def adds_keys_cluster split: event_object.split)
  ultimately show ?thesis
    by (cases i; cases ch)
      (simp_all add: OnAdd_def adds_keys_cluster adds_keys_set adds_keys_binding adds_keys_score)
qed

lemma enq_of_simps [simp]:
  "placementIndexer (enq_of w) = wPlacements w" "clusterSetBindingIndexer (enq_of w) = wBindings w"
  "enq_clusterSetLister (enq_of w) = cache_cl_lister ''managedclustersets'' (wSets w)"
  by (simp_all add: enq_of_def newEnqueuer_def)

lemma placement_key_slash: "wf_meta p \<Longrightarrow> count_list (placement_queue_key p) slash < 2"
  using SplitMetaNamespaceKey_None_iff [of "placement_queue_key p"] SplitMetaNamespaceKey_key [of p]
  by (simp add: placement_queue_key_def)

lemma placement_queue_key_inj:
  "wf_meta p \<Longrightarrow> wf_meta q \<Longrightarrow> placement_queue_key p = placement_queue_key q \<longleftrightarrow> placement_key p = placement_key q"
  unfolding placement_queue_key_def placement_key_def
  by (metis MetaNamespaceKey_def SplitMetaNamespaceKey_key option.inject prod.inject)

lemma wf_world_placements: "wf_world w \<Longrightarrow> p \<in> set (wPlacements w) \<Longrightarrow> wf_meta p"
  by (auto simp: wf_world_def dest: wf_ns_items_meta)

lemma set_all_placements [simp]:
  "set (foldl (\<lambda>q p. enqueuePlacement (PlacementObj p) q) q ps) = set q \<union> placement_queue_key ` set ps"
  by (induction ps arbitrary: q) auto

text \<open>An event that leaves the placements in the cache and the decisions as they are keeps the
  invariant when each placement it does not queue loses no suitable cluster.\<close>

lemma on_event_inv:
  assumes "world_inv w" "wf_world w'" and same: "wPlacements w' = wPlacements w" "wCache w' = wCache w" "wPending w' = wPending w" "wQueue w' = wQueue w"
    and keep: "\<And>p. p \<in> set (wPlacements w) \<Longrightarrow>
      placement_queue_key p \<notin> set (on_change ce (enq_of w') i ch (wQueue w')) \<Longrightarrow>
      Name ` suitable w p \<subseteq> Name ` suitable w' p"
  shows "world_inv (on_event ce i ch w')"
proof -
  have a: "adds_keys (enq_of w') (wQueue w') (on_change ce (enq_of w') i ch (wQueue w'))" by (rule adds_keys_change)
  have "well_placed (on_event ce i ch w') p"
    if p: "p \<in> set (wPlacements w)" "active p" "placement_queue_key p \<notin> set (on_change ce (enq_of w') i ch (wQueue w'))"
      "\<not> outstanding w p" for p
  proof (rule well_placed_mono)
    show "well_placed w p" using assms(1) p a same by (auto simp: world_inv_def adds_keys_def)
    show "Name ` suitable w p \<subseteq> Name ` suitable (on_event ce i ch w') p"
      using keep [OF p(1,3)] by (simp add: suitable_def on_event_def)
  qed (simp add: on_event_def same wStore_def)
  moreover have "wf_world (on_event ce i ch w')"
    using assms(2) by (simp add: wf_world_def on_event_def enq_of_def)
  moreover have "count_list k slash < 2" if "k \<in> set (on_change ce (enq_of w') i ch (wQueue w'))" for k
    using that a assms(1) same wf_world_placements [OF assms(2)]
    by (auto simp: adds_keys_def world_inv_def placement_key_slash)
  ultimately show ?thesis
    using assms(1) same by (simp add: world_inv_def outstanding_def) (simp add: on_event_def)
qed

subsection \<open>Events\<close>

lemma cl_items_key: "wf_cl_items xs \<Longrightarrow> x \<in> set xs \<Longrightarrow> MetaNamespaceKey x = Name x"
  by (auto simp: wf_cl_items_def list_all_iff)

lemma cl_items_unique: "wf_cl_items xs \<Longrightarrow> x \<in> set xs \<Longrightarrow> y \<in> set xs \<Longrightarrow> MetaNamespaceKey x = MetaNamespaceKey y \<Longrightarrow> x = y"
  using wf_cl_items_inj [of xs] by (auto simp: cl_items_key inj_on_def)

lemma set_put_obj [simp]:
  "set (put_obj o1 xs) = insert o1 {x \<in> set xs. MetaNamespaceKey x \<noteq> MetaNamespaceKey o1}"
  by (auto simp: put_obj_def)

lemma set_drop_obj [simp]: "set (drop_obj o1 xs) = {x \<in> set xs. MetaNamespaceKey x \<noteq> MetaNamespaceKey o1}"
  by (simp add: drop_obj_def)

lemma wf_cl_items_filter: "wf_cl_items xs \<Longrightarrow> wf_cl_items (filter P xs)"
  by (auto simp: wf_cl_items_def list_all_iff distinct_map_filter)

lemma wf_ns_items_filter: "wf_ns_items xs \<Longrightarrow> wf_ns_items (filter P xs)"
  by (auto simp: wf_ns_items_def list_all_iff distinct_map_filter)

lemma wf_world_drop:
  assumes "wf_world w"
  shows "wf_world (w\<lparr>wClusters := drop_obj cl (wClusters w)\<rparr>)" "wf_world (w\<lparr>wSets := drop_obj s (wSets w)\<rparr>)"
    "wf_world (w\<lparr>wBindings := drop_obj b (wBindings w)\<rparr>)"
    "wf_world (w\<lparr>wPlacements := drop_obj p (wPlacements w)\<rparr>)"
  using assms unfolding wf_world_def wf_caches_def drop_obj_def
  by (auto simp: wf_cl_items_filter wf_ns_items_filter list_all_iff)

lemma wf_world_caches:
  assumes "wf_world w"
  shows "wf_caches (enq_of w) (wSets w)" "list_all valid_set (wSets w)" "wf_cl_items (wClusters w)" "wf_cl_items (wSets w)"
    "b \<in> set (wBindings w) \<Longrightarrow> wf_meta b \<and> Name b = BoundClusterSet b \<and> Name b \<noteq> anyClusterSet"
  using assms by (auto simp: wf_world_def wf_caches_def)

lemma cluster_added_inv:
  assumes "world_inv w" "MetaNamespaceKey cl \<notin> MetaNamespaceKey ` set (wClusters w)"
    "w' = w\<lparr>wClusters := put_obj cl (wClusters w)\<rparr>" "wf_world w'"
  shows "world_inv (on_event ce ClusterInformer ch w')"
proof (rule on_event_inv [OF assms(1,4)])
  fix p
  have "\<forall>x \<in> set (wClusters w). MetaNamespaceKey x \<noteq> MetaNamespaceKey cl" using assms(2) by (metis image_eqI)
  then have "suitable w p \<subseteq> suitable w' p" using assms(3) by (auto simp: suitable_def)
  then show "Name ` suitable w p \<subseteq> Name ` suitable w' p" by (rule image_mono)
qed (simp_all add: assms(3))

lemma cluster_updated_inv:
  assumes i: "world_inv w" and old: "old \<in> set (wClusters w)" "MetaNamespaceKey new = MetaNamespaceKey old"
    and w': "w' = w\<lparr>wClusters := put_obj new (wClusters w)\<rparr>" "wf_world w'"
  shows "world_inv (on_event ce ClusterInformer (Updated (ClusterObj old) (ClusterObj new)) w')"
proof (rule on_event_inv [OF i w'(2)])
  fix p assume p: "p \<in> set (wPlacements w)"
    "placement_queue_key p \<notin> set (on_change ce (enq_of w') ClusterInformer (Updated (ClusterObj old) (ClusterObj new)) (wQueue w'))"
  have "\<not> available_to (wSets w) (wBindings w) p old"
    using p w'(1) unfolding set_cluster_update [OF wf_world_caches(1,2) [OF w'(2)]] by auto
  moreover have "wf_cl_items (wClusters w)" using i by (simp add: world_inv_def wf_world_caches)
  ultimately show "Name ` suitable w p \<subseteq> Name ` suitable w' p"
    using old cl_items_unique [of "wClusters w" _ old] w'(1) by (fastforce simp: suitable_def)
qed (simp_all add: w'(1))

lemma cluster_deleted_inv:
  assumes i: "world_inv w" and old: "old \<in> set (wClusters w)"
    and w': "w' = w\<lparr>wClusters := drop_obj old (wClusters w)\<rparr>"
    and obj: "deleted_obj (MetaNamespaceKey old) (ClusterObj old) obj"
  shows "world_inv (on_event ce ClusterInformer (Deleted obj) w')"
proof -
  have wf: "wf_world w" using i by (simp add: world_inv_def)
  then have wf': "wf_world w'" by (simp add: w' wf_world_drop)
  show ?thesis
  proof (rule on_event_inv [OF i wf'])
    fix p assume p: "p \<in> set (wPlacements w)"
      "placement_queue_key p \<notin> set (on_change ce (enq_of w') ClusterInformer (Deleted obj) (wQueue w'))"
    have "\<not> available_to (wSets w) (wBindings w) p old"
      using p w' unfolding set_cluster_deletion [OF wf_world_caches(1,2) [OF wf'] obj [unfolded deleted_obj_def]] by auto
    then show "Name ` suitable w p \<subseteq> Name ` suitable w' p"
      using old cl_items_unique [OF wf_world_caches(3) [OF wf], of _ old] w' by (fastforce simp: suitable_def)
  qed (simp_all add: w')
qed

text \<open>A cluster is available through a set and a binding the handlers know about.\<close>

lemma available_through:
  assumes "available_to sets bindings p cl"
  obtains s b where "s \<in> set sets" "b \<in> set bindings" "set_matches s cl" "Name b = Name s" "Namespace b = Namespace p"
    "\<And>e. p \<in> set (placementIndexer e) \<Longrightarrow> p \<in> bound_placements e b"
  using assms unfolding available_to_def bound_placements_def by force

lemma suitable_keep:
  assumes "wClusters w' = wClusters w"
    "\<And>cl. available_to (wSets w) (wBindings w) p cl \<Longrightarrow> available_to (wSets w') (wBindings w') p cl"
  shows "Name ` suitable w p \<subseteq> Name ` suitable w' p"
  using assms by (auto simp: suitable_def)

lemma set_event_inv:
  assumes i: "world_inv w" and wf': "wf_world w'"
    and w': "w' = w\<lparr>wSets := ss\<rparr>" "\<And>s. s \<in> set (wSets w) \<Longrightarrow> Name s \<noteq> n \<Longrightarrow> s \<in> set ss"
    and obj: "DeletionHandlingMetaNamespaceKeyFunc obj = Some n" "change \<in> {Added obj, Updated o2 obj, Deleted obj}"
  shows "world_inv (on_event ce ClusterSetInformer change w')"
proof (rule on_event_inv [OF i wf'])
  fix p assume p: "p \<in> set (wPlacements w)"
    "placement_queue_key p \<notin> set (on_change ce (enq_of w') ClusterSetInformer change (wQueue w'))"
  have "on_change ce (enq_of w') ClusterSetInformer change q = enqueueClusterSet (enq_of w') obj q" for q
    using obj(2) by auto
  then have "placement_queue_key p \<notin> set (enqueueClusterSet (enq_of w') obj (wQueue w'))" using p(2) by simp
  then have b: "Name b \<noteq> n" if "b \<in> set (wBindings w)" "p \<in> bound_placements (enq_of w') b" for b
    using that w'(1) wf_world_caches(5) [OF wf', of b]
    unfolding set_enqueueClusterSet_key [OF wf_world_caches(1) [OF wf'] obj(1)] by auto
  show "Name ` suitable w p \<subseteq> Name ` suitable w' p"
  proof (rule suitable_keep)
    fix cl assume "available_to (wSets w) (wBindings w) p cl"
    then obtain s b0 where s: "s \<in> set (wSets w)" "b0 \<in> set (wBindings w)" "set_matches s cl" "Name b0 = Name s"
      "Namespace b0 = Namespace p" "p \<in> bound_placements (enq_of w') b0"
      using p(1) w' by (auto elim: available_through)
    then have "s \<in> set (wSets w')" using b [OF s(2,6)] w' by simp
    then show "available_to (wSets w') (wBindings w') p cl"
      using s w' by (auto simp: available_to_def bound_placements_def)
  qed (simp add: w')
qed (simp_all add: w')

lemma set_changed_inv:
  assumes i: "world_inv w" and w': "w' = w\<lparr>wSets := put_obj s (wSets w)\<rparr>" "wf_world w'"
    and change: "change \<in> {Added (SetObj s), Updated o2 (SetObj s)}"
  shows "world_inv (on_event ce ClusterSetInformer change w')"
proof -
  have k: "MetaNamespaceKey s = Name s" using cl_items_key [OF wf_world_caches(4) [OF w'(2)], of s] by (simp add: w'(1))
  have "MetaNamespaceKey x = Name x" if "x \<in> set (wSets w)" for x
    using i that cl_items_key wf_world_caches(4) by (auto simp: world_inv_def)
  with k show ?thesis
    by (intro set_event_inv [OF i w'(2,1), where obj = "SetObj s" and n = "Name s"]) (use change in auto)
qed

lemma set_deleted_inv:
  assumes i: "world_inv w" and s: "s \<in> set (wSets w)" and w': "w' = w\<lparr>wSets := drop_obj s (wSets w)\<rparr>"
    and obj: "deleted_obj (MetaNamespaceKey s) (SetObj s) obj"
  shows "world_inv (on_event ce ClusterSetInformer (Deleted obj) w')"
proof -
  have wf: "wf_world w" using i by (simp add: world_inv_def)
  then have wf': "wf_world w'" by (simp add: w' wf_world_drop)
  have k: "MetaNamespaceKey x = Name x" if "x \<in> set (wSets w)" for x
    using that cl_items_key [OF wf_world_caches(4) [OF wf]] by simp
  show ?thesis
    by (rule set_event_inv [OF i wf' w', where obj = obj and n = "Name s"])
      (use k s obj in \<open>auto simp: deleted_obj_def\<close>)
qed

lemma available_rebind:
  assumes "available_to sets bs p cl"
    "\<And>b. b \<in> set bs \<Longrightarrow> p \<in> bound_placements e b \<Longrightarrow> \<exists>b' \<in> set bs'. Namespace b' = Namespace b \<and> Name b' = Name b"
    "p \<in> set (placementIndexer e)"
  shows "available_to sets bs' p cl"
proof -
  obtain s b where s: "s \<in> set sets" "b \<in> set bs" "set_matches s cl" "Name b = Name s" "Namespace b = Namespace p"
    "p \<in> bound_placements e b"
    using assms(1,3) by (auto elim: available_through)
  from assms(2) [OF s(2,6)] obtain b' where "b' \<in> set bs'" "Namespace b' = Namespace b" "Name b' = Name b" by blast
  then show ?thesis using s by (auto simp: available_to_def bound_placements_def)
qed

lemma binding_key_eq: "wf_meta b \<Longrightarrow> wf_meta b' \<Longrightarrow> MetaNamespaceKey b' = MetaNamespaceKey b \<Longrightarrow>
    Namespace b' = Namespace b \<and> Name b' = Name b"
  by (metis SplitMetaNamespaceKey_key option.inject prod.inject)

lemma binding_changed_inv:
  assumes i: "world_inv w" and w': "w' = w\<lparr>wBindings := put_obj b (wBindings w)\<rparr>" "wf_world w'"
  shows "world_inv (on_event ce ClusterSetBindingInformer change w')"
proof (rule on_event_inv [OF i w'(2)])
  have wf: "wf_world w" using i by (simp add: world_inv_def)
  have b: "wf_meta b" using wf_world_caches(5) [OF w'(2), of b] w'(1) by simp
  fix p assume p: "p \<in> set (wPlacements w)"
  show "Name ` suitable w p \<subseteq> Name ` suitable w' p"
  proof (rule suitable_keep)
    fix cl assume "available_to (wSets w) (wBindings w) p cl"
    then have "available_to (wSets w) (wBindings w') p cl"
    proof (rule available_rebind [where e = "enq_of w"])
      fix b0 assume b0: "b0 \<in> set (wBindings w)"
      then have "wf_meta b0" using wf_world_caches(5) [OF wf] by simp
      then show "\<exists>b' \<in> set (wBindings w'). Namespace b' = Namespace b0 \<and> Name b' = Name b0"
        using b0 binding_key_eq [OF b, of b0] w'(1)
        by (cases "MetaNamespaceKey b0 = MetaNamespaceKey b") auto
    qed (simp add: p)
    then show "available_to (wSets w') (wBindings w') p cl" by (simp add: w'(1))
  qed (simp add: w'(1))
qed (simp_all add: w'(1))

lemma binding_deleted_inv:
  assumes i: "world_inv w" and b: "b \<in> set (wBindings w)" and w': "w' = w\<lparr>wBindings := drop_obj b (wBindings w)\<rparr>"
    and obj: "deleted_obj (MetaNamespaceKey b) (BindingObj b) obj"
  shows "world_inv (on_event ce ClusterSetBindingInformer (Deleted obj) w')"
proof -
  have wf: "wf_world w" using i by (simp add: world_inv_def)
  then have wf': "wf_world w'" by (simp add: w' wf_world_drop)
  note bs = wf_world_caches(5) [OF wf]
  show ?thesis
  proof (rule on_event_inv [OF i wf'])
    fix p assume p: "p \<in> set (wPlacements w)"
      "placement_queue_key p \<notin> set (on_change ce (enq_of w') ClusterSetBindingInformer (Deleted obj) (wQueue w'))"
    have "set (enqueueClusterSetBinding (enq_of w') obj (wQueue w')) =
        set (wQueue w') \<union> placement_queue_key ` bound_placements (enq_of w') b"
      using obj set_enqueueClusterSetBinding [OF wf_world_caches(1) [OF wf'], of b] bs [OF b] binding_tombstone
      by (auto simp: deleted_obj_def)
    then have np: "p \<notin> bound_placements (enq_of w') b" using p(2) by auto
    show "Name ` suitable w p \<subseteq> Name ` suitable w' p"
    proof (rule suitable_keep)
      fix cl assume "available_to (wSets w) (wBindings w) p cl"
      then have "available_to (wSets w) (wBindings w') p cl"
      proof (rule available_rebind [where e = "enq_of w'"])
        fix b0 assume b0: "b0 \<in> set (wBindings w)" "p \<in> bound_placements (enq_of w') b0"
        then have "MetaNamespaceKey b0 \<noteq> MetaNamespaceKey b"
          using binding_key_eq [of b b0] bs b np by (auto simp: bound_placements_def)
        then show "\<exists>b' \<in> set (wBindings w'). Namespace b' = Namespace b0 \<and> Name b' = Name b0"
          using b0(1) w' by auto
      qed (simp add: p(1) w')
      then show "available_to (wSets w') (wBindings w') p cl" by (simp add: w')
    qed (simp add: w')
  qed (simp_all add: w')
qed

lemma placement_changed_inv:
  assumes i: "world_inv w" and w': "w' = w\<lparr>wPlacements := put_obj p (wPlacements w)\<rparr>" "wf_world w'"
  shows "world_inv (w'\<lparr>wQueue := queue_Add (wQueue w) (placement_queue_key p)\<rparr>)"
proof -
  let ?w = "w'\<lparr>wQueue := queue_Add (wQueue w) (placement_queue_key p)\<rparr>"
  have "wf_world ?w" using w'(2) by (simp add: wf_world_def enq_of_def)
  moreover have "wf_meta p" using wf_world_placements [OF w'(2), of p] by (simp add: w'(1))
  moreover have "well_placed ?w p0" if "p0 \<in> set (wPlacements w)" "active p0" "placement_queue_key p0 \<notin> set (wQueue w)"
      "\<not> outstanding w p0" for p0
  proof (rule well_placed_mono)
    show "well_placed w p0" using i that by (simp add: world_inv_def)
  qed (simp_all add: suitable_def w'(1))
  ultimately show ?thesis
    using i by (auto simp: world_inv_def w'(1) placement_key_slash outstanding_def)
qed

lemma placement_deleted_inv:
  assumes i: "world_inv w" and p: "p \<in> set (wPlacements w)"
  shows "world_inv (w\<lparr>wPlacements := drop_obj p (wPlacements w), wQueue := queue_Add (wQueue w) (placement_queue_key p)\<rparr>)"
    (is "world_inv ?w")
proof -
  have "wf_world (w\<lparr>wPlacements := drop_obj p (wPlacements w)\<rparr>)" using i by (simp add: world_inv_def wf_world_drop)
  then have "wf_world ?w" by (simp add: wf_world_def enq_of_def)
  moreover have "wf_meta p" using i p by (auto simp: world_inv_def wf_world_placements)
  moreover have "well_placed ?w p0" if "p0 \<in> set (wPlacements w)" "active p0" "placement_queue_key p0 \<notin> set (wQueue w)"
      "\<not> outstanding w p0" for p0
  proof (rule well_placed_mono)
    show "well_placed w p0" using i that by (simp add: world_inv_def)
  qed (simp_all add: suitable_def)
  ultimately show ?thesis using i by (auto simp: world_inv_def placement_key_slash outstanding_def)
qed

lemma woken_inv:
  assumes "world_inv w" "p \<in> set (wPlacements w)"
  shows "world_inv (w\<lparr>wQueue := queue_Add (wQueue w) (placement_queue_key p)\<rparr>)" (is "world_inv ?w")
proof -
  have "wf_world ?w" using assms by (simp add: world_inv_def wf_world_def enq_of_def)
  moreover have "wf_meta p" using assms by (auto simp: world_inv_def wf_world_placements)
  moreover have "well_placed ?w p0 \<longleftrightarrow> well_placed w p0" for p0 by (simp add: well_placed_def suitable_def)
  ultimately show ?thesis using assms by (auto simp: world_inv_def placement_key_slash outstanding_def)
qed

subsection \<open>Changes of PlacementDecisions\<close>

lemma world_hub_inv:
  assumes "world_inv w"
  shows "hub_inv (wStore w)" "hub_inv (foldl store_step (wCache w) (take k (wPending w)))"
proof -
  have "hub_inv (wCache w)" "list_all (ok_action \<circ> fst) (wPending w)" using assms by (simp_all add: world_inv_def)
  moreover from this have "list_all (ok_action \<circ> fst) (take k (wPending w))" by (auto simp: list_all_iff dest: in_set_takeD)
  ultimately show "hub_inv (wStore w)" "hub_inv (foldl store_step (wCache w) (take k (wPending w)))"
    unfolding wStore_def by (blast intro: hub_inv_foldl)+
qed

text \<open>Some changes are made, and some arrive. A placement of whose objects none has changed keeps its
  decisions.\<close>

lemma changes_inv:
  assumes i: "world_inv w" and new: "all_effective (wStore w) xs" "list_all (ok_action \<circ> fst) xs"
    and q: "\<forall>k \<in> set q. count_list k slash < 2"
    and placed: "\<And>p. p \<in> set (wPlacements w) \<Longrightarrow> active p \<Longrightarrow> placement_queue_key p \<notin> set q \<Longrightarrow>
      \<forall>x \<in> set (wPending w @ xs). \<not> about p (fst x) \<Longrightarrow> placement_queue_key p \<in> set (wQueue w) \<Longrightarrow>
      \<exists>ds. decisions_view (lookup (foldl store_step (wStore w) xs)) (placement_key p) = wanted_decisions p ds \<and>
        ClusterName ` set ds \<subseteq> Name ` suitable w p"
    and q': "set (notify (wCache w) (take m (wPending w @ xs)) q) \<subseteq> set q'" "\<forall>k \<in> set q'. count_list k slash < 2"
  shows "world_inv (w\<lparr>wCache := foldl store_step (wCache w) (take m (wPending w @ xs)),
    wPending := drop m (wPending w @ xs), wQueue := q'\<rparr>)" (is "world_inv ?w")
proof -
  let ?all = "wPending w @ xs"
  have hub: "hub_inv (wCache w)" using i by (simp add: world_inv_def)
  have ok: "list_all (ok_action \<circ> fst) ?all" using i new(2) by (simp add: world_inv_def)
  have ok': "list_all (ok_action \<circ> fst) (take m ?all)" "list_all (ok_action \<circ> fst) (drop m ?all)"
    using ok by (auto simp: list_all_iff dest: in_set_takeD in_set_dropD)
  have "all_effective (wCache w) ?all" using i new(1) by (simp add: world_inv_def wStore_def)
  then have "all_effective (wCache w) (take m ?all @ drop m ?all)" unfolding append_take_drop_id .
  then have eff: "all_effective (wCache w) (take m ?all)"
    "all_effective (foldl store_step (wCache w) (take m ?all)) (drop m ?all)"
    unfolding all_effective_append by simp_all
  have "foldl store_step (wCache w) (take m ?all @ drop m ?all) = foldl store_step (wStore w) xs"
    unfolding append_take_drop_id by (simp add: wStore_def)
  then have store: "wStore ?w = foldl store_step (wStore w) xs" by (simp add: wStore_def)
  have hub': "hub_inv (wStore w)" "hub_inv (foldl store_step (wStore w) xs)"
    using world_hub_inv(1) [OF i] hub_inv_foldl new(2) by blast+
  have "well_placed ?w p"
    if p: "p \<in> set (wPlacements w)" "active p" "placement_queue_key p \<notin> set q'" "\<not> outstanding ?w p" for p
  proof -
    have wfp: "wf_meta p" using i p(1) by (auto simp: world_inv_def wf_world_placements)
    have nq: "placement_queue_key p \<notin> set (notify (wCache w) (take m ?all) q)" using q'(1) p(3) by blast
    then have "\<forall>x \<in> set (take m ?all). \<not> about p (fst x)"
      using notify_about [OF hub ok'(1) eff(1) wfp] by blast
    moreover have "\<forall>x \<in> set (drop m ?all). \<not> about p (fst x)" using p(4) by (simp add: outstanding_def)
    ultimately have none: "\<forall>x \<in> set ?all. \<not> about p (fst x)"
      by (metis append_take_drop_id Un_iff set_append)
    have q: "placement_queue_key p \<notin> set q" using nq set_notify by blast
    have suit: "suitable ?w p = suitable w p" by (simp add: suitable_def)
    show ?thesis
    proof (cases "placement_queue_key p \<in> set (wQueue w)")
      case True
      show ?thesis using placed [OF p(1,2) q none True] unfolding well_placed_def store suit .
    next
      case False
      moreover have "\<not> outstanding w p" using none by (simp add: outstanding_def)
      ultimately have w1: "well_placed w p" using i p(1,2) by (simp add: world_inv_def)
      have v: "decisions_view (lookup (wStore ?w)) (placement_key p) = decisions_view (lookup (wStore w)) (placement_key p)"
        unfolding store using hub' none
        by (intro own_objects_view own_object_foldl) (auto simp: hub_inv_def)
      show ?thesis by (rule well_placed_mono [OF w1 _ v]) (simp only: suit subset_refl)
    qed
  qed
  moreover have "hub_inv (foldl store_step (wCache w) (take m ?all))" by (rule hub_inv_foldl [OF hub ok'(1)])
  moreover have "wf_world ?w" using i by (simp add: world_inv_def wf_world_def enq_of_def)
  ultimately show ?thesis using q'(2) ok'(2) eff(2) unfolding world_inv_def by simp
qed

lemma arrived_inv:
  assumes i: "world_inv w" and x: "wPending w = x # xs"
  shows "world_inv (w\<lparr>wCache := store_step (wCache w) x, wPending := xs,
    wQueue := decision_event (change_of (wCache w) x) (wQueue w)\<rparr>)"
proof -
  have q: "\<forall>k \<in> set (wQueue w). count_list k slash < 2" using i by (simp add: world_inv_def)
  have "\<forall>k \<in> set (notify (wCache w) [x] (wQueue w)). count_list k slash < 2"
    by (rule notify_slash [OF _ _ q]) (use i x in \<open>simp_all add: world_inv_def\<close>)
  from changes_inv [OF i, of "[]" "wQueue w" 1 "notify (wCache w) [x] (wQueue w)", OF _ _ q _ _ this] show ?thesis
    by (simp add: x)
qed

lemma decision_deleted_inv:
  assumes i: "world_inv w" and d: "d \<in> set (wStore w)"
  shows "world_inv (w\<lparr>wPending := wPending w @ [(DeletePD (Namespace d) (Name d), True)]\<rparr>)"
proof -
  let ?x = "(DeletePD (Namespace d) (Name d), True)"
  have "lookup (wStore w) (Namespace d, Name d) = Some d"
    using world_hub_inv(1) [OF i] lookup_Some_iff d by (simp add: hub_inv_def pd_key_def)
  then have e: "all_effective (wStore w) [?x]" by (simp add: change_of_def)
  have q: "\<forall>k \<in> set (wQueue w). count_list k slash < 2" using i by (simp add: world_inv_def)
  from changes_inv [OF i e _ q, of 0 "wQueue w"] q show ?thesis by (simp add: ok_action_def)
qed

subsection \<open>Reconciliations\<close>

lemma SplitMetaNamespaceKey_Some:
  assumes "SplitMetaNamespaceKey key = Some (ns, n)"
  shows "slash \<notin> set ns \<and> slash \<notin> set n \<and> key = (if slash \<in> set key then ns @ [slash] @ n else n) \<and>
    (slash \<notin> set key \<longrightarrow> ns = [])"
proof -
  have j: "join_sep [slash] (split_on slash key) = key" by (rule join_split_on)
  have ws: "\<forall>x \<in> set (split_on slash key). slash \<notin> set x" by (blast dest: split_on_no_sep)
  have "split_on slash key = [n] \<and> ns = [] \<or> split_on slash key = [ns, n]"
    using assms by (auto simp: SplitMetaNamespaceKey_def split: list.splits)
  then show ?thesis using j ws by auto
qed

lemma connected_get:
  assumes "connected c w" "wf_world w" "SplitMetaNamespaceKey key = Some (ns, n)"
  shows "ns_get (placementLister c tr) ns n =
    (case find (\<lambda>p. placement_queue_key p = key) (wPlacements w) of
       None \<Rightarrow> Inl (NewNotFound ''placements'' n) | Some p \<Rightarrow> Inr p)"
proof -
  have "MetaNamespaceKey p = ns @ [slash] @ n \<longleftrightarrow> MetaNamespaceKey p = key" if "p \<in> set (wPlacements w)" for p
    using SplitMetaNamespaceKey_Some [OF assms(3)] wf_world_placements [OF assms(2) that]
    by (cases "slash \<in> set key") (auto simp: MetaNamespaceKey_def wf_meta_def append_eq_Cons_conv)
  then have "GetByKey (wPlacements w) (ns @ [slash] @ n) = find (\<lambda>p. placement_queue_key p = key) (wPlacements w)"
    unfolding GetByKey_def placement_queue_key_def by (intro find_cong) auto
  then show ?thesis using assms(1) by (simp add: connected_def cache_ns_lister_def)
qed

text \<open>What a reconciliation of a key comes down to.\<close>

lemma sync_of_key:
  assumes "connected c w" "wf_world w" "sync (on_server (with_scheduler c e h) fails S shown) key [] = Some (r, tr)"
  obtains (absent) "r = None" "tr = []" "\<forall>p \<in> set (wPlacements w). placement_queue_key p \<noteq> key"
  | (present) p where "p \<in> set (wPlacements w)" "placement_queue_key p = key"
      "syncPlacement (on_server (with_scheduler c e h) fails S shown) p [] = Some (r, tr)"
proof (cases "SplitMetaNamespaceKey key")
  case None
  then show thesis using assms(3) by (simp add: sync_def getPlacement_def)
next
  case (Some k)
  obtain ns n where k: "k = (ns, n)" by fastforce
  note g = connected_get [OF assms(1,2) Some [unfolded k], of "[]"]
  show thesis
  proof (cases "find (\<lambda>p. placement_queue_key p = key) (wPlacements w)")
    case None
    then have "\<forall>p \<in> set (wPlacements w). placement_queue_key p \<noteq> key" by (auto simp: find_None_iff)
    moreover have "r = None \<and> tr = []" using None g Some k assms(3) by (simp add: sync_def getPlacement_def)
    ultimately show thesis using absent by blast
  next
    case p: (Some p)
    then have "p \<in> set (wPlacements w)" "placement_queue_key p = key" by (auto simp: find_Some_iff)
    then show thesis using g Some k p assms(3) present by (simp add: sync_def getPlacement_def)
  qed
qed

lemma connected_scheduler: "connected (with_scheduler c e h) w \<longleftrightarrow> connected c w"
  by (simp add: connected_def)

lemma connected_clusters:
  assumes "connected c w" "wf_world w" "p \<in> set (wPlacements w)"
  obtains cls where "placement_clusters (with_scheduler c e h) p = Inr cls" "distinct (map Name cls)"
    "set cls = {cl \<in> set (wClusters w). available_to (wSets w) (wBindings w) p cl}"
proof -
  have "cached (with_scheduler c e h) (wClusters w) (wSets w) (wBindings w)"
    using assms(1) by (simp add: connected_def)
  moreover have "\<forall>s \<in> set (wSets w). valid_set s" using wf_world_caches(2) [OF assms(2)] by (simp add: list_all_iff)
  moreover have "Namespace p \<noteq> []" using wf_world_placements [OF assms(2,3)] by (simp add: wf_meta_def)
  ultimately show thesis using placement_clusters_cached that by blast
qed

text \<open>A run of the scheduler chooses suitable clusters.\<close>

lemma chosen_suitable:
  assumes "env_orders e" "Schedule e (NewPluginScheduler h) p cls = Some (res, st)" "distinct (map Name cls)"
    "set cls = {cl \<in> set (wClusters w). available_to (wSets w) (wBindings w) p cl}"
  shows "ClusterName ` set (sched_Decisions res) \<subseteq> Name ` suitable w p"
proof -
  have "{cl \<in> set cls. eligible e h p cl} \<subseteq> suitable w p"
    by (auto simp: assms(4) suitable_def matches_predicates_def eligible_def)
  then have "Name ` {cl \<in> set cls. eligible e h p cl} \<subseteq> Name ` suitable w p" by (rule image_mono)
  moreover have "sched_Decisions res = [] \<or>
      ClusterName ` set (sched_Decisions res) \<subseteq> Name ` {cl \<in> set cls. eligible e h p cl}"
    using plugin_sched.chosen_clusters [OF assms(1-3)] by (simp split: if_splits)
  ultimately show ?thesis by (metis image_empty empty_set empty_subsetI subset_trans)
qed

text \<open>A reconciliation without error of an active placement that has read the present state of its
  objects sets suitable decisions.\<close>

lemma syncPlacement_places:
  assumes c: "connected c w" "wf_world w" "\<And>tr. env_orders (e tr)" and p: "p \<in> set (wPlacements w)" "active p"
    and s: "syncPlacement (on_server (with_scheduler c e h) fails S shown) p [] = Some (None, tr)"
    and V: "\<And>t. prefix t tr \<Longrightarrow> \<forall>i \<ge> 1. own_object p (store_of S t) i = V i \<and> own_object p (admit (shown t)) i = V i"
    and inv: "decisions_inv (decs_of S [])"
  shows "\<exists>ds. decisions_view (decs_of S tr) (placement_key p) = wanted_decisions p ds \<and>
    ClusterName ` set ds \<subseteq> Name ` suitable w p"
proof -
  let ?c = "on_server (with_scheduler c e h) fails S shown"
  have wf: "wf_meta p" by (rule wf_world_placements [OF c(2) p(1)])
  obtain cls where cls: "placement_clusters (with_scheduler c e h) p = Inr cls" "distinct (map Name cls)"
    "set cls = {cl \<in> set (wClusters w). available_to (wSets w) (wBindings w) p cl}"
    by (rule connected_clusters [OF c(1,2) p(1)])
  have pc: "placement_clusters ?c p = Inr cls" using cls(1) by simp
  obtain res st where sch: "scheduler ?c [] p cls = Some (res, st)"
    using syncPlacement_panic [OF p(2) pc, of "[]"] s by (cases "scheduler ?c [] p cls") auto
  have S: "ClusterName ` set (sched_Decisions res) \<subseteq> Name ` suitable w p"
    using chosen_suitable [OF c(3) _ cls(2,3), of "[]" "h []" res st] sch by simp
  obtain e1 tr1 where b: "bind ?c p (sched_Decisions res) (PrioritizerScores res) st
      (requeue p (sched_RequeueAfter res) []) = (e1, tr1)" by fastforce
  have e1: "e1 = None \<and> (tr = tr1 \<or> (\<exists>p' b. tr = tr1 @ [(UpdatePlacementStatus p', b)]))"
    using s unfolding syncPlacement_scheduled [OF p(2) pc sch] b
    by (auto simp: updateStatus_def Let_def split: option.splits if_splits)
  then have pre: "prefix t tr" if "prefix t tr1" for t using that by auto
  have "decisions_inv (decs_of S tr1)" using server.bind_inv [OF b] inv wf by (simp add: wf_meta_def)
  then have "decisions_view (decs_of S tr1) (placement_key p) = wanted_decisions p (sched_Decisions res)"
    using bind_kept_view [OF b [unfolded conjunct1 [OF e1]] wf V [OF pre]] by blast
  then have "decisions_view (decs_of S tr) (placement_key p) = wanted_decisions p (sched_Decisions res)"
    using e1 by (auto simp: decs_of_other)
  with S show ?thesis by blast
qed

lemma hub_inv_decs:
  assumes "hub_inv S"
  shows "decs_of S [] = lookup S" "decisions_inv (decs_of S [])" "store_of S [] = S"
  using assms by (simp_all add: hub_inv_def decs_of_def admit_id)

lemma connected_lists_wf:
  assumes "connected c w" "wf_world w"
  shows "lists_wf_placements (with_scheduler c e h)"
proof -
  have "wf_meta p" if "ns_get (cache_ns_lister r (wPlacements w)) ns n = Inr p" for r ns n p
    using that wf_world_placements [OF assms(2)]
    by (auto simp: cache_ns_lister_def dest!: GetByKey_Some split: option.splits)
  then show ?thesis using assms(1) by (simp add: lists_wf_placements_def connected_def)
qed

lemma sync_ok:
  assumes "connected c w" "wf_world w" "sync (on_server (with_scheduler c e h) fails S shown) key [] = Some (r, tr)"
  shows "list_all (ok_action \<circ> fst) (take k tr)"
  using sync_actions_ok [OF connected_lists_wf [OF assms(1,2)] assms(3)] by (auto simp: list_all_iff dest: in_set_takeD)

text \<open>Where no change concerns a placement, its objects are the same at all times.\<close>

lemma lagging_own:
  assumes i: "world_inv w" and lag: "lagging w tr shown" and none: "\<forall>x \<in> set (changes_after w tr). \<not> about p (fst x)"
    and ok: "list_all (ok_action \<circ> fst) tr" and t: "prefix t tr" and n: "1 \<le> n"
  shows "own_object p (store_of (wStore w) t) n = own_object p (wStore w) n"
    "own_object p (admit (shown t)) n = own_object p (wStore w) n" "decisions_inv (lookup (admit (shown t)))"
proof -
  note hub = world_hub_inv(1) [OF i]
  have S: "store_of (wStore w) t = foldl store_step (wStore w) (effective (wStore w) t)"
    using hub by (simp add: store_of_def admit_id hub_inv_def)
  obtain ys where tr: "tr = t @ ys" using t by (auto simp: prefix_def)
  have none': "\<forall>x \<in> set (wPending w). \<not> about p (fst x)" "\<forall>x \<in> set (effective (wStore w) t). \<not> about p (fst x)"
    using none by (auto simp: changes_after_def tr effective_append)
  show "own_object p (store_of (wStore w) t) n = own_object p (wStore w) n"
    unfolding S by (rule own_object_foldl [OF none'(2) n])
  obtain k where k: "shown t = foldl store_step (wCache w) (take k (changes_after w tr))"
    using lag t by (auto simp: lagging_def)
  have "list_all (ok_action \<circ> fst) (take k (changes_after w tr))"
    using ok i set_effective [of "wStore w" tr]
    by (auto simp: changes_after_def world_inv_def list_all_iff dest!: in_set_takeD)
  then have "hub_inv (shown t)" unfolding k using i by (intro hub_inv_foldl) (simp_all add: world_inv_def)
  then have ad: "admit (shown t) = shown t" "decisions_inv (lookup (shown t))" by (simp_all add: admit_id hub_inv_def)
  show "decisions_inv (lookup (admit (shown t)))" using ad by simp
  have "own_object p (shown t) n = own_object p (wCache w) n"
    unfolding k by (rule own_object_foldl [OF _ n]) (use none in \<open>auto dest: in_set_takeD\<close>)
  also have "\<dots> = own_object p (wStore w) n"
    unfolding wStore_def by (rule own_object_foldl [OF none'(1) n, symmetric])
  finally show "own_object p (admit (shown t)) n = own_object p (wStore w) n" using ad by simp
qed

lemma reconcile_step_inv:
  assumes "reconcile_step w w'" "world_inv w"
  shows "world_inv w'"
  using assms(1)
proof (cases rule: reconcile_step.cases)
  case (1 c e key h fails shown r tr q m)
  note c = 1(2) and env = 1(3) and s = 1(5) and lag = 1(6)
  have wf: "wf_world w" and q0: "\<forall>k \<in> set (wQueue w). count_list k slash < 2" using assms(2) by (simp_all add: world_inv_def)
  note hub = world_hub_inv(1) [OF assms(2)]
  note d = hub_inv_decs [OF hub]
  have ok: "list_all (ok_action \<circ> fst) tr" using sync_ok [OF c wf s, of "length tr"] by simp
  let ?xs = "effective (wStore w) tr" and ?q = "removeAll key (wQueue w)"
  have ok': "list_all (ok_action \<circ> fst) ?xs" using ok set_effective [of "wStore w" tr] by (auto simp: list_all_iff)
  have q1: "\<forall>k \<in> set ?q. count_list k slash < 2" using q0 by simp
  have "\<forall>k \<in> set q. count_list k slash < 2" unfolding 1(7)
    by (rule notify_slash [OF _ _ q1])
      (use assms(2) ok' in \<open>auto simp: world_inv_def changes_after_def list_all_iff dest!: in_set_takeD\<close>)
  then have q2: "\<forall>k \<in> set (if r = None then q else queue_Add q key). count_list k slash < 2" using q0 1(4) by auto
  have "world_inv (w\<lparr>wCache := foldl store_step (wCache w) (take m (wPending w @ ?xs)),
    wPending := drop m (wPending w @ ?xs), wQueue := if r = None then q else queue_Add q key\<rparr>)"
  proof (rule changes_inv [OF assms(2) _ ok' _ _ _ q2])
    show "set (notify (wCache w) (take m (wPending w @ ?xs)) (if r = None then ?q else queue_Add ?q key)) \<subseteq>
        set (if r = None then q else queue_Add q key)"
      using set_notify_union [of "wCache w" "take m (wPending w @ ?xs)" ?q]
        set_notify_union [of "wCache w" "take m (wPending w @ ?xs)" "queue_Add ?q key"]
      unfolding 1(7) changes_after_def by (simp split: if_split) blast
    fix p
    assume p: "p \<in> set (wPlacements w)" "active p"
      and nq: "placement_queue_key p \<notin> set (if r = None then ?q else queue_Add ?q key)"
      and none: "\<forall>x \<in> set (wPending w @ ?xs). \<not> about p (fst x)" and k: "placement_queue_key p \<in> set (wQueue w)"
    have key: "placement_queue_key p = key" and r: "r = None" using nq k by (auto split: if_splits)
    from c wf s show "\<exists>ds. decisions_view (lookup (foldl store_step (wStore w) ?xs)) (placement_key p) = wanted_decisions p ds \<and>
        ClusterName ` set ds \<subseteq> Name ` suitable w p"
    proof (cases rule: sync_of_key)
      case absent
      then show ?thesis using p(1) key by blast
    next
      case (present q)
      have "MetaNamespaceKey p = MetaNamespaceKey q" using key present(2) by (simp add: placement_queue_key_def)
      then have "p = q" using wf p(1) present(1) by (auto simp: wf_world_def wf_ns_items_def distinct_map dest: inj_onD)
      note own = lagging_own [OF assms(2) lag none [folded changes_after_def] ok]
      have "lookup (foldl store_step (wStore w) ?xs) = decs_of (wStore w) tr"
        using hub by (simp add: decs_of_def store_of_def admit_id hub_inv_def)
      moreover have "\<exists>ds. decisions_view (decs_of (wStore w) tr) (placement_key p) = wanted_decisions p ds \<and>
          ClusterName ` set ds \<subseteq> Name ` suitable w p"
        using present(3) own(1,2) unfolding r \<open>p = q\<close> [symmetric]
        by (intro syncPlacement_places [OF c wf env p _ _ d(2), where V = "own_object p (wStore w)"]) auto
      ultimately show ?thesis by simp
    qed
  qed (use q0 1(4) in \<open>auto split: if_splits\<close>)
  then show ?thesis using 1(1) by (simp add: changes_after_def)
qed

lemma restarted_inv:
  assumes i: "world_inv w" and c: "connected c w"
    and s: "sync (on_server (with_scheduler c e h) fails (wStore w) shown) key [] = Some (r, tr)"
  shows "world_inv (w\<lparr>wCache := store_of (wStore w) (take calls tr), wPending := [],
    wQueue := foldl (\<lambda>q p. enqueuePlacement (PlacementObj p) q) [] (wPlacements w)\<rparr>)"
proof -
  have wf: "wf_world w" using i by (simp add: world_inv_def)
  have "hub_inv (store_of (wStore w) (take calls tr))"
    by (rule store_of_inv [OF world_hub_inv(1) [OF i] sync_ok [OF c wf s]])
  moreover have "wf_world (w\<lparr>wCache := S, wPending := xs, wQueue := q\<rparr>)" for S q xs using wf by (simp add: wf_world_def enq_of_def)
  ultimately show ?thesis using wf_world_placements [OF wf] by (auto simp: world_inv_def placement_key_slash)
qed

lemma world_step_inv:
  assumes "world_step w w'" "world_inv w"
  shows "world_inv w'"
  using assms
proof (induction rule: world_step.induct)
  case (cluster_deleted old w w' obj ce)
  then show ?case by (intro cluster_deleted_inv)
next
  case (set_changed w' w s change oldObj ce)
  then show ?case by (intro set_changed_inv)
next
  case (set_deleted s w w' obj ce)
  then show ?case by (intro set_deleted_inv)
next
  case (binding_deleted b w w' obj ce)
  then show ?case by (intro binding_deleted_inv)
next
  case (score_changed w ce ch)
  then have "wf_world w" by (simp add: world_inv_def)
  then show ?case using score_changed by (intro on_event_inv [where w = w]) (rule subset_refl | simp)+
qed (simp_all add: reconcile_step_inv restarted_inv cluster_added_inv cluster_updated_inv binding_changed_inv
    placement_changed_inv placement_deleted_inv decision_deleted_inv woken_inv arrived_inv)

lemma world_start_inv:
  assumes "wf_world w" "hub_inv (wCache w)" "wPending w = []"
    "wQueue w = foldl (\<lambda>q p. enqueuePlacement (PlacementObj p) q) [] (wPlacements w)"
  shows "world_inv w"
  using assms wf_world_placements [OF assms(1)] by (auto simp: world_inv_def placement_key_slash)

lemma world_reachable_inv: "world_reachable w \<Longrightarrow> world_inv w"
  by (induction rule: world_reachable.induct) (auto intro: world_start_inv world_step_inv)

text \<open>C3: no placement is forgotten. In every reachable state of the controller and its world, whatever
  failed, crashed, expired or was deleted before, and whatever old state the cache of PlacementDecisions
  showed, a placement that does not wait in the queue, and none of whose objects has a change on its way
  to the cache, has exactly the decision objects of some list of decisions, and these name clusters that
  now exist, are available to the placement through its cluster sets and bindings, and match its
  predicates.\<close>

theorem world_settled:
  assumes "world_reachable w" "p \<in> set (wPlacements w)" "active p" "placement_queue_key p \<notin> set (wQueue w)"
    "\<not> outstanding w p"
  shows "\<exists>ds. decisions_view (lookup (wStore w)) (placement_key p) = wanted_decisions p ds \<and>
    ClusterName ` set ds \<subseteq> Name ` {cl \<in> set (wClusters w). available_to (wSets w) (wBindings w) p cl \<and>
      (Predicates (Spec p) = [] \<or> (\<exists>pr \<in> set (Predicates (Spec p)). satisfies_predicate cl pr))}"
  using world_reachable_inv [OF assms(1)] assms(2-5)
  by (simp add: world_inv_def well_placed_def suitable_def matches_predicates_def)

end
