(* ===== verification/Debugger.thy ===== *)
theory Debugger
  imports BindProps SchedulerProps
begin

text \<open>
  \<open>pkg/debugger/debugger.go\<close>: the debug endpoint of the scheduler. A response is the \<open>DebugResult\<close>
  that is marshalled to JSON and written; \<open>None\<close> is a panic of the scheduler. The handler schedules
  over all clusters, not only those available to the placement, and writes nothing to the hub.
\<close>

definition DebugPath :: string where
  "DebugPath = ''/debug/placements/''"

record DebugResult =
  DebugFilterResults :: "FilterResult list"
  DebugPrioritizeResults :: "PrioritizerResult list"
  DebugError :: string

text \<open>\<open>KeyErrText\<close> is the text of the error of a malformed key, \<open>ResultOrder\<close> the iteration order of
  the map of filter records.\<close>

record Debugger =
  dbg_scheduler :: "Placement \<Rightarrow> ManagedCluster list \<Rightarrow> (scheduleResult \<times> Status) option"
  dbg_clusterLister :: "ManagedCluster ClLister"
  dbg_placementLister :: "Placement NsLister"
  KeyErrText :: "string \<Rightarrow> string"
  ResultOrder :: "string list \<Rightarrow> string list"

definition parsePath :: "Debugger \<Rightarrow> string \<Rightarrow> string + string \<times> string" where
  "parsePath d path =
     (let metaNamespaceKey = trim_prefix path DebugPath
      in case SplitMetaNamespaceKey metaNamespaceKey of
           None \<Rightarrow> Inl (KeyErrText d metaNamespaceKey) | Some k \<Rightarrow> Inr k)"

definition reportErr :: "string \<Rightarrow> DebugResult" where
  "reportErr err = \<lparr>DebugFilterResults = [], DebugPrioritizeResults = [], DebugError = err\<rparr>"

definition Handler :: "Debugger \<Rightarrow> string \<Rightarrow> DebugResult option" where
  "Handler d path = (case parsePath d path of
     Inl err \<Rightarrow> Some (reportErr err)
   | Inr (namespace, name) \<Rightarrow>
      (case ns_get (dbg_placementLister d) namespace name of
         Inl err \<Rightarrow> Some (reportErr (api_err_text err))
       | Inr placement \<Rightarrow>
          (case cl_list (dbg_clusterLister d) Everything of
             Inl err \<Rightarrow> Some (reportErr (api_err_text err))
           | Inr clusters \<Rightarrow>
              (case dbg_scheduler d placement clusters of
                 None \<Rightarrow> None
               | Some (scheduleResults, status) \<Rightarrow> Some
                  \<lparr>DebugFilterResults = FilterResults (ResultOrder d) scheduleResults,
                   DebugPrioritizeResults = PrioritizerResults scheduleResults, DebugError = ''''\<rparr>))))"

lemma trim_prefix_append [simp]: "trim_prefix (a @ b) a = b"
  by (simp add: trim_prefix_def)

text \<open>The answers for the paths with one slash, and with two.\<close>

lemma Handler_path:
  assumes "dbg_placementLister d = cache_ns_lister ''placements'' placements" "wf_ns_items placements"
    "dbg_clusterLister d = cache_cl_lister ''managedclusters'' clusters"
    "slash \<notin> set ns" "slash \<notin> set n"
  shows "Handler d (DebugPath @ ns @ [slash] @ n) =
      (case find (\<lambda>p. Namespace p = ns \<and> Name p = n) placements of
         None \<Rightarrow> Some (reportErr (api_err_text (NewNotFound ''placements'' n)))
       | Some p \<Rightarrow> map_option (\<lambda>(r, st).
           \<lparr>DebugFilterResults = FilterResults (ResultOrder d) r, DebugPrioritizeResults = scoreRecords r,
            DebugError = ''''\<rparr>) (dbg_scheduler d p clusters)) \<and>
    Handler d (DebugPath @ ns @ [slash] @ n @ [slash] @ m) =
      Some (reportErr (KeyErrText d (ns @ [slash] @ n @ [slash] @ m)))"
proof
  have "parsePath d (DebugPath @ ns @ [slash] @ n) = Inr (ns, n)"
    using SplitMetaNamespaceKey_slash [OF assms(4,5)] by (simp add: parsePath_def)
  moreover have "ns_get (dbg_placementLister d) ns n = (case find (\<lambda>p. Namespace p = ns \<and> Name p = n) placements of
      None \<Rightarrow> Inl (NewNotFound ''placements'' n) | Some p \<Rightarrow> Inr p)"
  proof (cases "find (\<lambda>p. Namespace p = ns \<and> Name p = n) placements")
    case None
    then have "\<forall>p \<in> set placements. \<not> (Namespace p = ns \<and> Name p = n)" by (auto simp: find_None_iff)
    from cache_ns_get_missing [OF assms(2,4) this] show ?thesis
      unfolding None assms(1) by simp
  next
    case (Some p)
    then have "p \<in> set placements" "Namespace p = ns" "Name p = n" by (auto simp: find_Some_iff)
    then show ?thesis using cache_ns_get [OF assms(2), of p] assms(1) Some by auto
  qed
  moreover have "ListAll clusters Everything = clusters" by (simp add: ListAll_eq)
  ultimately show "Handler d (DebugPath @ ns @ [slash] @ n) =
      (case find (\<lambda>p. Namespace p = ns \<and> Name p = n) placements of
         None \<Rightarrow> Some (reportErr (api_err_text (NewNotFound ''placements'' n)))
       | Some p \<Rightarrow> map_option (\<lambda>(r, st).
           \<lparr>DebugFilterResults = FilterResults (ResultOrder d) r, DebugPrioritizeResults = scoreRecords r,
            DebugError = ''''\<rparr>) (dbg_scheduler d p clusters))"
    using assms(3) by (auto simp: Handler_def PrioritizerResults_def split: option.splits)
  have "SplitMetaNamespaceKey (ns @ [slash] @ n @ [slash] @ m) = None"
    by (simp add: SplitMetaNamespaceKey_None_iff)
  then show "Handler d (DebugPath @ ns @ [slash] @ n @ [slash] @ m) =
      Some (reportErr (KeyErrText d (ns @ [slash] @ n @ [slash] @ m)))"
    by (simp add: Handler_def parsePath_def)
qed

text \<open>C25: the endpoint answers for the path of a placement with the filter and prioritizer results of
  scheduling it over all clusters, for the path of a placement that does not exist with the lister's
  error, and for a key with more than one slash with the error of the key; it panics only when the
  scheduler does.\<close>

theorem Handler_spec:
  assumes "dbg_placementLister d = cache_ns_lister ''placements'' placements" "wf_ns_items placements"
    "dbg_clusterLister d = cache_cl_lister ''managedclusters'' clusters"
    "slash \<notin> set ns" "slash \<notin> set n"
  shows "Handler d (DebugPath @ ns @ [slash] @ n) =
      (case find (\<lambda>p. Namespace p = ns \<and> Name p = n) placements of
         None \<Rightarrow> Some (reportErr (api_err_text (NewNotFound ''placements'' n)))
       | Some p \<Rightarrow> map_option (\<lambda>(r, st).
           \<lparr>DebugFilterResults = FilterResults (ResultOrder d) r, DebugPrioritizeResults = scoreRecords r,
            DebugError = ''''\<rparr>) (dbg_scheduler d p clusters)) \<and>
    Handler d (DebugPath @ ns @ [slash] @ n @ [slash] @ m) =
      Some (reportErr (KeyErrText d (ns @ [slash] @ n @ [slash] @ m)))"
  by (rule Handler_path [OF assms])

definition sample_debugger :: Debugger where
  "sample_debugger = \<lparr>dbg_scheduler = Schedule sample_env sample_scheduler,
     dbg_clusterLister = cache_cl_lister ''managedclusters'' sample_clusters,
     dbg_placementLister = cache_ns_lister ''placements'' [sample_placement],
     KeyErrText = (\<lambda>k. ''unexpected key format''), ResultOrder = rev\<rparr>"

theorem Handler_spec_witness:
  "Handler sample_debugger (DebugPath @ ''ns'' @ [slash] @ ''q'') =
     Some (reportErr (api_err_text (NewNotFound ''placements'' ''q''))) \<and>
   map_option (\<lambda>r. map FilterResultName (DebugFilterResults r)) (Handler sample_debugger (DebugPath @ ''ns/p'')) =
     Some [''Predicate'', ''Predicate,TaintToleration'']"
proof
  have w: "wf_ns_items [sample_placement]"
    by (simp add: wf_ns_items_def wf_meta_def slash_def sample_placement_def builder_defs record_builders)
  have "Handler sample_debugger (DebugPath @ ''ns'' @ [slash] @ ''q'') =
      (case find (\<lambda>p. Namespace p = ''ns'' \<and> Name p = ''q'') [sample_placement] of
         None \<Rightarrow> Some (reportErr (api_err_text (NewNotFound ''placements'' ''q'')))
       | Some p \<Rightarrow> map_option (\<lambda>(r, st).
           \<lparr>DebugFilterResults = FilterResults (ResultOrder sample_debugger) r, DebugPrioritizeResults = scoreRecords r,
            DebugError = ''''\<rparr>) (dbg_scheduler sample_debugger p sample_clusters))"
    by (rule conjunct1 [OF Handler_spec [OF _ w]]) (simp_all add: sample_debugger_def slash_def)
  then show "Handler sample_debugger (DebugPath @ ''ns'' @ [slash] @ ''q'') =
     Some (reportErr (api_err_text (NewNotFound ''placements'' ''q'')))"
    by (simp add: sample_placement_def builder_defs record_builders)
qed code_simp

end
