(* ===== verification/SchedulerScores.thy ===== *)
theory SchedulerScores
  imports SchedulerProps
begin

text \<open>
  The configuration of the scheduler and its scores: the weights a policy yields, the prioritizers
  that run, when a placement is misconfigured, the total score of a cluster as an integer (no
  overflow within the limits of the API), and the records and the requeue time of a result.
\<close>

section \<open>Weights and prioritizers\<close>

text \<open>C34: the weights of a placement. In \<open>Exact\<close> mode they are those it configures; in
  \<open>Additive\<close> mode (the default) those override the scheduler's own; the last configuration of a
  coordinate wins. An unknown mode, or a configuration without a coordinate, is a
  misconfiguration.\<close>

theorem getWeights_spec:
  assumes "distinct (map fst d)"
  shows "map_of (fst (getWeights d p)) =
      (if \<not> mode_valid p \<or> \<not> configs_valid p then Map.empty
       else if PolicyMode (Policy (Spec p)) = PrioritizerPolicyModeExact then config_weights p
       else map_of d ++ config_weights p) \<and>
    distinct (map fst (fst (getWeights d p))) \<and>
    code (snd (getWeights d p)) = (if mode_valid p \<and> configs_valid p then Success else Misconfigured)"
proof (cases "mode_valid p \<and> configs_valid p")
  case True
  then obtain ws where "getWeights d p = (ws, NewStatus '''' Success [''''])" "distinct (map fst ws)"
    "map_of ws = (if PolicyMode (Policy (Spec p)) = PrioritizerPolicyModeExact then Map.empty else map_of d)
      ++ config_weights p"
    using getWeights_ok [OF _ _ assms] by blast
  then show ?thesis using True by (auto simp: mode_valid_def)
next
  case False
  have m: "\<not> configs_valid p \<Longrightarrow> mergeWeights e (Configurations (Policy (Spec p))) =
      ([], NewStatus '''' Misconfigured [''scoreCoordinate field is required''])" for e
    by (rule mergeWeights_invalid) (auto simp: configs_valid_def)
  have "fst (getWeights d p) = []"
  proof (cases "mode_valid p")
    case True
    with False m show ?thesis by (simp add: getWeights_def Let_def)
  qed (simp add: getWeights_def mode_valid_def Let_def)
  then show ?thesis using False getWeights_status [of d p] by auto
qed

lemma distinct_default [simp]: "distinct (map fst defaultPrioritizerConfig)"
  by (simp add: defaultPrioritizerConfig_def builtin_coordinate_def PrioritizerBalance_def PrioritizerSteady_def)

definition steady_off :: Placement where
  "steady_off = WithPrioritizerConfig PrioritizerSteady 0 (NewPlacement ''ns'' ''p'')"

theorem getWeights_spec_witness:
  "map_of (fst (getWeights defaultPrioritizerConfig steady_off)) (builtin_coordinate PrioritizerSteady) = Some 0 \<and>
   map_of (fst (getWeights defaultPrioritizerConfig steady_off)) (builtin_coordinate PrioritizerBalance) = Some 1"
proof -
  have v: "mode_valid steady_off" "configs_valid steady_off"
    "PolicyMode (Policy (Spec steady_off)) = ''''"
    by (simp_all add: mode_valid_def configs_valid_def steady_off_def builder_defs record_builders
        PrioritizerSteady_def)
  have c: "config_weights steady_off = [builtin_coordinate PrioritizerSteady \<mapsto> 0]"
    by (simp add: config_weights_def steady_off_def builder_defs record_builders PrioritizerSteady_def
        builtin_coordinate_def)
  show ?thesis
    using getWeights_spec [OF distinct_default, of steady_off] v
    by (simp add: c defaultPrioritizerConfig_def builtin_coordinate_def PrioritizerBalance_def
        PrioritizerSteady_def)
qed

text \<open>The prioritizers that run are exactly those of a nonzero weight: a weight of zero
  disables a prioritizer (a configuration of weight zero is not even checked), and any other
  coordinate that names no prioritizer is a misconfiguration.\<close>

theorem getPrioritizers_spec:
  assumes "distinct (map fst ws)" "is_iter (WeightOrder e)"
  shows "(code (snd (getPrioritizers e ws)) = Success \<longleftrightarrow>
      (\<forall>k w. map_of ws k = Some w \<longrightarrow> w \<noteq> 0 \<longrightarrow> (\<exists>pr. make_prioritizer k = Inr pr))) \<and>
    (code (snd (getPrioritizers e ws)) = Success \<longrightarrow>
      map_of (fst (getPrioritizers e ws)) = (\<lambda>k. case map_of ws k of None \<Rightarrow> None
        | Some w \<Rightarrow> if w = 0 then None else Some (projr (make_prioritizer k))))"
proof -
  have ok: "enabled_ok ws \<longleftrightarrow>
      (\<forall>k w. map_of ws k = Some w \<longrightarrow> w \<noteq> 0 \<longrightarrow> (\<exists>pr. make_prioritizer k = Inr pr))"
  proof -
    have n: "\<not> isl x \<longleftrightarrow> (\<exists>y. x = Inr y)" for x :: "string + Prioritizer" by (cases x) auto
    show ?thesis unfolding enabled_ok_def map_of_eq_Some_iff [OF assms(1)] n by auto
  qed
  show ?thesis
  proof (cases "enabled_ok ws")
    case True
    let ?ws = "WeightOrder e ws"
    have g: "getPrioritizers e ws = (enabled ?ws, NewStatus '''' Success [''''])"
      by (rule getPrioritizers_ok [OF True assms])
    have d: "distinct (map fst ?ws)" using assms distinct_is_iter by blast
    have m: "map_of ?ws = map_of ws"
      using map_of_inject_set [OF d assms(1)] set_is_iter [OF assms(2)] by blast
    have "map_of (enabled xs) k = (case map_of xs k of None \<Rightarrow> None
        | Some w \<Rightarrow> if w = 0 then None else Some (projr (make_prioritizer k)))"
      if "distinct (map fst xs)" for xs :: weights and k
      using that
    proof (induction xs)
      case (Cons x xs)
      obtain k' w where x: "x = (k', w)" by fastforce
      have "k' \<notin> fst ` set (enabled xs)" using Cons.prems x enabled_keys [of xs] by auto
      then have "map_of (enabled xs) k' = None" by (simp add: map_of_eq_None_iff)
      then show ?case using Cons x by (auto simp: enabled_def)
    qed (simp add: enabled_def)
    then show ?thesis using g ok True d m by (auto simp: fun_eq_iff)
  next
    case False
    then show ?thesis using ok getPrioritizers_invalid [OF False assms(2)] by auto
  qed
qed

theorem getPrioritizers_spec_witness:
  "distinct (map fst (fst (getWeights defaultPrioritizerConfig steady_off))) \<and>
   code (snd (getPrioritizers sample_env (fst (getWeights defaultPrioritizerConfig steady_off)))) = Success \<and>
   map_of (fst (getPrioritizers sample_env (fst (getWeights defaultPrioritizerConfig steady_off))))
     (builtin_coordinate PrioritizerSteady) = None"
proof -
  let ?ws = "fst (getWeights defaultPrioritizerConfig steady_off)"
  have d: "distinct (map fst ?ws)" by (rule distinct_getWeights)
  have o: "is_iter (WeightOrder sample_env)" by (simp add: sample_env_def)
  have ok: "code (snd (getPrioritizers sample_env ?ws)) = Success" by code_simp
  have "map_of ?ws (builtin_coordinate PrioritizerSteady) = Some 0" by code_simp
  then show ?thesis using getPrioritizers_spec [OF d o] d ok by simp
qed

section \<open>Misconfigured placements\<close>

lemma run_two_filters_isl:
  "isl (run_filters e h p [PredicateFilter, TaintTolerationFilter] cs) \<longleftrightarrow>
     (if Predicates (Spec p) \<noteq> [] \<and> cs \<noteq> [] \<and> \<not> predicates_valid p then True
      else \<not> tolerations_valid p \<and> (\<exists>c \<in> set cs. Predicates (Spec p) = [] \<or>
        (\<exists>pr \<in> set (Predicates (Spec p)). satisfies_predicate c pr)))"
proof -
  let ?p = "predicate_Filter (FilterEnv e PredicateFilter) h p cs"
  have i: "isl (run_filters e h p [PredicateFilter, TaintTolerationFilter] cs) \<longleftrightarrow>
      IsError (Some (snd ?p)) \<or> \<not> tolerations_valid p \<and> Filtered (fst ?p) \<noteq> []"
    by (simp add: case_prod_unfold Let_def taintToleration_error_iff)
  show ?thesis
  proof (cases "IsError (Some (snd ?p))")
    case True
    then show ?thesis using i by (simp add: predicate_error_iff)
  next
    case False
    then have "Filtered (fst ?p) = filter (\<lambda>c. Predicates (Spec p) = [] \<or>
        (\<exists>pr \<in> set (Predicates (Spec p)). satisfies_predicate c pr)) cs"
      by (subst predicate_Filter_valid) (auto simp: predicate_error_iff)
    then show ?thesis using i False by (auto simp: predicate_error_iff filter_empty_conv)
  qed
qed

text \<open>C33: the status of a run is \<open>Misconfigured\<close> exactly when the placement's own spec is at
  fault: a predicate whose selectors do not validate or a toleration that does not while there are
  clusters to check, an unknown policy mode, a configuration without a coordinate, or a coordinate of
  nonzero weight (as last configured) that names no prioritizer. Failures to read the caches are never
  reported that way. A coordinate of the name \<open>Spread\<close> or of the empty type without an addon score is
  among the faults, although the API documents both as valid.\<close>

theorem Schedule_misconfigured_iff:
  assumes "env_orders e" "Schedule e (NewPluginScheduler h) p cs = Some (r, st)"
  shows "code st = Misconfigured \<longleftrightarrow>
    cs \<noteq> [] \<and> (\<exists>pr \<in> set (Predicates (Spec p)). \<not> predicate_valid pr) \<or>
    \<not> tolerations_valid p \<and> (\<exists>c \<in> set cs. Predicates (Spec p) = [] \<or>
      (\<exists>pr \<in> set (Predicates (Spec p)). satisfies_predicate c pr)) \<or>
    \<not> mode_valid p \<or> \<not> configs_valid p \<or>
    (\<exists>k w. config_weights p k = Some w \<and> w \<noteq> 0 \<and> \<not> coordinate_valid k)"
proof -
  have "code st = sched_code e (NewPluginScheduler h) p cs"
    using assms(2,1) by (cases rule: Schedule_cases) simp_all
  then have "code st = Misconfigured \<longleftrightarrow> config_fail e (NewPluginScheduler h) p cs"
    by (simp add: sched_code_def)
  also have "\<dots> \<longleftrightarrow> isl (run_filters e h p [PredicateFilter, TaintTolerationFilter] cs) \<or> \<not> mode_valid p \<or> \<not> configs_valid p \<or>
      (\<exists>k w. config_weights p k = Some w \<and> w \<noteq> 0 \<and> \<not> coordinate_valid k)"
    unfolding config_fail_def sched_weights_def NewPluginScheduler_simps using enabled_ok_configured [of p] by blast
  also have "isl (run_filters e h p [PredicateFilter, TaintTolerationFilter] cs) \<longleftrightarrow>
      cs \<noteq> [] \<and> (\<exists>pr \<in> set (Predicates (Spec p)). \<not> predicate_valid pr) \<or>
      \<not> tolerations_valid p \<and> (\<exists>c \<in> set cs. Predicates (Spec p) = [] \<or>
        (\<exists>pr \<in> set (Predicates (Spec p)). satisfies_predicate c pr))"
    unfolding run_two_filters_isl predicates_valid_iff by auto
  finally show ?thesis by (simp only: disj_assoc)
qed

theorem Schedule_misconfigured_iff_witness:
  "\<exists>r st. Schedule sample_env sample_scheduler sample_bad_placement sample_clusters = Some (r, st) \<and>
     code st = Misconfigured"
proof -
  obtain r st where s: "Schedule sample_env sample_scheduler sample_bad_placement sample_clusters = Some (r, st)"
    using run_summary_Some [OF sample_bad_run] by blast
  moreover have "\<not> mode_valid sample_bad_placement"
    by (simp add: mode_valid_def sample_bad_placement_def sample_placement_def builder_defs record_builders)
  ultimately show ?thesis
    using Schedule_misconfigured_iff [OF sample_env_ok(1) s [unfolded sample_scheduler_def]] by blast
qed

section \<open>The total score\<close>

lemma score_range_0 [simp]: "in_score_range 0"
  by (simp add: in_score_range_def MinClusterScore_def MaxClusterScore_def)

text \<open>With addon scores in the range the API validates and moderate amounts, every score of every
  prioritizer is in range.\<close>

definition moderate_clusters :: "ManagedCluster list \<Rightarrow> bool" where
  "moderate_clusters cs \<longleftrightarrow> (\<forall>res. moderate_amounts res cs)"

lemma prioritizer_range:
  assumes "valid_scores h" "moderate_clusters cs" "distinct (map Name cs)"
  shows "in_score_range (get0 (PScores (fst (prioritizer_Score pr e h p cs))) n)"
proof (cases pr)
  case BalancePrioritizer
  then show ?thesis using balance.get0_range by simp
next
  case SteadyPrioritizer
  then show ?thesis using steady.get0_range by simp
next
  case (ResourcePrioritizer r)
  have "in_score_range (get0 (PScores (mostResourceAllocatableScores (resource r) cs)) n)"
    using resource_scores_range [OF assms(3), of "resource r" n] assms(2)
    by (cases "PScores (mostResourceAllocatableScores (resource r) cs) n") (simp_all add: moderate_clusters_def)
  then show ?thesis using ResourcePrioritizer
    by (simp add: resource_Score_def Let_def no_score_result_def get0_def)
next
  case (AddOnPrioritizer a)
  then show ?thesis using addon_value_range [OF assms(1)]
    by (simp add: addon_Score_scores get0_def)
qed

lemma in_score_rangeD: "in_score_range v \<Longrightarrow> \<bar>sint v\<bar> \<le> 100"
  by (simp add: in_score_range_def MinClusterScore_def MaxClusterScore_def abs_le_iff)

lemma sint_weighted:
  assumes "in_score_range v" "\<bar>sint (w :: int32)\<bar> \<le> b" "b \<le> 2 ^ 31"
  shows "sint (v * scast w) = sint v * sint w" "\<bar>sint v * sint w\<bar> \<le> 100 * b"
proof -
  show le: "\<bar>sint v * sint w\<bar> \<le> 100 * b"
    unfolding abs_mult using in_score_rangeD [OF assms(1)] assms(2) by (intro mult_mono) auto
  have "\<bar>sint v * sint (scast w :: int64)\<bar> \<le> 100 * 2 ^ 31"
    using le assms(3) by (simp add: sint_scast_int32_int64)
  then show "sint (v * scast w) = sint v * sint w"
    using sint_times_int64 [of v "scast w"] by (simp add: sint_scast_int32_int64 abs_le_iff)
qed

lemma sint_sum_list:
  assumes "\<And>x. x \<in> set xs \<Longrightarrow> \<bar>sint (f x :: int64)\<bar> \<le> b" "0 \<le> b" "int (length xs) * b < 2 ^ 63"
  shows "sint (sum_list (map f xs)) = (\<Sum>x\<leftarrow>xs. sint (f x)) \<and> \<bar>\<Sum>x\<leftarrow>xs. sint (f x)\<bar> \<le> int (length xs) * b"
  using assms
proof (induction xs)
  case (Cons x xs)
  have l: "int (length xs) * b \<le> int (length (x # xs)) * b" using Cons.prems(2) by (simp add: mult_right_mono)
  have ih: "sint (sum_list (map f xs)) = (\<Sum>x\<leftarrow>xs. sint (f x))"
    "\<bar>\<Sum>x\<leftarrow>xs. sint (f x)\<bar> \<le> int (length xs) * b"
    using Cons l by simp_all
  have x: "\<bar>sint (f x)\<bar> \<le> b" by (rule Cons.prems(1)) simp
  have s: "int (length (x # xs)) * b = int (length xs) * b + b" by (simp add: algebra_simps)
  have "\<bar>sint (f x) + (\<Sum>x\<leftarrow>xs. sint (f x))\<bar> \<le> int (length (x # xs)) * b"
    unfolding s using ih(2) x by linarith
  moreover have "sint (f x + sum_list (map f xs)) = sint (f x) + sint (sum_list (map f xs))"
    by (rule sint_plus_int64) (use calculation Cons.prems(3) ih(1) in \<open>simp_all add: abs_le_iff\<close>)
  ultimately show ?case using ih(1) by simp
qed simp

lemma moderate_filter: "moderate_clusters cs \<Longrightarrow> moderate_clusters (filter P cs)"
  by (auto simp: moderate_clusters_def moderate_amounts_def set_allocatable_amounts)

text \<open>The API validates weights between -10 and 10.\<close>

definition weights_in_limits :: "Placement \<Rightarrow> bool" where
  "weights_in_limits p \<longleftrightarrow> (\<forall>c \<in> set (Configurations (Policy (Spec p))). \<bar>sint (Weight c)\<bar> \<le> 10)"

lemma getWeights_values:
  assumes "mode_valid p" "configs_valid p" "weights_in_limits p"
  shows "map_of (fst (getWeights defaultPrioritizerConfig p)) k = Some w \<Longrightarrow> \<bar>sint w\<bar> \<le> 10"
    and "length (fst (getWeights defaultPrioritizerConfig p)) \<le> 2 + length (Configurations (Policy (Spec p)))"
proof -
  let ?cfg = "rev (map (\<lambda>c. (the (ConfigCoordinate c), Weight c)) (Configurations (Policy (Spec p))))"
  obtain ws where g: "getWeights defaultPrioritizerConfig p = (ws, NewStatus '''' Success [''''])"
    and d: "distinct (map fst ws)" and m: "map_of ws =
      (if PolicyMode (Policy (Spec p)) = PrioritizerPolicyModeExact then Map.empty
       else map_of defaultPrioritizerConfig) ++ map_of ?cfg"
    using getWeights_ok [OF assms(1,2) distinct_default] by (auto simp: config_weights_def)
  have def1: "w = 1" if "map_of defaultPrioritizerConfig k = Some w" for k w
    using that by (auto simp: defaultPrioritizerConfig_def split: if_splits)
  have cfg: "\<bar>sint w\<bar> \<le> 10" if "map_of ?cfg k = Some w" for k w
    using map_of_SomeD [OF that] assms(3) by (auto simp: weights_in_limits_def)
  show "\<bar>sint w\<bar> \<le> 10" if "map_of (fst (getWeights defaultPrioritizerConfig p)) k = Some w"
  proof -
    have "map_of ?cfg k = Some w \<or> map_of defaultPrioritizerConfig k = Some w"
      using that by (auto simp: g m map_add_Some_iff split: if_splits)
    then show ?thesis using cfg def1 by fastforce
  qed
  have "dom (map_of ws) \<subseteq> dom (map_of defaultPrioritizerConfig) \<union> dom (map_of ?cfg)"
    by (auto simp: m dom_map_add split: if_splits)
  then have sub: "fst ` set ws \<subseteq> fst ` set defaultPrioritizerConfig \<union> fst ` set ?cfg"
    by (simp only: dom_map_of_conv_image_fst)
  have "length ws = card (set (map fst ws))" using distinct_card [OF d] by simp
  also have "\<dots> \<le> card (set (map fst defaultPrioritizerConfig) \<union> set (map fst ?cfg))"
    using sub by (intro card_mono) auto
  also have "\<dots> \<le> card (set (map fst defaultPrioritizerConfig)) + card (set (map fst ?cfg))"
    by (rule card_Un_le)
  also have "\<dots> \<le> length (map fst defaultPrioritizerConfig) + length (map fst ?cfg)"
    by (intro add_mono card_length)
  finally have "length ws \<le> 2 + length (Configurations (Policy (Spec p)))"
    by (simp add: defaultPrioritizerConfig_def)
  then show "length (fst (getWeights defaultPrioritizerConfig p)) \<le> 2 + length (Configurations (Policy (Spec p)))"
    by (simp add: g)
qed

text \<open>The total score of a cluster that passed the filters, as an integer.\<close>

lemma cluster_score_exact:
  assumes ok: "\<not> sched_fail e (NewPluginScheduler h) p cs" and "distinct (map Name cs)" "valid_scores h"
    "moderate_clusters cs" "weights_in_limits p" "length (Configurations (Policy (Spec p))) \<le> 2 ^ 40"
  defines "ws \<equiv> fst (getWeights defaultPrioritizerConfig p)"
  shows "sint (cluster_score e (NewPluginScheduler h) p cs n) =
      (\<Sum>scp\<leftarrow>enabled ws. sint (get0 (score_map e h p (filter (eligible e h p) cs) scp) n)
         * sint (weight_of ws (fst scp)))"
    and "\<bar>sint (cluster_score e (NewPluginScheduler h) p cs n)\<bar> \<le> int (length (enabled ws)) * 1000"
proof -
  let ?s = "NewPluginScheduler h" and ?f = "filter (eligible e h p) cs"
  have f: "feasible e ?s p cs = ?f" by (rule feasible_eligible [OF ok])
  have valid: "mode_valid p" "configs_valid p" using ok by (simp_all add: sched_fail_def config_fail_def)
  note gw = getWeights_values [OF valid assms(5), folded ws_def]
  have w: "\<bar>sint (weight_of ws k)\<bar> \<le> 10" for k
    using gw(1) by (simp add: weight_of_def split: option.splits)
  have sc: "in_score_range (get0 (score_map e h p ?f scp) n)" for scp n
    by (rule prioritizer_range [OF assms(3) moderate_filter [OF assms(4)]])
      (simp add: assms(2) distinct_map_filter)
  have con: "sint (contribution e h p ?f ws n scp) =
      sint (get0 (score_map e h p ?f scp) n) * sint (weight_of ws (fst scp))"
    "\<bar>sint (contribution e h p ?f ws n scp)\<bar> \<le> 1000" for scp
    unfolding contribution_def using sint_weighted [OF sc w [of "fst scp"]] by simp_all
  have "length (enabled ws) \<le> length ws" by (simp add: enabled_def)
  then have "int (length (enabled ws)) \<le> 2 + 2 ^ 40" using gw(2) assms(6) by simp
  then have small: "int (length (enabled ws)) * 1000 < 2 ^ 63" by simp
  have c: "cluster_score e ?s p cs n = sum_list (map (contribution e h p ?f ws n) (enabled ws))"
    by (simp add: cluster_score_def score_of_def f sched_weights_def ws_def)
  note sum = sint_sum_list [of "enabled ws" "contribution e h p ?f ws n" 1000, OF con(2) _ small]
  show "sint (cluster_score e ?s p cs n) =
      (\<Sum>scp\<leftarrow>enabled ws. sint (get0 (score_map e h p ?f scp) n) * sint (weight_of ws (fst scp)))"
    "\<bar>sint (cluster_score e ?s p cs n)\<bar> \<le> int (length (enabled ws)) * 1000"
    using sum con(1) by (simp_all add: c)
qed

text \<open>C31: the total score of an eligible cluster is the weighted sum of its scores as an integer: with
  addon scores, weights and resource amounts within the limits of the API, the \<open>int64\<close> products and
  sums of the scheduler never wrap around, for up to 2^40 configurations.\<close>

theorem Schedule_score_exact:
  assumes "env_orders e" "Schedule e (NewPluginScheduler h) p cs = Some (r, st)" "\<not> IsError (Some st)"
    "distinct (map Name cs)" "valid_scores h" "moderate_clusters cs" "weights_in_limits p"
    "length (Configurations (Policy (Spec p))) \<le> 2 ^ 40"
    "c \<in> set cs" "eligible e h p c"
  defines "ws \<equiv> fst (getWeights defaultPrioritizerConfig p)"
  shows "sint (get0 (PrioritizerScores r) (Name c)) =
      (\<Sum>scp\<leftarrow>enabled ws. sint (get0 (score_map e h p (filter (eligible e h p) cs) scp) (Name c))
         * sint (weight_of ws (fst scp))) \<and>
    \<bar>sint (get0 (PrioritizerScores r) (Name c))\<bar> \<le> int (length (enabled ws)) * 1000"
proof -
  from assms(2,1) have ok: "\<not> sched_fail e (NewPluginScheduler h) p cs"
    "scoreSum r = cluster_scores e (NewPluginScheduler h) p cs"
    by (cases rule: Schedule_cases, use assms(3) in auto)+
  have "get0 (PrioritizerScores r) (Name c) = cluster_score e (NewPluginScheduler h) p cs (Name c)"
    using assms(9,10)
    by (simp add: PrioritizerScores_def ok(2) cluster_scores_def feasible_eligible [OF ok(1)] get0_def)
  then show ?thesis
    using cluster_score_exact [OF ok(1) assms(4-8)] by (simp add: ws_def)
qed

lemma sample_valid_scores: "valid_scores (handle sample_scheduler)"
  by (auto simp: valid_scores_def sample_scheduler_def sample_handle_def
      NewPluginScheduler_def cache_ns_lister_def GetByKey_def valid_score_item_def builder_defs record_builders
      split: option.splits if_splits)

lemma sample_moderate: "moderate_clusters sample_clusters"
  by (simp add: moderate_clusters_def moderate_amounts_def allocatable_amounts_def getClusterResource_def
      sample_clusters_def builder_defs record_builders)

theorem Schedule_score_exact_witness:
  "\<exists>r st. Schedule sample_env sample_scheduler sample_placement sample_clusters = Some (r, st) \<and>
     \<bar>sint (get0 (PrioritizerScores r) ''c2'')\<bar> \<le>
       int (length (enabled (fst (getWeights defaultPrioritizerConfig sample_placement)))) * 1000"
proof -
  let ?h = "sample_handle [] [WithScore ''cpu'' 30 (NewAddOnPlacementScore ''c2'' ''demo'')] sample_clusters"
  obtain r st where s: "Schedule sample_env (NewPluginScheduler ?h) sample_placement sample_clusters = Some (r, st)"
    "\<not> IsError (Some st)"
    using sample_run_result unfolding sample_scheduler_def by blast
  have v: "valid_scores ?h" using sample_valid_scores by (simp add: sample_scheduler_def)
  have w: "weights_in_limits sample_placement" "length (Configurations (Policy (Spec sample_placement))) \<le> 2 ^ 40"
    by (simp_all add: weights_in_limits_def sample_placement_def builder_defs record_builders)
  have c: "NewManagedCluster ''c2'' \<in> set sample_clusters" by (simp add: sample_clusters_def)
  have el: "eligible sample_env ?h sample_placement (NewManagedCluster ''c2'')"
    by (simp add: eligible_def cluster_tolerated_def sample_placement_def builder_defs record_builders)
  show ?thesis
    using Schedule_score_exact [OF sample_env_ok(1) s sample_clusters_distinct v sample_moderate w c el] s(1)
    unfolding sample_scheduler_def by auto
qed

section \<open>The records for the debugger\<close>

text \<open>The two records of a run that succeeds.\<close>

lemma FilterResults_two:
  assumes "env_orders e" "Schedule e (NewPluginScheduler h) p cs = Some (r, st)" "\<not> IsError (Some st)"
    "is_iter order"
  shows "FilterResults order r =
    [\<lparr>FilterResultName = ''Predicate'', FilteredClusters = map Name (filter (\<lambda>c. Predicates (Spec p) = [] \<or>
        (\<exists>pr \<in> set (Predicates (Spec p)). satisfies_predicate c pr)) cs)\<rparr>,
     \<lparr>FilterResultName = ''Predicate,TaintToleration'', FilteredClusters = map Name (feasibleClusters r)\<rparr>]"
proof -
  let ?s = "NewPluginScheduler h"
  from assms(2,1) have ok: "\<not> sched_fail e ?s p cs" "feasibleClusters r = ranked e ?s p cs"
    "filteredRecords r = final_records e ?s p cs"
    by (cases rule: Schedule_cases, use assms(3) in auto)+
  have "\<not> isl (run_filters e h p [PredicateFilter, TaintTolerationFilter] cs)"
    using ok(1) by (simp add: sched_fail_def config_fail_def)
  then have "\<not> IsError (Some (snd (predicate_Filter (FilterEnv e PredicateFilter) h p cs)))"
    by (auto simp: case_prod_unfold)
  then have k: "Filtered (fst (predicate_Filter (FilterEnv e PredicateFilter) h p cs)) =
      filter (\<lambda>c. Predicates (Spec p) = [] \<or> (\<exists>pr \<in> set (Predicates (Spec p)). satisfies_predicate c pr)) cs"
    by (subst predicate_Filter_valid) (auto simp: predicate_error_iff)
  let ?n1 = "''Predicate''" and ?n2 = "''Predicate,TaintToleration''"
  have recs: "filteredRecords r = [(?n1, filter (\<lambda>c. Predicates (Spec p) = [] \<or>
        (\<exists>pr \<in> set (Predicates (Spec p)). satisfies_predicate c pr)) cs), (?n2, ranked e ?s p cs)]"
    by (simp add: ok(3) final_records_def k predicate_Name_def taintToleration_Name_def Let_def)
  have "mset (order [?n1, ?n2]) = mset [?n1, ?n2]" by (rule mset_is_iter [OF assms(4)])
  then have "sort_key length (order [?n1, ?n2]) = sort_key length [?n1, ?n2]"
    by (rule sort_key_mset_unique) (simp add: set_is_iter [OF assms(4)])
  then have keys: "slice_stable (\<lambda>a b. length a < length b) (order [?n1, ?n2]) = [?n1, ?n2]"
    by (subst slice_stable_key [where f = length]) simp_all
  show ?thesis by (simp add: FilterResults_def recs keys ok(2) Let_def)
qed

text \<open>\<open>FilterResults\<close> lists the filters' pipeline in order, whatever the iteration order of
  the map of records: first the clusters that satisfy the predicates, then those whose taints are
  tolerated as well, the latter in the order of their scores.\<close>

theorem FilterResults_pipeline:
  assumes "env_orders e" "Schedule e (NewPluginScheduler h) p cs = Some (r, st)" "\<not> IsError (Some st)"
    "is_iter order"
  shows "FilterResults order r =
    [\<lparr>FilterResultName = ''Predicate'', FilteredClusters = map Name (filter (\<lambda>c. Predicates (Spec p) = [] \<or>
        (\<exists>pr \<in> set (Predicates (Spec p)). satisfies_predicate c pr)) cs)\<rparr>,
     \<lparr>FilterResultName = ''Predicate,TaintToleration'', FilteredClusters = map Name (feasibleClusters r)\<rparr>]"
  by (rule FilterResults_two [OF assms])

theorem FilterResults_pipeline_witness:
  "\<exists>r st. Schedule sample_env sample_scheduler sample_placement sample_clusters = Some (r, st) \<and>
     map FilterResultName (FilterResults rev r) = [''Predicate'', ''Predicate,TaintToleration'']"
  using sample_run_result FilterResults_pipeline [OF sample_env_ok(1) _ _ is_iter_rev]
  unfolding sample_scheduler_def by fastforce

section \<open>The requeue time\<close>

lemma filter_requeue_new:
  "filter_requeue e (NewPluginScheduler h) p =
    map_option (\<lambda>t. time_sub t (UntilNow e))
      (RequeueTime (fst (taintToleration_RequeueAfter (RequeueEnv e TaintTolerationFilter) h p)))"
  by (simp add: filter_requeue_def note_requeue_def predicate_RequeueAfter_def no_requeue_result_def
      setRequeueAfter_def split: option.splits)

lemma time_sub_le:
  assumes "u - t < 2 ^ 63"
  shows "u + sint (time_sub t u) \<le> t"
proof -
  have "sint (time_sub t u) = max (- (2 ^ 63)) (min (2 ^ 63 - 1) (t - u))"
    unfolding time_sub_def by (rule sint_of_int64) auto
  then show ?thesis using assms by simp
qed

text \<open>C32: the scheduler asks to be called again soon enough. Until the returned requeue interval has
  passed (for ever, when there is none), every cluster among the placement's decisions whose taints
  are tolerated now stays tolerated, so the decisions it gave cannot become stale before. The clock
  readings of the run must lie less than 292 years apart.\<close>

theorem Schedule_requeue_in_time:
  assumes "env_orders e" "Schedule e (NewPluginScheduler h) p cs = Some (r, st)" "\<not> IsError (Some st)"
    "UntilNow e - TolerationNow (RequeueEnv e TaintTolerationFilter) < 2 ^ 63"
    "c \<in> set (snd (getDecisionClusters (RequeueEnv e TaintTolerationFilter) h p))"
    "cluster_tolerated (TolerationNow (RequeueEnv e TaintTolerationFilter)) c (Tolerations (Spec p))
      (Name c \<in> set (getDecisionClusterNames h p))"
    "\<forall>d. sched_RequeueAfter r = Some d \<longrightarrow> now' < UntilNow e + sint d"
  shows "cluster_tolerated now' c (Tolerations (Spec p)) (Name c \<in> set (getDecisionClusterNames h p))"
proof (rule RequeueAfter_stable [OF assms(5,6)], intro allI impI)
  fix t assume t: "RequeueTime (fst (taintToleration_RequeueAfter (RequeueEnv e TaintTolerationFilter) h p)) = Some t"
  have "requeueAfter r = filter_requeue e (NewPluginScheduler h) p"
    using assms(2,1) by (cases rule: Schedule_cases) (use assms(3) in auto)
  then have "now' < UntilNow e + sint (time_sub t (UntilNow e))"
    using assms(7) t by (simp add: sched_RequeueAfter_def filter_requeue_new)
  moreover have "UntilNow e - t < 2 ^ 63" using RequeueAfter_from [OF t] assms(4) by linarith
  ultimately show "now' < t" using time_sub_le by fastforce
qed

text \<open>A placement that tolerates the taint of a chosen cluster for 30 seconds.\<close>

definition sample_taint :: Taint where
  "sample_taint = \<lparr>taint_key = ''k'', taint_value = ''v'', taint_effect = TaintEffectNoSelect, TimeAdded = 0\<rparr>"

definition sample_toleration :: Toleration where
  "sample_toleration = \<lparr>tol_key = ''k'', tol_operator = TolerationOpExists, tol_value = '''',
     tol_effect = '''', TolerationSeconds = Some 30\<rparr>"

definition tainted_cluster :: ManagedCluster where
  "tainted_cluster = WithTaint sample_taint (NewManagedCluster ''c1'')"

definition tainted_scheduler_handle :: Handle where
  "tainted_scheduler_handle = sample_handle
     [WithDecisions [''c1''] (WithLabel PlacementLabel ''p'' (NewPlacementDecision ''ns'' ''p-decision-1''))]
     [] [tainted_cluster]"

definition tolerating_placement :: Placement where
  "tolerating_placement = AddToleration sample_toleration (NewPlacement ''ns'' ''p'')"

lemma tainted_run:
  "map_option (\<lambda>(r, st). (map ClusterName (scheduledDecisions r), requeueAfter r, code st))
    (Schedule sample_env (NewPluginScheduler tainted_scheduler_handle) tolerating_placement [tainted_cluster]) =
   Some ([''c1''], Some (30 * 1000000000 - 1000), Success)"
  by code_simp

lemma tainted_decision_clusters:
  "map Name (snd (getDecisionClusters sample_plugin_env tainted_scheduler_handle tolerating_placement)) = [''c1''] \<and>
   map Taints (snd (getDecisionClusters sample_plugin_env tainted_scheduler_handle tolerating_placement)) = [[sample_taint]]"
  by code_simp

theorem Schedule_requeue_in_time_witness:
  "\<exists>c. c \<in> set (snd (getDecisionClusters sample_plugin_env tainted_scheduler_handle tolerating_placement)) \<and>
     cluster_tolerated 29000000000 c (Tolerations (Spec tolerating_placement))
       (Name c \<in> set (getDecisionClusterNames tainted_scheduler_handle tolerating_placement))"
proof -
  obtain r st where s: "Schedule sample_env (NewPluginScheduler tainted_scheduler_handle) tolerating_placement
      [tainted_cluster] = Some (r, st)" "requeueAfter r = Some (30 * 1000000000 - 1000)" "\<not> IsError (Some st)"
    using tainted_run by (auto simp: IsError_Some)
  obtain c where c: "snd (getDecisionClusters sample_plugin_env tainted_scheduler_handle tolerating_placement) = [c]"
    "Taints c = [sample_taint]"
    using tainted_decision_clusters by auto
  have env: "RequeueEnv sample_env TaintTolerationFilter = sample_plugin_env" "UntilNow sample_env = 1000"
    "TolerationNow sample_plugin_env = 1000"
    by (simp_all add: sample_env_def sample_plugin_env_def)
  have tol: "cluster_tolerated 1000 c (Tolerations (Spec tolerating_placement)) b" for b
    by (simp add: cluster_tolerated_def c taint_tolerated_def tolerating_placement_def builder_defs
        record_builders sample_toleration_def sample_taint_def taint_matches_def toleration_live_def
        toleration_end_def time_add_def nanos_per_second_def)
  have "cluster_tolerated 29000000000 c (Tolerations (Spec tolerating_placement))
       (Name c \<in> set (getDecisionClusterNames tainted_scheduler_handle tolerating_placement))"
    by (rule Schedule_requeue_in_time [OF sample_env_ok(1) s(1,3)])
      (simp_all add: env c tol s(2) sched_RequeueAfter_def)
  then show ?thesis using c(1) by auto
qed

theorem taintToleration_Filter_spec_witness:
  "map Name (Filtered (fst (taintToleration_Filter sample_plugin_env tainted_scheduler_handle tolerating_placement
     [tainted_cluster, WithTaint (sample_taint\<lparr>taint_key := ''x''\<rparr>) (NewManagedCluster ''c2'')]))) = [''c1'']"
proof -
  have v: "tolerations_valid tolerating_placement"
    by (simp add: tolerations_valid_def tolerating_placement_def sample_toleration_def builder_defs record_builders)
  show ?thesis
    using taintToleration_Filter_spec [of sample_plugin_env tainted_scheduler_handle tolerating_placement
        "[tainted_cluster, WithTaint (sample_taint\<lparr>taint_key := ''x''\<rparr>) (NewManagedCluster ''c2'')]"] v
    by (simp add: tolerating_placement_def tainted_cluster_def sample_toleration_def sample_taint_def
        builder_defs record_builders taint_matches_def toleration_live_def toleration_end_def time_add_def
        nanos_per_second_def sample_plugin_env_def)
qed

end
