(* ===== verification/Configured.thy ===== *)
theory Configured
  imports SchedulerScores Bind
begin

text \<open>
  When a run of the scheduler succeeds: a placement whose predicates, tolerations and policy are
  valid and that uses no addon score is scheduled without error or warning on any clusters, as long
  as the decisions can be listed.
\<close>

definition weights_plain :: "weights \<Rightarrow> bool" where
  "weights_plain ws \<longleftrightarrow> (\<forall>(k, v) \<in> set ws. v \<noteq> 0 \<longrightarrow>
     (case make_prioritizer k of Inl er \<Rightarrow> False | Inr (AddOnPrioritizer a) \<Rightarrow> False | Inr pr \<Rightarrow> True))"

definition well_configured :: "Placement \<Rightarrow> bool" where
  "well_configured p \<longleftrightarrow> (Predicates (Spec p) = [] \<or> predicates_valid p) \<and> tolerations_valid p \<and>
     mode_valid p \<and> configs_valid p \<and> weights_plain (fst (getWeights defaultPrioritizerConfig p)) \<and>
     (case NumberOfClusters (Spec p) of None \<Rightarrow> True | Some n \<Rightarrow> 0 \<le> sint n) \<and> is_valid_label_value (Name p)"

lemma plain_prioritizer:
  assumes "weights_plain ws" "scp \<in> set (enabled ws)"
  shows "snd scp \<in> {BalancePrioritizer, SteadyPrioritizer} \<union> range ResourcePrioritizer"
proof -
  obtain k v where kv: "(k, v) \<in> set ws" "v \<noteq> 0" "snd scp = projr (make_prioritizer k)"
    using assms(2) by (auto simp: enabled_def)
  have "case make_prioritizer k of Inl er \<Rightarrow> False | Inr (AddOnPrioritizer a) \<Rightarrow> False | Inr pr \<Rightarrow> True"
    using assms(1) kv(1,2) unfolding weights_plain_def by blast
  then show ?thesis using kv(3) by (auto split: sum.splits Prioritizer.splits)
qed

lemma plain_enabled_ok: "weights_plain ws \<Longrightarrow> enabled_ok ws"
  by (fastforce simp: weights_plain_def enabled_ok_def split: sum.splits)

lemma plain_status:
  assumes "pr \<in> {BalancePrioritizer, SteadyPrioritizer} \<union> range ResourcePrioritizer"
    "DecisionLister h = cache_ns_lister r ds" "is_valid_label_value (Name p)"
  shows "code (snd (prioritizer_Score pr e h p cs)) = Success"
proof -
  obtain sel where "equals_selector PlacementLabel (Name p) = Inr sel"
    using equals_selector_ok [OF _ assms(3), of PlacementLabel] placement_label_ok by blast
  then show ?thesis using assms(1,2)
    by (auto simp: balance_Score_def steady_Score_def resource_Score_def Let_def NewStatus_def split: prod.splits)
qed

text \<open>A well configured placement is scheduled with success.\<close>

lemma Schedule_success:
  assumes p: "well_configured p" and e: "env_orders e" and h: "DecisionLister h = cache_ns_lister r ds"
  shows "\<exists>res st. Schedule e (NewPluginScheduler h) p cs = Some (res, st) \<and> code st = Success"
proof -
  let ?s = "NewPluginScheduler h"
  have w: "weights_plain (sched_weights ?s p)" using p by (simp add: well_configured_def sched_weights_def)
  have nc: "\<not> config_fail e ?s p cs"
    using p plain_enabled_ok [OF w] unfolding config_fail_def NewPluginScheduler_simps run_two_filters_isl
    by (auto simp: well_configured_def)
  have st: "code (score_status e h p (feasible e ?s p cs) scp) = Success" if "scp \<in> set (enabled (sched_weights ?s p))" for scp
    using plain_status [OF plain_prioritizer [OF w that] h] p by (simp add: well_configured_def)
  then have nf: "\<not> sched_fail e ?s p cs"
    using nc by (auto simp: sched_fail_def scores_fail_def IsError_Some)
  have "sched_code e ?s p cs = Success" using nc nf st by (auto simp: sched_code_def)
  moreover have "selectClusters p (ranked e ?s p cs) \<noteq> None"
    using p by (auto simp: selectClusters_None_iff well_configured_def split: option.splits)
  ultimately show ?thesis using Schedule_ok [OF nf e] by auto
qed

end
