(* ===== verification/Manager.thy ===== *)
theory Manager
  imports Debugger Enqueue Configured
begin

text \<open>
  How the process is put together: \<open>NewSchedulingController\<close> and \<open>NewDebugger\<close>,
  \<open>pkg/controllers/manager.go\<close>, and the commands of \<open>cmd/placement\<close>, \<open>pkg/cmd/hub\<close> and
  \<open>pkg/version\<close>. What client-go, library-go and cobra do is a parameter: the clients, whose
  creation may fail, the informers, given by what their caches hold, and the command a
  configuration yields. All parts are connected to the same caches; that is what the theorems about
  the composition of the parts rest on.
\<close>

section \<open>Informers\<close>

text \<open>What the caches of the shared informers hold. The cache of the decisions follows the calls of
  a reconciliation.\<close>

record clusterInformers =
  ManagedClusters :: "ManagedCluster list"
  ManagedClusterSets :: "ManagedClusterSet list"
  ManagedClusterSetBindings :: "ManagedClusterSetBinding list"
  Placements :: "Placement list"
  PlacementDecisions :: "trace \<Rightarrow> PlacementDecision list"
  AddOnPlacementScores :: "AddOnPlacementScore list"

definition ManagedClusters_Lister :: "clusterInformers \<Rightarrow> ManagedCluster ClLister" where
  "ManagedClusters_Lister i = cache_cl_lister ''managedclusters'' (ManagedClusters i)"

definition Placements_Lister :: "clusterInformers \<Rightarrow> Placement NsLister" where
  "Placements_Lister i = cache_ns_lister ''placements'' (Placements i)"

definition PlacementDecisions_Lister :: "clusterInformers \<Rightarrow> trace \<Rightarrow> PlacementDecision NsLister" where
  "PlacementDecisions_Lister i tr = cache_ns_lister ''placementdecisions'' (PlacementDecisions i tr)"

section \<open>Constructors\<close>

type_synonym SchedulerInterface = "trace \<Rightarrow> Placement \<Rightarrow> ManagedCluster list \<Rightarrow> (scheduleResult \<times> Status) option"

text \<open>The controller and the enqueuer its handlers use; the handlers are \<open>on_change\<close>.\<close>

definition NewSchedulingController ::
  "clusterClient \<Rightarrow> clusterInformers \<Rightarrow> SchedulerInterface \<Rightarrow> ControllerEnv \<Rightarrow> schedulingController \<times> enqueuer" where
  "NewSchedulingController clusterClient i sched ce =
     (let enQueuer = newEnqueuer (ManagedClusters i) (ManagedClusterSets i) (Placements i) (ManagedClusterSetBindings i);
          c = \<lparr>client = clusterClient, clusterLister = ManagedClusters_Lister i,
            clusterSetLister = cache_cl_lister ''managedclustersets'' (ManagedClusterSets i),
            clusterSetBindingLister = cache_ns_lister ''managedclustersetbindings'' (ManagedClusterSetBindings i),
            placementLister = (\<lambda>tr. Placements_Lister i), placementDecisionLister = PlacementDecisions_Lister i,
            scheduler = sched, cenv = ce\<rparr>
      in (c, enQueuer))"

text \<open>The debugger asks the scheduler when a request comes; \<open>now\<close> is the trace at that time.\<close>

definition NewDebugger ::
  "(Placement \<Rightarrow> ManagedCluster list \<Rightarrow> (scheduleResult \<times> Status) option) \<Rightarrow> Placement NsLister \<Rightarrow>
   ManagedCluster ClLister \<Rightarrow> (string \<Rightarrow> string) \<Rightarrow> (string list \<Rightarrow> string list) \<Rightarrow> Debugger" where
  "NewDebugger sched pLister cLister keyErr order = \<lparr>dbg_scheduler = sched, dbg_clusterLister = cLister,
     dbg_placementLister = pLister, KeyErrText = keyErr, ResultOrder = order\<rparr>"

text \<open>The handlers registered with the server, by path prefix (\<open>HandlePrefix\<close>).\<close>

type_synonym routes = "(string \<times> (string \<Rightarrow> DebugResult option)) list"

definition installDebugger :: "routes \<Rightarrow> Debugger \<Rightarrow> routes" where
  "installDebugger mux d = mux @ [(DebugPath, Handler d)]"

section \<open>The manager\<close>

text \<open>The parameters: the results of the two \<open>NewForConfig\<close>, what the caches hold, the routes of the
  HTTP server, if there is one, and the environments.\<close>

record controllerContext =
  NewClusterClient :: "string + clusterClient"
  NewKubeClient :: "string option"
  Informers :: clusterInformers
  ServerMux :: "routes option"
  SchedEnvAt :: "trace \<Rightarrow> SchedEnv"
  CEnv :: ControllerEnv
  DebugKeyErr :: "string \<Rightarrow> string"
  DebugOrder :: "string list \<Rightarrow> string list"

record running =
  run_controller :: schedulingController
  run_enqueuer :: enqueuer
  run_mux :: "trace \<Rightarrow> routes option"

definition RunControllerManager :: "controllerContext \<Rightarrow> string + running" where
  "RunControllerManager cc = (case NewClusterClient cc of
     Inl err \<Rightarrow> Inl err
   | Inr clusterClient \<Rightarrow> (case NewKubeClient cc of
       Some err \<Rightarrow> Inl err
     | None \<Rightarrow>
        (let i = Informers cc;
             sched = (\<lambda>tr. Schedule (SchedEnvAt cc tr) (NewPluginScheduler (NewSchedulerHandler
               (PlacementDecisions_Lister i tr)
               (cache_ns_lister ''addonplacementscores'' (AddOnPlacementScores i))
               (ManagedClusters_Lister i))));
             mux = (\<lambda>tr. map_option (\<lambda>m. installDebugger m (NewDebugger (sched tr) (Placements_Lister i)
               (ManagedClusters_Lister i) (DebugKeyErr cc) (DebugOrder cc))) (ServerMux cc));
             (c, enQueuer) = NewSchedulingController clusterClient i sched (CEnv cc)
         in Inr \<lparr>run_controller = c, run_enqueuer = enQueuer, run_mux = mux\<rparr>)))"



section \<open>The commands\<close>

record version_Info =
  Major :: string
  Minor :: string
  GitCommit :: string
  GitVersion :: string
  BuildDate :: string

text \<open>The variables the linker sets.\<close>

record build_vars =
  commitFromGit :: string
  versionFromGit :: string
  majorFromGit :: string
  minorFromGit :: string
  buildDate :: string

definition version_Get :: "build_vars \<Rightarrow> version_Info" where
  "version_Get v = \<lparr>Major = majorFromGit v, Minor = minorFromGit v, GitCommit = commitFromGit v,
     GitVersion = versionFromGit v, BuildDate = buildDate v\<rparr>"

definition version_String :: "version_Info \<Rightarrow> string" where
  "version_String info = GitVersion info"

text \<open>The metric \<open>init\<close> registers: its name, the labels with their values, and its value.\<close>

definition version_init :: "build_vars \<Rightarrow> string \<times> (string \<times> string) list \<times> int" where
  "version_init v = (''open_cluster_management_placement_build_info'',
     [(''major'', majorFromGit v), (''minor'', minorFromGit v), (''gitCommit'', commitFromGit v),
      (''gitVersion'', versionFromGit v)], 1)"

datatype Command = Command (Use: string) (Short: string) (cmd_Version: string) (cmd_Commands: "Command list")
  (cmd_Start: "(controllerContext \<Rightarrow> string + running) option")

text \<open>\<open>newCommand\<close> is \<open>NewControllerCommandConfig(..).NewCommand()\<close> of library-go.\<close>

definition NewController ::
  "(string \<Rightarrow> version_Info \<Rightarrow> (controllerContext \<Rightarrow> string + running) \<Rightarrow> Command) \<Rightarrow> build_vars \<Rightarrow> Command" where
  "NewController newCommand v =
     (case newCommand ''placement'' (version_Get v) RunControllerManager of
        Command u s ver cs start \<Rightarrow> Command ''controller'' ''Start the Placement Scheduling Controller'' ver cs start)"

definition newPlacementCommand ::
  "(string \<Rightarrow> version_Info \<Rightarrow> (controllerContext \<Rightarrow> string + running) \<Rightarrow> Command) \<Rightarrow> build_vars \<Rightarrow> Command" where
  "newPlacementCommand newCommand v =
     (let s = version_String (version_Get v)
      in Command ''placement'' ''Placement Controller'' (if length s = 0 then ''<unknown>'' else s)
           [NewController newCommand v] None)"

text \<open>\<open>main\<close>: what is written to standard error and the exit status; \<open>execute\<close> is cobra's
  \<open>Execute\<close>.\<close>

definition main ::
  "(Command \<Rightarrow> string option) \<Rightarrow> (string \<Rightarrow> version_Info \<Rightarrow> (controllerContext \<Rightarrow> string + running) \<Rightarrow> Command) \<Rightarrow>
   build_vars \<Rightarrow> string \<times> nat" where
  "main execute newCommand v = (case execute (newPlacementCommand newCommand v) of
     None \<Rightarrow> ('''', 0) | Some err \<Rightarrow> (err @ [CHR 0x0A], 1))"

section \<open>The parts are connected\<close>

lemma manager_parts:
  assumes "RunControllerManager cc = Inr r"
  shows "clusterLister (run_controller r) = cache_cl_lister ''managedclusters'' (ManagedClusters (Informers cc))"
    "clusterSetLister (run_controller r) = cache_cl_lister ''managedclustersets'' (ManagedClusterSets (Informers cc))"
    "clusterSetBindingLister (run_controller r) =
       cache_ns_lister ''managedclustersetbindings'' (ManagedClusterSetBindings (Informers cc))"
    "placementLister (run_controller r) = (\<lambda>tr. cache_ns_lister ''placements'' (Placements (Informers cc)))"
    "placementDecisionLister (run_controller r) =
       (\<lambda>tr. cache_ns_lister ''placementdecisions'' (PlacementDecisions (Informers cc) tr))"
    "scheduler (run_controller r) = (\<lambda>tr. Schedule (SchedEnvAt cc tr) (NewPluginScheduler (NewSchedulerHandler
       (PlacementDecisions_Lister (Informers cc) tr)
       (cache_ns_lister ''addonplacementscores'' (AddOnPlacementScores (Informers cc)))
       (ManagedClusters_Lister (Informers cc)))))"
    "cenv (run_controller r) = CEnv cc"
    "run_enqueuer r = newEnqueuer (ManagedClusters (Informers cc)) (ManagedClusterSets (Informers cc))
       (Placements (Informers cc)) (ManagedClusterSetBindings (Informers cc))"
    "run_mux r tr = map_option (\<lambda>m. m @ [(DebugPath, Handler \<lparr>dbg_scheduler = scheduler (run_controller r) tr,
       dbg_clusterLister = clusterLister (run_controller r), dbg_placementLister = placementLister (run_controller r) tr,
       KeyErrText = DebugKeyErr cc, ResultOrder = DebugOrder cc\<rparr>)]) (ServerMux cc)"
  using assms
  by (auto simp: RunControllerManager_def NewSchedulingController_def NewDebugger_def installDebugger_def
      ManagedClusters_Lister_def Placements_Lister_def PlacementDecisions_Lister_def Let_def fun_eq_iff
      split: sum.splits option.splits)

lemma manager_cached:
  assumes "RunControllerManager cc = Inr r" "wf_cl_items (ManagedClusters (Informers cc))"
    "wf_cl_items (ManagedClusterSets (Informers cc))" "is_iter (AvailableOrder (CEnv cc))"
  shows "cached (run_controller r) (ManagedClusters (Informers cc)) (ManagedClusterSets (Informers cc))
    (ManagedClusterSetBindings (Informers cc))"
  using assms(2-4) manager_parts [OF assms(1)] by (simp add: cached_def)

lemma map_outcome_Some:
  assumes "map_option outcome x = map_option outcome (Some (r, st))"
  obtains r' st' where "x = Some (r', st')" "outcome (r', st') = outcome (r, st)"
  using assms by (cases x) force+

text \<open>C24: the debugger shows what the controller does. When every cluster is available to the
  placement and the controller's run on it does not fail, the debug endpoint of the same process
  answers, under the path of the placement, with a ranking of the clusters whose first entries are,
  in order, the controller's decisions.\<close>

theorem debugger_agrees:
  assumes r: "RunControllerManager cc = Inr r"
    and wf: "wf_cl_items (ManagedClusters (Informers cc))" "wf_cl_items (ManagedClusterSets (Informers cc))"
      "wf_ns_items (Placements (Informers cc))" "\<forall>s \<in> set (ManagedClusterSets (Informers cc)). valid_set s"
    and orders: "is_iter (AvailableOrder (CEnv cc))" "env_orders (SchedEnvAt cc tr)" "is_iter (DebugOrder cc)"
    and p: "p \<in> set (Placements (Informers cc))" "\<forall>cl \<in> set (ManagedClusters (Informers cc)). available_to
      (ManagedClusterSets (Informers cc)) (ManagedClusterSetBindings (Informers cc)) p cl"
    and run: "placement_clusters (run_controller r) p = Inr cls"
      "scheduler (run_controller r) tr p cls = Some (res, st)" "\<not> IsError (Some st)"
    and mux: "run_mux r tr = Some m"
  shows "\<exists>d out pred ranking. (DebugPath, d) \<in> set m \<and> d (DebugPath @ Namespace p @ [slash] @ Name p) = Some out \<and>
    DebugFilterResults out = [pred, ranking] \<and> DebugError out = '''' \<and>
    map ClusterName (sched_Decisions res) = take (length (sched_Decisions res)) (FilteredClusters ranking)"
proof -
  let ?i = "Informers cc"
  define h where "h = NewSchedulerHandler (PlacementDecisions_Lister ?i tr)
    (cache_ns_lister ''addonplacementscores'' (AddOnPlacementScores ?i)) (ManagedClusters_Lister ?i)"
  note parts = manager_parts [OF r, folded h_def]
  have sched: "scheduler (run_controller r) tr = Schedule (SchedEnvAt cc tr) (NewPluginScheduler h)"
    by (simp add: parts(6) h_def)
  have wfp: "wf_meta p" using wf(3) p(1) by (rule wf_ns_items_meta)
  then have s: "Namespace p \<noteq> []" "slash \<notin> set (Namespace p)" "slash \<notin> set (Name p)" by (simp_all add: wf_meta_def)
  from placement_clusters_cached [OF manager_cached [OF r wf(1,2) orders(1)] wf(4) s(1)] p(2) run(1)
  have cls: "distinct (map Name cls)" "set cls = set (ManagedClusters ?i)" by auto
  have "distinct cls" "distinct (ManagedClusters ?i)"
    using cls(1) wf(1) by (auto simp: wf_cl_items_def distinct_map)
  then have perm: "mset (ManagedClusters ?i) = mset cls" using cls(2) by (simp add: set_eq_iff_mset_eq_distinct)
  have "distinct (map Name (ManagedClusters ?i))" using wf(1) by (simp add: wf_cl_items_def)
  from Schedule_outcome_perm [OF orders(2) orders(2) _ perm this, of "NewPluginScheduler h" p] run(2)
  obtain res' st' where s': "Schedule (SchedEnvAt cc tr) (NewPluginScheduler h) p (ManagedClusters ?i) = Some (res', st')"
    "outcome (res', st') = outcome (res, st)"
    by (auto simp: sched elim: map_outcome_Some)
  have ok': "\<not> IsError (Some st')" and feas: "feasibleClusters res' = feasibleClusters res"
    using s'(2) run(3) by (simp_all add: outcome_def IsError_Some)
  define d where "d = \<lparr>dbg_scheduler = scheduler (run_controller r) tr,
    dbg_clusterLister = clusterLister (run_controller r), dbg_placementLister = placementLister (run_controller r) tr,
    KeyErrText = DebugKeyErr cc, ResultOrder = DebugOrder cc\<rparr>"
  have d: "(DebugPath, Handler d) \<in> set m" using mux parts(9) by (auto simp: d_def)
  have "find (\<lambda>q. Namespace q = Namespace p \<and> Name q = Name p) (Placements ?i) = Some p"
  proof (cases "find (\<lambda>q. Namespace q = Namespace p \<and> Name q = Name p) (Placements ?i)")
    case None
    then show ?thesis using p(1) by (auto simp: find_None_iff)
  next
    case (Some q)
    then have "q \<in> set (Placements ?i)" "Namespace q = Namespace p" "Name q = Name p" by (auto simp: find_Some_iff)
    then have "q = p" using cache_ns_get [OF wf(3) p(1)] cache_ns_get [OF wf(3), of q] by simp
    then show ?thesis using Some by simp
  qed
  then have "Handler d (DebugPath @ Namespace p @ [slash] @ Name p) = Some
      \<lparr>DebugFilterResults = FilterResults (DebugOrder cc) res', DebugPrioritizeResults = scoreRecords res', DebugError = ''''\<rparr>"
    using Handler_path [of d, OF _ wf(3) _ s(2,3), of "ManagedClusters ?i"] s'(1)
    by (simp add: d_def parts(1,4) sched)
  moreover note FilterResults_two [OF orders(2) s'(1) ok' orders(3)]
  moreover have "map ClusterName (sched_Decisions res) = take (length (sched_Decisions res)) (map Name (feasibleClusters res'))"
  proof -
    from run(2) [unfolded sched] orders(2) have "feasibleClusters res = ranked (SchedEnvAt cc tr) (NewPluginScheduler h) p cls"
      "selectClusters p (ranked (SchedEnvAt cc tr) (NewPluginScheduler h) p cls) = Some (scheduledDecisions res)"
      by (cases rule: Schedule_cases, use run(3) in auto)+
    then show ?thesis using selectClusters_Some [of p "feasibleClusters res" "scheduledDecisions res"] feas
      by (simp add: sched_Decisions_def take_map min_def)
  qed
  ultimately show ?thesis using d by fastforce
qed

text \<open>A process whose caches hold the sample world, with both clusters of its first set.\<close>

definition managed_clusters :: "ManagedCluster list" where
  "managed_clusters = [member ''s1'' ''c1'', member ''s1'' ''c2'']"

definition sample_informers :: clusterInformers where
  "sample_informers = \<lparr>ManagedClusters = managed_clusters, ManagedClusterSets = world_sets,
     ManagedClusterSetBindings = world_bindings, Placements = [world_placement],
     PlacementDecisions = store_of [], AddOnPlacementScores = []\<rparr>"

definition sample_context :: controllerContext where
  "sample_context = \<lparr>NewClusterClient = Inr (server_client no_failures []), NewKubeClient = None,
     Informers = sample_informers, ServerMux = Some [], SchedEnvAt = (\<lambda>tr. sample_env), CEnv = sample_cenv,
     DebugKeyErr = (\<lambda>k. ''unexpected key format''), DebugOrder = rev\<rparr>"

definition sample_running :: running where
  "sample_running = projr (RunControllerManager sample_context)"

lemma sample_started: "RunControllerManager sample_context = Inr sample_running"
  by (simp add: sample_running_def RunControllerManager_def sample_context_def split: prod.split)

lemma sample_informers_simps [simp]:
  "ManagedClusters sample_informers = managed_clusters" "ManagedClusterSets sample_informers = world_sets"
  "ManagedClusterSetBindings sample_informers = world_bindings" "Placements sample_informers = [world_placement]"
  "AddOnPlacementScores sample_informers = []" "PlacementDecisions sample_informers = store_of []"
  "Informers sample_context = sample_informers" "SchedEnvAt sample_context tr = sample_env"
  "CEnv sample_context = sample_cenv" "DebugOrder sample_context = rev" "ServerMux sample_context = Some []"
  by (simp_all add: sample_informers_def sample_context_def)

lemma sample_caches:
  "wf_cl_items managed_clusters" "wf_cl_items world_sets" "wf_ns_items [world_placement]"
  using world_cached world_placement_ok(3)
  by (simp_all add: wf_cl_items_def managed_clusters_def member_def wf_cl_meta_def slash_def wf_ns_items_def
      cached_def)

lemma world_well_configured: "well_configured world_placement"
proof -
  have "Predicates (Spec world_placement) = []" "tolerations_valid world_placement" "mode_valid world_placement"
    "configs_valid world_placement"
    by (simp_all add: world_placement_def builder_defs record_builders
        tolerations_valid_def mode_valid_def configs_valid_def)
  moreover have "weights_plain (fst (getWeights defaultPrioritizerConfig world_placement))" by code_simp
  moreover have "case NumberOfClusters (Spec world_placement) of None \<Rightarrow> True | Some n \<Rightarrow> 0 \<le> sint n"
    using world_asks by (simp split: option.split)
  ultimately show ?thesis using world_placement_ok(4) by (simp add: well_configured_def)
qed

lemma managed_available:
  "\<forall>cl \<in> set managed_clusters. available_to world_sets world_bindings world_placement cl"
  by (simp add: available_to_def world_sets_def world_bindings_def managed_clusters_def
      set_matches_def world_placement_def member_def) (simp add: builder_defs record_builders)

text \<open>In the world of theory EndToEnd the scheduler succeeds and two clusters qualify.\<close>

lemma world_run:
  "scheduled_run (with_scheduler world_controller (\<lambda>tr. sample_env) world_handle) [] world_placement res st \<Longrightarrow> code st = Success"
proof -
  assume "scheduled_run (with_scheduler world_controller (\<lambda>tr. sample_env) world_handle) [] world_placement res st"
  then obtain cls where s: "Schedule sample_env (NewPluginScheduler (world_handle [])) world_placement cls = Some (res, st)"
    by (auto simp: scheduled_run_def)
  have "DecisionLister (world_handle []) = cache_ns_lister ''placementdecisions'' (store_of [] [])" by (simp add: world_handle_def)
  from Schedule_success [OF world_well_configured sample_env_ok(1) this, of cls] show ?thesis using s by simp
qed

lemma world_good:
  "card (good_clusters world_clusters world_sets world_bindings sample_env (world_handle []) world_placement) = 2"
proof -
  have e: "eligible sample_env (world_handle []) world_placement (member s n)" for s n
    by (simp add: eligible_def cluster_tolerated_def member_def world_placement_def) (simp add: builder_defs record_builders)
  have "available_to world_sets world_bindings world_placement (member ''s1'' n)"
    "\<not> available_to world_sets world_bindings world_placement (member ''s2'' n)" for n
    by (simp_all add: available_to_def world_sets_def world_bindings_def set_matches_def world_placement_def member_def)
      (simp_all add: builder_defs record_builders)
  then have "available_to world_sets world_bindings world_placement cl \<and> eligible sample_env (world_handle []) world_placement cl
      \<longleftrightarrow> cl \<noteq> member ''s2'' ''c3''" if "cl \<in> set world_clusters" for cl
    using that e by (auto simp: world_clusters_def)
  then have "good_clusters world_clusters world_sets world_bindings sample_env (world_handle []) world_placement =
      set world_clusters - {member ''s2'' ''c3''}"
    unfolding good_clusters_def by blast
  moreover have "member ''s1'' n \<noteq> member ''s2'' ''c3''" if "n \<noteq> ''c3''" for n
    using that by (auto simp: member_def dest!: arg_cong [of _ _ Name])
  ultimately have "good_clusters world_clusters world_sets world_bindings sample_env (world_handle []) world_placement =
      {member ''s1'' ''c1'', member ''s1'' ''c2''}"
    by (simp add: world_clusters_def insert_Diff_if)
  moreover have "Name (member ''s1'' ''c1'') \<noteq> Name (member ''s1'' ''c2'')" by (simp add: member_def)
  ultimately show ?thesis by (metis card_2_iff)
qed

theorem sync_places_witness:
  "\<exists>acts. sync (fresh_server (with_scheduler world_controller (\<lambda>tr. sample_env) world_handle) no_failures [])
      (placement_queue_key world_placement) [] = Some (None, acts) \<and> card (placed (decs_of [] acts) (''ns'', ''p'')) = 1"
proof -
  have k: "placement_key world_placement = (''ns'', ''p'')" by (simp add: placement_key_def world_placement_def)
  have "asked world_placement 2 = 1" by (simp add: asked_def world_placement_def builder_defs record_builders)
  then show ?thesis
    using sync_places [where e = "\<lambda>tr. sample_env" and tr = "[]" and h = world_handle,
        OF world_cached world_sets_valid sample_env_ok(1) world_asks world_placement_ok empty_store_inv]
    by (auto simp: k world_good IsError_Some AsError_def Code_def dest!: world_run)
qed

theorem sync_satisfied_iff_witness:
  "\<exists>acts x. sync (fresh_server (with_scheduler world_controller (\<lambda>tr. sample_env) world_handle) no_failures [])
      (placement_queue_key world_placement) [] = Some (None, acts) \<and>
    FindStatusCondition (Conditions (status_after world_placement acts)) PlacementConditionSatisfied = Some x \<and>
    cond_Status x = ConditionTrue"
proof -
  have n: "NumberOfClusters (Spec world_placement) = Some 1" by (simp add: world_placement_def builder_defs record_builders)
  have "good_clusters world_clusters world_sets world_bindings sample_env (world_handle []) world_placement \<noteq> {}"
    using world_good by force
  then show ?thesis
    using sync_satisfied_iff [where e = "\<lambda>tr. sample_env" and tr = "[]" and h = world_handle,
        OF world_cached world_sets_valid sample_env_ok(1) world_asks world_placement_ok empty_store_inv]
    by (auto simp: n world_good IsError_Some AsError_def Code_def dest!: world_run)
qed

theorem debugger_agrees_witness:
  "\<exists>d out pred ranking. (DebugPath, d) \<in> set (the (run_mux sample_running [])) \<and>
    d (DebugPath @ ''ns'' @ [slash] @ ''p'') = Some out \<and> DebugFilterResults out = [pred, ranking]"
proof -
  have c: "cached (run_controller sample_running) managed_clusters world_sets world_bindings"
    using manager_cached [OF sample_started] sample_caches(1,2) by (simp add: sample_cenv_def)
  obtain cls where cls: "placement_clusters (run_controller sample_running) world_placement = Inr cls"
    using placement_clusters_cached [OF c world_sets_valid] world_placement_ok(3) by (auto simp: wf_meta_def)
  define h where "h = NewSchedulerHandler (PlacementDecisions_Lister sample_informers [])
    (cache_ns_lister ''addonplacementscores'' []) (ManagedClusters_Lister sample_informers)"
  have "DecisionLister h = cache_ns_lister ''placementdecisions'' (store_of [] [])"
    by (simp add: h_def NewSchedulerHandler_def PlacementDecisions_Lister_def)
  from Schedule_success [OF world_well_configured sample_env_ok(1) this, of cls] obtain res st where
    run: "scheduler (run_controller sample_running) [] world_placement cls = Some (res, st)" "code st = Success"
    by (auto simp: manager_parts(6) [OF sample_started] h_def)
  have "\<not> IsError (Some st)" using run(2) by (simp add: IsError_Some)
  from debugger_agrees [OF sample_started _ _ _ _ _ _ _ _ _ cls run(1) this, of "the (run_mux sample_running [])"]
  show ?thesis
    using sample_caches world_sets_valid managed_available sample_env_ok(1) manager_parts(9) [OF sample_started, of "[]"]
    by (fastforce simp: world_placement_def sample_cenv_def)
qed

end
