(* ===== verification/Stability.thy ===== *)
theory Stability
  imports Manager
begin

text \<open>
  Scheduling again. The decisions a run makes are inputs of the next run: the balance prioritizer
  counts the decisions of other placements, the steady prioritizer rewards the placement's own, the
  taint filter lets them pass some taints. The theorem of this theory is that the next run, with
  those decisions in place and nothing else changed, chooses the same clusters, whatever decisions
  there were before: a reconciliation does not undo the one before it.
\<close>

section \<open>The best of a list\<close>

lemma take_sort_before:
  fixes f :: "'a \<Rightarrow> 'b::linorder"
  assumes "inj_on f (set xs)" "x \<in> set (take k (sort_key f xs))" "y \<in> set xs - set (take k (sort_key f xs))"
  shows "f x < f y"
proof -
  let ?s = "sort_key f xs"
  have s: "take k ?s @ drop k ?s = ?s" by simp
  then have "set (take k ?s) \<union> set (drop k ?s) = set xs" by (metis set_append set_sort)
  then have y: "y \<in> set (drop k ?s)" and x: "x \<in> set xs" using assms(2,3) by auto
  have "sorted (map f (take k ?s @ drop k ?s))" unfolding s by simp
  then have "f x \<le> f y" using assms(2) y by (auto simp: sorted_append simp del: append_take_drop_id)
  moreover have "f x \<noteq> f y" using inj_onD [OF assms(1), of x y] x assms(2,3) by auto
  ultimately show ?thesis by simp
qed

text \<open>The first entries of a list sorted by an injective key are characterised by being before the
  rest.\<close>

lemma take_sort_unique:
  fixes f :: "'a \<Rightarrow> 'b::linorder"
  assumes xs: "distinct xs" "inj_on f (set xs)" and T: "T \<subseteq> set xs" "card T = min k (length xs)"
    and before: "\<And>x y. x \<in> T \<Longrightarrow> y \<in> set xs - T \<Longrightarrow> f x < f y"
  shows "set (take k (sort_key f xs)) = T"
proof -
  let ?s = "sort_key f xs" and ?A = "set (take k (sort_key f xs))"
  have d: "distinct ?s" "set ?s = set xs" using xs(1) by simp_all
  have A: "?A \<subseteq> set xs" "card ?A = min k (length xs)"
    using set_take_subset [of k ?s] distinct_card [of "take k ?s"] d by simp_all
  have fin: "finite ?A" "finite T" using T(1) finite_subset by auto
  note order = take_sort_before [OF xs(2)]
  have "?A \<subseteq> T"
  proof (rule ccontr)
    assume "\<not> ?A \<subseteq> T"
    then obtain a where a: "a \<in> ?A" "a \<notin> T" by blast
    have "\<not> T \<subseteq> ?A"
    proof
      assume "T \<subseteq> ?A"
      then have "T = ?A" using card_subset_eq [OF fin(1)] A(2) T(2) by simp
      then show False using a by simp
    qed
    then obtain t where t: "t \<in> T" "t \<notin> ?A" by blast
    have "f a < f t" using order [OF a(1)] t T(1) by blast
    moreover have "f t < f a" using before [OF t(1)] a A(1) by blast
    ultimately show False by simp
  qed
  then show ?thesis using card_subset_eq [OF fin(2), of ?A] A(2) T(2) by simp
qed

text \<open>The first entries stay the first when they gain and the others lose.\<close>

lemma take_sort_stable:
  fixes f f' :: "'a \<Rightarrow> 'b::linorder"
  assumes xs: "distinct xs" "inj_on f (set xs)" "inj_on f' (set xs)"
    and gain: "\<And>x y. x \<in> set (take k (sort_key f xs)) \<Longrightarrow> y \<in> set xs - set (take k (sort_key f xs)) \<Longrightarrow>
      f x < f y \<Longrightarrow> f' x < f' y"
  shows "set (take k (sort_key f' xs)) = set (take k (sort_key f xs))"
proof (rule take_sort_unique [OF xs(1,3)])
  let ?s = "sort_key f xs"
  show "set (take k ?s) \<subseteq> set xs" using set_take_subset [of k ?s] by simp
  show "card (set (take k ?s)) = min k (length xs)"
    using distinct_card [of "take k ?s"] xs(1) by simp
  fix x y assume xy: "x \<in> set (take k ?s)" "y \<in> set xs - set (take k ?s)"
  show "f' x < f' y" by (rule gain [OF xy take_sort_before [OF xs(2) xy]])
qed

section \<open>The inputs of the next run\<close>

definition own_names :: "Placement \<Rightarrow> PlacementDecision list \<Rightarrow> string set" where
  "own_names p ds = {n. \<exists>d \<in> set ds. Namespace d = Namespace p \<and> label_of d = Some (Name p) \<and>
     n \<in> ClusterName ` set (Decisions d)}"

text \<open>The handle of the next run: the same scores, the same decisions of the other placements, and
  \<open>S\<close> as the clusters of the placement.\<close>

definition after_run :: "Placement \<Rightarrow> string set \<Rightarrow> Handle \<Rightarrow> Handle \<Rightarrow> bool" where
  "after_run p S h h' \<longleftrightarrow> ScoreLister h' = ScoreLister h \<and> (\<exists>r r' ds ds'.
     DecisionLister h = cache_ns_lister r ds \<and> DecisionLister h' = cache_ns_lister r' ds' \<and>
     mset (other_choices p ds') = mset (other_choices p ds) \<and> own_names p ds' = S)"

text \<open>No taint depends on the decisions.\<close>

definition plain_taints :: "ManagedCluster list \<Rightarrow> bool" where
  "plain_taints cs \<longleftrightarrow> (\<forall>c \<in> set cs. \<forall>t \<in> set (Taints c). taint_effect t \<noteq> TaintEffectNoSelectIfNew)"

text \<open>The weight of the steady prioritizer is not negative.\<close>

definition steady_not_negative :: "Placement \<Rightarrow> bool" where
  "steady_not_negative p \<longleftrightarrow> (let ws = fst (getWeights defaultPrioritizerConfig p) in
     \<forall>scp \<in> set (enabled ws). snd scp = SteadyPrioritizer \<longrightarrow> 0 \<le> sint (weight_of ws (fst scp)))"

lemma eligible_plain:
  assumes "plain_taints cs" "c \<in> set cs"
  shows "eligible e h' p c = eligible e h p c"
proof -
  have "taint_tolerated now t tols b = taint_tolerated now t tols b'" if "t \<in> set (Taints c)" for now t tols b b'
    using assms that by (auto simp: plain_taints_def taint_tolerated_def)
  then have "cluster_tolerated now c tols b = cluster_tolerated now c tols b'" for now tols b b'
    unfolding cluster_tolerated_def by blast
  then show ?thesis unfolding eligible_def by blast
qed

lemma count_list_mset: "mset xs = mset ys \<Longrightarrow> count_list xs n = count_list ys n"
  by (metis count_mset)

lemma balance_after_run:
  assumes "DecisionLister h = cache_ns_lister r ds" "DecisionLister h' = cache_ns_lister r' ds'"
    "mset (other_choices p ds') = mset (other_choices p ds)"
  shows "balance_Score e h' p cs = balance_Score e h p cs"
proof -
  have "set (other_choices p ds') = set (other_choices p ds)" using assms(3) by (metis set_mset_mset)
  then have "count_decisions p ds' = count_decisions p ds"
    unfolding count_decisions_eq using count_list_mset [OF assms(3)]
    by (simp add: count_map_def max_count_def fun_eq_iff)
  moreover have "ListAll xs Everything = xs" for xs :: "PlacementDecision list" by (simp add: ListAll_eq)
  ultimately show ?thesis by (simp add: balance_Score_def assms(1,2))
qed

lemma steady_scores:
  assumes "DecisionLister h = cache_ns_lister r ds" "Namespace p \<noteq> []" "is_valid_label_value (Name p)"
  shows "get0 (PScores (fst (steady_Score e h p cs))) n =
      (if n \<in> Name ` set cs \<and> n \<in> own_names p ds then 100 else 0)"
    "code (snd (steady_Score e h p cs)) = Success"
proof -
  obtain xs where xs: "own_pds h p xs"
    "set xs = {d \<in> set ds. Namespace d = Namespace p \<and> ObjLabels d PlacementLabel = Some (Name p)}"
    using own_pds_cache [OF assms placement_label_ok] by blast
  have "set (collect_decisions xs) = own_names p ds"
    by (auto simp: xs(2) own_names_def)
  then show "get0 (PScores (fst (steady_Score e h p cs))) n =
      (if n \<in> Name ` set cs \<and> n \<in> own_names p ds then 100 else 0)"
    by (simp add: steady_Score_ok [OF xs(1)] get0_def MaxClusterScore_def)
  show "code (snd (steady_Score e h p cs)) = Success" by (simp add: steady_Score_ok [OF xs(1)])
qed

text \<open>Every other prioritizer gives the scores it gave before.\<close>

lemma other_scores_after_run:
  assumes "after_run p S h h'" "pr \<noteq> SteadyPrioritizer"
  shows "prioritizer_Score pr e h' p cs = prioritizer_Score pr e h p cs"
proof (cases pr)
  case BalancePrioritizer
  obtain r r' ds ds' where "DecisionLister h = cache_ns_lister r ds" "DecisionLister h' = cache_ns_lister r' ds'"
    "mset (other_choices p ds') = mset (other_choices p ds)"
    using assms(1) unfolding after_run_def by blast
  from balance_after_run [OF this] show ?thesis by (simp add: BalancePrioritizer)
next
  case (AddOnPrioritizer a)
  have s: "ScoreLister h' = ScoreLister h" using assms(1) by (simp add: after_run_def)
  have "addon_step e h' a = addon_step e h a" by (intro ext) (simp add: addon_step_def s)
  then show ?thesis using AddOnPrioritizer by (simp add: addon_Score_def)
qed (use assms(2) in \<open>simp_all add: resource_Score_def\<close>)

section \<open>The next run\<close>

text \<open>The score of a chosen cluster does not fall, that of another does not rise.\<close>

lemma score_after_run:
  assumes ok: "\<not> sched_fail e (NewPluginScheduler h) p cs" "\<not> sched_fail e (NewPluginScheduler h') p cs"
    and lim: "distinct (map Name cs)" "valid_scores h" "moderate_clusters cs" "weights_in_limits p"
      "length (Configurations (Policy (Spec p))) \<le> 2 ^ 40"
    and p: "plain_taints cs" "steady_not_negative p" "Namespace p \<noteq> []" "is_valid_label_value (Name p)"
    and after: "after_run p S h h'"
  shows "n \<in> S \<Longrightarrow> sint (cluster_score e (NewPluginScheduler h) p cs n) \<le> sint (cluster_score e (NewPluginScheduler h') p cs n)"
    and "n \<notin> S \<Longrightarrow> sint (cluster_score e (NewPluginScheduler h') p cs n) \<le> sint (cluster_score e (NewPluginScheduler h) p cs n)"
proof -
  let ?ws = "fst (getWeights defaultPrioritizerConfig p)" and ?F = "filter (eligible e h p) cs"
  have F: "filter (eligible e h' p) cs = ?F" by (rule filter_cong) (simp_all add: eligible_plain [OF p(1)])
  have vs: "valid_scores h'" using lim(2) after by (simp add: valid_scores_def after_run_def)
  obtain r r' ds ds' where d: "DecisionLister h = cache_ns_lister r ds" "DecisionLister h' = cache_ns_lister r' ds'"
    "own_names p ds' = S" using after unfolding after_run_def by blast
  have up: "sint (get0 (score_map e h p ?F scp) n) * sint (weight_of ?ws (fst scp)) \<le>
      sint (get0 (score_map e h' p ?F scp) n) * sint (weight_of ?ws (fst scp))" (is "?T h scp \<le> ?T h' scp")
    if "n \<in> S" "scp \<in> set (enabled ?ws)" for scp
  proof (cases "snd scp = SteadyPrioritizer")
    case False
    then show ?thesis by (simp add: other_scores_after_run [OF after])
  next
    case True
    then have "0 \<le> sint (weight_of ?ws (fst scp))" using p(2) that(2) by (simp add: steady_not_negative_def Let_def)
    then show ?thesis using True that(1) d(3)
      by (simp add: steady_scores [OF d(1) p(3,4)] steady_scores [OF d(2) p(3,4)])
  qed
  have down: "sint (get0 (score_map e h' p ?F scp) n) * sint (weight_of ?ws (fst scp)) \<le>
      sint (get0 (score_map e h p ?F scp) n) * sint (weight_of ?ws (fst scp))"
    if "n \<notin> S" "scp \<in> set (enabled ?ws)" for scp
  proof (cases "snd scp = SteadyPrioritizer")
    case False
    then show ?thesis by (simp add: other_scores_after_run [OF after])
  next
    case True
    then have "0 \<le> sint (weight_of ?ws (fst scp))" using p(2) that(2) by (simp add: steady_not_negative_def Let_def)
    then show ?thesis using True that(1) d(3)
      by (simp add: steady_scores [OF d(1) p(3,4)] steady_scores [OF d(2) p(3,4)])
  qed
  note e1 = cluster_score_exact(1) [OF ok(1) lim]
    and e2 = cluster_score_exact(1) [OF ok(2) lim(1) vs lim(3-5), unfolded F]
  show "n \<in> S \<Longrightarrow> sint (cluster_score e (NewPluginScheduler h) p cs n) \<le> sint (cluster_score e (NewPluginScheduler h') p cs n)"
    unfolding e1 e2 by (intro sum_list_mono up)
  show "n \<notin> S \<Longrightarrow> sint (cluster_score e (NewPluginScheduler h') p cs n) \<le> sint (cluster_score e (NewPluginScheduler h) p cs n)"
    unfolding e1 e2 by (intro sum_list_mono down)
qed

lemma sched_code_after_run:
  assumes after: "after_run p S h h'" and p: "plain_taints cs" "Namespace p \<noteq> []" "is_valid_label_value (Name p)"
    and ok: "\<not> sched_fail e (NewPluginScheduler h) p cs"
  shows "\<not> sched_fail e (NewPluginScheduler h') p cs"
    "sched_code e (NewPluginScheduler h') p cs = sched_code e (NewPluginScheduler h) p cs"
    "feasible e (NewPluginScheduler h') p cs = feasible e (NewPluginScheduler h) p cs"
proof -
  let ?s = "NewPluginScheduler h" and ?s' = "NewPluginScheduler h'"
  have w: "sched_weights ?s' p = sched_weights ?s p" by (simp add: sched_weights_def)
  have cf: "config_fail e ?s' p cs = config_fail e ?s p cs"
    unfolding config_fail_def w NewPluginScheduler_simps run_two_filters_isl ..
  have nc: "\<not> config_fail e ?s p cs" using ok by (simp add: sched_fail_def)
  have f: "feasible e ?s p cs = filter (eligible e h p) cs" by (rule feasible_eligible [OF ok])
  have f': "feasible e ?s' p cs = filter (eligible e h' p) cs"
    using config_fail_feasible [of e ?s' p cs] nc cf by (intro two_filters) simp
  show F: "feasible e ?s' p cs = feasible e ?s p cs"
    unfolding f f' by (rule filter_cong) (simp_all add: eligible_plain [OF p(1)])
  obtain r r' ds ds' where d: "DecisionLister h = cache_ns_lister r ds" "DecisionLister h' = cache_ns_lister r' ds'"
    using after unfolding after_run_def by blast
  have st: "code (score_status e h' p cs' scp) = code (score_status e h p cs' scp)" for cs' scp
    by (cases "snd scp = SteadyPrioritizer")
      (simp_all add: other_scores_after_run [OF after] steady_scores [OF d(1) p(2,3)] steady_scores [OF d(2) p(2,3)])
  have sf: "scores_fail e h' p cs' prs = scores_fail e h p cs' prs" for cs' prs
    by (simp add: scores_fail_def IsError_Some st)
  show nf: "\<not> sched_fail e ?s' p cs" using ok by (simp add: sched_fail_def cf w F sf)
  have "code ` score_status e h' p cs' ` set prs = code ` score_status e h p cs' ` set prs" for cs' prs
    by (simp add: image_image st)
  then show "sched_code e ?s' p cs = sched_code e ?s p cs"
    using ok nf by (simp add: sched_code_def cf w F)
qed

lemma inj_rank: "distinct (map Name xs) \<Longrightarrow> inj_on (rank e s p cs) (set xs)"
  by (auto simp: inj_on_def rank_def distinct_map)

lemma selectClusters_decide:
  "selectClusters p cs = Some ds \<Longrightarrow>
     ds = map (\<lambda>c. \<lparr>ClusterName = Name c, DecisionReason = ''''\<rparr>) (take (wanted p cs) cs)"
  by (auto simp: selectClusters_def wanted_def Let_def split: option.splits if_splits)

lemma wanted_length: "length cs = length cs' \<Longrightarrow> wanted p cs = wanted p cs'"
  by (simp add: wanted_def split: option.split)

lemma Schedule_again:
  assumes e: "env_orders e" and run: "Schedule e (NewPluginScheduler h) p cs = Some (r, st)" "\<not> IsError (Some st)"
    and lim: "distinct (map Name cs)" "valid_scores h" "moderate_clusters cs" "weights_in_limits p"
      "length (Configurations (Policy (Spec p))) \<le> 2 ^ 40"
    and p: "plain_taints cs" "steady_not_negative p" "Namespace p \<noteq> []" "is_valid_label_value (Name p)"
    and after: "after_run p (ClusterName ` set (sched_Decisions r)) h h'"
  shows "\<exists>r' st'. Schedule e (NewPluginScheduler h') p cs = Some (r', st') \<and> code st' = code st \<and>
    mset (sched_Decisions r') = mset (sched_Decisions r) \<and> NumOfUnscheduled r' = NumOfUnscheduled r"
proof -
  let ?s = "NewPluginScheduler h" and ?s' = "NewPluginScheduler h'"
  let ?R = "ranked e ?s p cs" and ?R' = "ranked e ?s' p cs" and ?F = "feasible e ?s p cs"
  let ?D = "\<lambda>c. \<lparr>ClusterName = Name (c :: ManagedCluster), DecisionReason = ''''\<rparr>"
  define k where "k = wanted p ?R"
  from run(1) e have ok: "\<not> sched_fail e ?s p cs" "code st = sched_code e ?s p cs"
    "selectClusters p ?R = Some (scheduledDecisions r)" "unscheduledDecisions r = unscheduled_of p (scheduledDecisions r)"
    by (cases rule: Schedule_cases, use run(2) in auto)+
  note again = sched_code_after_run [OF after p(1,3,4) ok(1)]
  have ds: "scheduledDecisions r = map ?D (take k ?R)" unfolding k_def by (rule selectClusters_decide [OF ok(3)])
  then have S: "ClusterName ` set (sched_Decisions r) = Name ` set (take k ?R)"
    by (simp add: sched_Decisions_def image_image)
  have dF: "distinct (map Name ?F)"
    unfolding feasible_eligible [OF ok(1)] using lim(1) by (simp add: distinct_map_filter)
  have F': "feasible e ?s' p cs = ?F" by (rule again(3))
  have sub: "set (take k ?R) \<subseteq> set ?F" using set_take_subset [of k ?R] by simp
  have "set (take k (sort_key (rank e ?s' p cs) ?F)) = set (take k (sort_key (rank e ?s p cs) ?F))"
  proof (rule take_sort_stable)
    show "distinct ?F" "inj_on (rank e ?s p cs) (set ?F)" "inj_on (rank e ?s' p cs) (set ?F)"
      using dF inj_rank by (auto simp: distinct_map)
    fix x y
    assume "x \<in> set (take k (sort_key (rank e ?s p cs) ?F))" "y \<in> set ?F - set (take k (sort_key (rank e ?s p cs) ?F))"
      and less: "rank e ?s p cs x < rank e ?s p cs y"
    then have xy: "x \<in> set (take k ?R)" "y \<in> set ?F" "y \<notin> set (take k ?R)" by (simp_all add: ranked_def)
    have "Name y \<notin> Name ` set (take k ?R)"
      using dF xy sub by (auto simp: distinct_map dest: inj_onD)
    then have "sint (cluster_score e ?s' p cs (Name y)) \<le> sint (cluster_score e ?s p cs (Name y))"
      by (intro score_after_run(2) [OF ok(1) again(1) lim p after]) (simp add: S)
    moreover have "sint (cluster_score e ?s p cs (Name x)) \<le> sint (cluster_score e ?s' p cs (Name x))"
      using xy(1) by (intro score_after_run(1) [OF ok(1) again(1) lim p after]) (simp add: S)
    ultimately show "rank e ?s' p cs x < rank e ?s' p cs y"
      using less by (auto simp: rank_def)
  qed
  then have same: "set (take k ?R') = set (take k ?R)" by (simp add: ranked_def F')
  have k': "wanted p ?R' = k" unfolding k_def by (rule wanted_length) (simp add: F')
  obtain ds' where sel: "selectClusters p ?R' = Some ds'"
    using ok(3) selectClusters_None_iff by (metis not_None_eq option.distinct(1))
  from Schedule_ok [OF again(1) e] sel obtain r' st' where r': "Schedule e ?s' p cs = Some (r', st')"
    "code st' = sched_code e ?s' p cs" "scheduledDecisions r' = ds'" "unscheduledDecisions r' = unscheduled_of p ds'"
    by force
  have "ds' = map ?D (take k ?R')" using selectClusters_decide [OF sel] k' by simp
  moreover have "mset (take k ?R') = mset (take k ?R)"
  proof -
    have "distinct ?R" "distinct ?R'" using dF by (simp_all add: ranked_def F' distinct_map)
    then show ?thesis using same by (simp add: set_eq_iff_mset_eq_distinct [symmetric])
  qed
  ultimately have m: "mset (sched_Decisions r') = mset (sched_Decisions r)"
    by (simp add: sched_Decisions_def r'(3) ds)
  then have "length (scheduledDecisions r') = length (scheduledDecisions r)"
    unfolding sched_Decisions_def by (rule mset_eq_length)
  then have "NumOfUnscheduled r' = NumOfUnscheduled r"
    unfolding NumOfUnscheduled_def ok(4) r'(4) r'(3) [symmetric]
    by (cases "NumberOfClusters (Spec p)") (simp_all add: unscheduled_of_def)
  then show ?thesis using r'(1,2) m again(2) ok(2) by simp
qed

text \<open>C28: scheduling is stable. A second run, when the decisions of the first are in place and nothing
  else has changed, chooses the same clusters and ends with the same status, whatever the decisions
  were before the first: provided no taint depends on the decisions and the weight of the steady
  prioritizer is not negative (with a negative weight the choice can flip for ever).\<close>

theorem Schedule_stable:
  assumes "env_orders e" "Schedule e (NewPluginScheduler h) p cs = Some (r, st)" "\<not> IsError (Some st)"
    "distinct (map Name cs)" "valid_scores h" "moderate_clusters cs" "weights_in_limits p"
    "length (Configurations (Policy (Spec p))) \<le> 2 ^ 40" "plain_taints cs" "steady_not_negative p"
    "Namespace p \<noteq> []" "is_valid_label_value (Name p)" "after_run p (ClusterName ` set (sched_Decisions r)) h h'"
  shows "\<exists>r' st'. Schedule e (NewPluginScheduler h') p cs = Some (r', st') \<and> code st' = code st \<and>
    mset (sched_Decisions r') = mset (sched_Decisions r) \<and> NumOfUnscheduled r' = NumOfUnscheduled r"
  by (rule Schedule_again [OF assms])

text \<open>The choice of one of two clusters, and the choice after it is written down.\<close>

lemma world_limits:
  "valid_scores (sample_handle ds [] cs)" "moderate_clusters managed_clusters" "weights_in_limits world_placement"
  "length (Configurations (Policy (Spec world_placement))) \<le> 2 ^ 40" "plain_taints managed_clusters"
  "steady_not_negative world_placement" "distinct (map Name managed_clusters)"
proof -
  show "valid_scores (sample_handle ds [] cs)"
    by (auto simp: valid_scores_def cache_ns_lister_def GetByKey_def)
  show "moderate_clusters managed_clusters"
    by (simp add: moderate_clusters_def moderate_amounts_def allocatable_amounts_def getClusterResource_def
        managed_clusters_def member_def builder_defs record_builders)
  show "weights_in_limits world_placement" "length (Configurations (Policy (Spec world_placement))) \<le> 2 ^ 40"
    by (simp_all add: weights_in_limits_def world_placement_def builder_defs record_builders)
  show "plain_taints managed_clusters" "distinct (map Name managed_clusters)"
    by (simp_all add: plain_taints_def managed_clusters_def member_def builder_defs record_builders)
  show "steady_not_negative world_placement" by code_simp
qed

theorem Schedule_stable_witness:
  "\<exists>r st r' st'. Schedule sample_env (NewPluginScheduler (sample_handle [] [] managed_clusters)) world_placement
      managed_clusters = Some (r, st) \<and>
    Schedule sample_env (NewPluginScheduler (sample_handle
      [sample_decision ''ns'' ''p'' (map ClusterName (sched_Decisions r))] [] managed_clusters)) world_placement
      managed_clusters = Some (r', st') \<and> code st' = Success \<and> mset (sched_Decisions r') = mset (sched_Decisions r)"
proof -
  let ?h = "sample_handle [] [] managed_clusters"
  obtain r st where run: "Schedule sample_env (NewPluginScheduler ?h) world_placement managed_clusters = Some (r, st)"
    "code st = Success"
    using Schedule_success [OF world_well_configured sample_env_ok(1) sample_handle_simps(1)] by blast
  let ?h' = "sample_handle [sample_decision ''ns'' ''p'' (map ClusterName (sched_Decisions r))] [] managed_clusters"
  have own: "own_decision world_placement (sample_decision ''ns'' ''p'' cs)" for cs
    by (simp add: own_decision_def label_value_def world_placement_def)
  have "own_names world_placement [sample_decision ''ns'' ''p'' (map ClusterName (sched_Decisions r))] =
      ClusterName ` set (sched_Decisions r)"
    by (auto simp: own_names_def world_placement_def)
  then have after: "after_run world_placement (ClusterName ` set (sched_Decisions r)) ?h ?h'"
    unfolding after_run_def by (fastforce simp: other_choices_def own)
  have "\<not> IsError (Some st)" using run(2) by (simp add: IsError_Some)
  from Schedule_stable [OF sample_env_ok(1) run(1) this _ _ _ _ _ _ _ _ _ after] show ?thesis
    using run world_limits world_placement_ok(3,4) by (auto simp: wf_meta_def)
qed

text \<open>With a negative weight the choice is never stable: the cluster chosen before loses to the other.\<close>

definition contrary_placement :: Placement where
  "contrary_placement = WithPrioritizerConfig PrioritizerSteady (- 1)
     (WithPrioritizerPolicy PrioritizerPolicyModeExact (WithNOC 1 (NewPlacement ''ns'' ''p'')))"

lemma negative_steady_flips:
  "map_option (\<lambda>(r, st). map ClusterName (sched_Decisions r)) (Schedule sample_env (NewPluginScheduler
     (sample_handle [sample_decision ''ns'' ''p'' [''c1'']] [] [])) contrary_placement managed_clusters) = Some [''c2'']"
  "map_option (\<lambda>(r, st). map ClusterName (sched_Decisions r)) (Schedule sample_env (NewPluginScheduler
     (sample_handle [sample_decision ''ns'' ''p'' [''c2'']] [] [])) contrary_placement managed_clusters) = Some [''c1'']"
  by code_simp+

end
