(* ===== verification/Again.thy ===== *)
theory Again
  imports World Stability
begin

text \<open>
  What a second reconciliation of a placement needs to know of the first: the status of a placement is
  not an input of scheduling, the first leaves the objects of other placements, and the results of two
  runs that chose the same clusters are written down the same way.
\<close>

section \<open>The status of a placement is not an input\<close>

lemma filter_status [simp]: "filter_Filter f e h (p\<lparr>PStatus := x\<rparr>) cs = filter_Filter f e h p cs"
  by (cases f) (simp_all add: predicate_Filter_def taintToleration_Filter_def getDecisionClusterNames_def Let_def
      cong: if_cong sum.case_cong option.case_cong)

lemma filter_requeue_status [simp]: "filter_RequeueAfter f e h (p\<lparr>PStatus := x\<rparr>) = filter_RequeueAfter f e h p"
  by (cases f) (simp_all add: predicate_RequeueAfter_def taintToleration_RequeueAfter_def getDecisionClusters_def
      getDecisionClusterNames_def Let_def cong: if_cong sum.case_cong option.case_cong prod.case_cong)

lemma prioritizer_status [simp]: "prioritizer_Score pr e h (p\<lparr>PStatus := x\<rparr>) cs = prioritizer_Score pr e h p cs"
proof (cases pr)
  case BalancePrioritizer
  have "count_decisions (p\<lparr>PStatus := x\<rparr>) = count_decisions p"
    by (intro ext) (simp add: count_decisions_eq other_choices_def own_decision_def)
  then show ?thesis by (simp add: BalancePrioritizer balance_Score_def Let_def cong: sum.case_cong)
qed (simp_all add: steady_Score_def resource_Score_def addon_Score_def cong: sum.case_cong)

lemma prioritizer_requeue_status [simp]:
  "prioritizer_RequeueAfter pr (p\<lparr>PStatus := x\<rparr>) = prioritizer_RequeueAfter pr p"
  by (cases pr) (simp_all add: balance_RequeueAfter_def steady_RequeueAfter_def resource_RequeueAfter_def
      addon_RequeueAfter_def)

lemma Schedule_status: "Schedule e s (p\<lparr>PStatus := x\<rparr>) cs = Schedule e s p cs"
proof -
  let ?p = "p\<lparr>PStatus := x\<rparr>"
  have f: "filter_step e (handle s) ?p = filter_step e (handle s) p"
    and g: "score_step e (handle s) ?p = score_step e (handle s) p"
    by (intro ext; simp add: filter_step_def score_step_def)+
  have r: "requeue_after e s ?p = requeue_after e s p"
    by (intro ext) (simp add: requeue_after_def)
  have "finish e s ?p = finish e s p"
    by (intro ext) (simp add: finish_def r selectClusters_def Let_def cong: if_cong option.case_cong)
  then show ?thesis by (simp add: Schedule_def f g getWeights_def Let_def cong: if_cong prod.case_cong sum.case_cong)
qed

lemma reconcile_status [simp]:
  "placement_clusters c (p\<lparr>PStatus := x\<rparr>) = placement_clusters c p"
  "run_status c (p\<lparr>PStatus := x\<rparr>) cls r st = run_status c p cls r st"
  "requeue (p\<lparr>PStatus := x\<rparr>) d tr = requeue p d tr"
  "active (p\<lparr>PStatus := x\<rparr>) = active p" "wf_meta (p\<lparr>PStatus := x\<rparr>) = wf_meta p"
  "placement_queue_key (p\<lparr>PStatus := x\<rparr>) = placement_queue_key p"
  "well_configured (p\<lparr>PStatus := x\<rparr>) = well_configured p"
  by (simp_all add: placement_clusters_def run_status_def requeue_def active_def disabled_def wf_meta_def
      getEligibleClusterSets_def placement_queue_key_def MetaNamespaceKey_def well_configured_def
      predicates_valid_def tolerations_valid_def mode_valid_def configs_valid_def getWeights_def Let_def
      cong: if_cong sum.case_cong option.case_cong)

section \<open>The other objects\<close>

text \<open>Such calls leave the other objects as they are.\<close>

lemma own_store_step:
  assumes inv: "hub_inv S" and a: "own_action p a" and wf: "wf_meta p"
  shows "filter (\<lambda>d. \<not> own_decision p d) (store_step S (a, b)) = filter (\<lambda>d. \<not> own_decision p d) S"
proof -
  have own: "own_decision p d" if "d \<in> set S" "pd_key d = (Namespace p, decision_name (Name p) i)" "1 \<le> i" for d i
  proof -
    have "lookup S (Namespace p, decision_name (Name p) i) = Some d"
      using lookup_Some_iff that(1,2) inv by (auto simp: hub_inv_def)
    then have "label_of d = Some (Name p)" using decisions_invD(2) that(3) inv by (auto simp: hub_inv_def)
    then show ?thesis using that(2) by (simp add: own_decision_def label_value_def pd_key_def)
  qed
  show ?thesis
  proof (cases b)
    case b: True
    show ?thesis
    proof (cases a)
      case (CreatePD pd)
      then have "own_decision p (pd\<lparr>Decisions := []\<rparr>)"
        using a by (auto simp: own_action_def own_decision_def label_value_def new_decision_def)
      then show ?thesis using b CreatePD by simp
    next
      case (UpdatePDStatus pd)
      then obtain i where i: "1 \<le> i" "pd_key pd = (Namespace p, decision_name (Name p) i)"
        using a by (auto simp: own_action_def)
      let ?f = "\<lambda>d. if pd_key d = pd_key pd then d\<lparr>Decisions := Decisions pd\<rparr> else d"
      have "filter (\<lambda>d. \<not> own_decision p d) (map ?f xs) = filter (\<lambda>d. \<not> own_decision p d) xs"
        if "\<forall>d \<in> set xs. pd_key d = pd_key pd \<longrightarrow> own_decision p d" for xs
        using that by (induction xs) (auto simp: own_decision_def)
      then show ?thesis using own i b UpdatePDStatus by simp
    next
      case (DeletePD ns n)
      then obtain i where i: "1 \<le> i" "(ns, n) = (Namespace p, decision_name (Name p) i)"
        using a by (auto simp: own_action_def)
      have "filter (\<lambda>d. \<not> own_decision p d) (filter (\<lambda>d. pd_key d \<noteq> (ns, n)) xs) = filter (\<lambda>d. \<not> own_decision p d) xs"
        if "\<forall>d \<in> set xs. pd_key d = (ns, n) \<longrightarrow> own_decision p d" for xs
        using that by (induction xs) auto
      then show ?thesis using own i b DeletePD by simp
    qed (use b in simp_all)
  qed (cases a; simp)
qed

lemma own_store:
  assumes "hub_inv S" "list_all (own_action p \<circ> fst) tr" "list_all (ok_action \<circ> fst) tr" "wf_meta p"
  shows "filter (\<lambda>d. \<not> own_decision p d) (foldl store_step S tr) = filter (\<lambda>d. \<not> own_decision p d) S"
  using assms(1-3)
proof (induction tr arbitrary: S)
  case (Cons x tr)
  obtain a b where x: "x = (a, b)" by fastforce
  then have "hub_inv (store_step S x)" using Cons.prems store_step_inv [of S a b] by simp
  then show ?case using Cons own_store_step [OF Cons.prems(1) _ assms(4), of a b] x by simp
qed simp

lemma own_names_placed:
  assumes "wf_store S"
  shows "own_names p S = placed (lookup S) (placement_key p)"
proof (rule set_eqI)
  fix x
  have l: "lookup S (ns, n) = Some d \<longleftrightarrow> d \<in> set S \<and> Namespace d = ns \<and> Name d = n" for ns n d
    using lookup_Some_iff [OF assms, of "(ns, n)" d] by (simp add: pd_key_def)
  have "x \<in> placed (lookup S) (placement_key p) \<longleftrightarrow> (\<exists>n d. lookup S (Namespace p, n) = Some d \<and>
      label_of d = Some (Name p) \<and> x \<in> ClusterName ` set (Decisions d))"
    by (force simp: placed_def decisions_view_def placement_key_def split: option.splits if_splits)
  also have "\<dots> \<longleftrightarrow> x \<in> own_names p S" unfolding l own_names_def by blast
  finally show "x \<in> own_names p S \<longleftrightarrow> x \<in> placed (lookup S) (placement_key p)" ..
qed

section \<open>A second run\<close>

lemma success_conditions:
  assumes "code st = Success" "code st' = Success"
  shows "newMisconfiguredCondition st' = newMisconfiguredCondition st"
    "newSatisfiedCondition a b c d n u st' = newSatisfiedCondition a b c d n u st"
  using assms by (simp_all add: newMisconfiguredCondition_def newSatisfiedCondition_def Code_def Let_def cong: if_cong)

lemma run_status_success:
  assumes "code st = Success" "code st' = Success" "mset (sched_Decisions r') = mset (sched_Decisions r)"
    "NumOfUnscheduled r' = NumOfUnscheduled r"
  shows "run_status c p cls r' st' = run_status c p cls r st"
  using mset_eq_length [OF assms(3)] assms(4)
  by (simp add: run_status_def success_conditions [OF assms(1,2)] split: sum.split)

lemma Schedule_reasons:
  assumes "env_orders e" "Schedule e s p cs = Some (r, st)" "d \<in> set (sched_Decisions r)"
  shows "DecisionReason d = ''''"
  using assms(2,1)
proof (cases rule: Schedule_cases)
qed (use assms(3) in \<open>auto simp: sched_Decisions_def no_outcome_def dest!: selectClusters_decide\<close>)

lemma wanted_mset:
  assumes "mset ds' = mset ds" "\<forall>d \<in> set ds. DecisionReason d = ''''"
  shows "wanted_decisions p ds' = wanted_decisions p ds"
proof -
  have "set ds' = set ds" using assms(1) by (metis set_mset_mset)
  then have "inj_on ClusterName (set ds')" using assms(2) by (auto intro!: inj_onI)
  then have "sort_key ClusterName ds' = sort_key ClusterName ds"
    by (rule sort_key_inj_key_eq [rotated]) (simp_all add: assms(1))
  then show ?thesis by (simp add: wanted_decisions_def)
qed

lemma placement_clusters_cong:
  assumes "clusterLister c' = clusterLister c" "clusterSetLister c' = clusterSetLister c"
    "clusterSetBindingLister c' = clusterSetBindingLister c" "cenv c' = cenv c"
  shows "placement_clusters c' p = placement_clusters c p" "run_status c' p cls r st = run_status c p cls r st"
proof -
  have steps: "binding_step c' = binding_step c" "available_step c' = available_step c"
    by (intro ext; simp only: binding_step_def available_step_def assms)+
  show "placement_clusters c' p = placement_clusters c p" "run_status c' p cls r st = run_status c p cls r st"
    unfolding placement_clusters_def run_status_def getValidManagedClusterSetBindings_def getAvailableClusters_def
      assms steps by (rule refl)+
qed

lemma moderate_subset: "moderate_clusters cs \<Longrightarrow> set cs' \<subseteq> set cs \<Longrightarrow> moderate_clusters cs'"
  unfolding moderate_clusters_def moderate_amounts_def set_allocatable_amounts by blast

end
