(* ===== verification/Crowding.thy ===== *)
theory Crowding
  imports Again
begin

text \<open>
  How crowded the clusters are: the sum of the squares of the numbers of decisions they have. A run of
  a placement that weighs only the steady prioritizer (positively) and the balance prioritizer (not
  negatively) moves a decision only to a cluster with fewer decisions of others, so it changes its
  clusters only if that makes this sum smaller. It is the potential of the termination proof in theory
  Converge.
\<close>

section \<open>The sum of squares\<close>

definition crowding :: "'a multiset \<Rightarrow> nat" where
  "crowding M = (\<Sum>n\<in>#M. count M n)"

lemma sum_mset_member: "finite T \<Longrightarrow> (\<Sum>n\<in>#M. if n \<in> T then 1 else 0) = (\<Sum>n\<in>T. count M n)"
proof (induction M)
  case (add x M)
  assume fin: "finite T"
  have "(\<Sum>n\<in>T. count (add_mset x M) n) = (\<Sum>n\<in>T. count M n + (if n = x then 1 else 0))"
    by (rule sum.cong) auto
  also have "\<dots> = (\<Sum>n\<in>T. count M n) + (if x \<in> T then 1 else 0)"
    using fin by (simp add: sum.distrib)
  finally show ?case using add.IH fin by simp
qed simp

lemma crowding_add_set:
  assumes "finite T"
  shows "crowding (M + mset_set T) = crowding M + 2 * (\<Sum>n\<in>T. count M n) + card T"
proof -
  have c: "count (M + mset_set T) n = count M n + (if n \<in> T then 1 else 0)" for n
    using assms by (simp add: count_mset_set')
  have "crowding (M + mset_set T) = (\<Sum>n\<in>#M. count M n + (if n \<in> T then 1 else 0)) +
      (\<Sum>n\<in>T. count M n + (if n \<in> T then 1 else 0))"
    unfolding crowding_def c image_mset_union sum_mset.union sum_unfold_sum_mset ..
  moreover have "(\<Sum>n\<in>T. count M n + (if n \<in> T then 1 else 0)) = (\<Sum>n\<in>T. count M n) + card T"
    by (simp add: sum_Suc)
  ultimately show ?thesis
    by (simp add: crowding_def sum_mset.distrib sum_mset_member [OF assms])
qed

text \<open>Exchanging elements for as many smaller ones.\<close>

lemma exchange_less:
  fixes f :: "'a \<Rightarrow> nat"
  assumes fin: "finite S" "finite T" and card: "card T = card S" and ne: "T \<noteq> S"
    and less: "\<And>x y. x \<in> T - S \<Longrightarrow> y \<in> S - T \<Longrightarrow> f x < f y"
  shows "sum f T < sum f S"
proof -
  have inter: "card T = card (S \<inter> T) + card (T - S)" "card S = card (S \<inter> T) + card (S - T)"
    using card_Int_Diff [OF fin(2), of S] card_Int_Diff [OF fin(1), of T] by (simp_all add: Int_commute)
  then have k: "card (T - S) = card (S - T)" using card by simp
  have T: "T - S \<noteq> {}"
  proof
    assume e: "T - S = {}"
    then have "card (S - T) = 0" using k e by (metis card.empty)
    then have "S - T = {}" using fin by simp
    then show False using e ne by blast
  qed
  let ?m = "Max (f ` (T - S))"
  have m: "?m \<in> f ` (T - S)" using T fin by (intro Max_in) simp_all
  have "sum f (T - S) \<le> card (T - S) * ?m" using sum_bounded_above [of "T - S" f ?m] fin by simp
  moreover have "card (S - T) * (?m + 1) \<le> sum f (S - T)"
  proof -
    have "?m + 1 \<le> f y" if "y \<in> S - T" for y using m less [OF _ that] by fastforce
    then show ?thesis using sum_bounded_below [of "S - T" "?m + 1" f] by simp
  qed
  moreover have "0 < card (T - S)" using T fin by (simp add: card_gt_0_iff)
  ultimately have "sum f (T - S) < sum f (S - T)" unfolding k by (simp add: algebra_simps)
  moreover have "sum f T = sum f (S \<inter> T) + sum f (T - S)" "sum f S = sum f (S \<inter> T) + sum f (S - T)"
    using sum.Int_Diff [OF fin(2), of f S] sum.Int_Diff [OF fin(1), of f T] by (simp_all add: Int_commute)
  ultimately show ?thesis by simp
qed

lemma sum_list_less:
  fixes f g :: "'a \<Rightarrow> int"
  assumes "\<And>x. x \<in> set xs \<Longrightarrow> f x \<le> g x" "a \<in> set xs" "f a < g a"
  shows "(\<Sum>x\<leftarrow>xs. f x) < (\<Sum>x\<leftarrow>xs. g x)"
proof -
  obtain us vs where "xs = us @ a # vs" using split_list [OF assms(2)] by blast
  then show ?thesis using assms(1,3) sum_list_mono [of us f g] sum_list_mono [of vs f g] by simp
qed

section \<open>The load of a store\<close>

definition load :: "PlacementDecision list \<Rightarrow> string multiset" where
  "load S = mset (concat (map (\<lambda>d. map ClusterName (Decisions d)) S))"

lemma load_split: "load S = mset (other_choices p S) + load (filter (own_decision p) S)"
  by (induction S) (auto simp: load_def other_choices_def)

text \<open>The objects of a placement that has what it wants hold just the wanted decisions.\<close>

lemma own_decision_label:
  "Name p \<noteq> [] \<Longrightarrow> own_decision p d \<longleftrightarrow> label_of d = Some (Name p) \<and> Namespace d = Namespace p"
  by (auto simp: own_decision_def label_value_def split: option.splits)

lemma own_pairs:
  assumes S: "wf_store S" and p: "Name p \<noteq> []"
  shows "mset (map (\<lambda>d. (Name d, Decisions d)) (filter (own_decision p) S)) =
    mset_set {(n, s). decisions_view (lookup S) (placement_key p) n = Some s}"
proof -
  let ?O = "filter (own_decision p) S" and ?f = "\<lambda>d. (Name d, Decisions d)"
  have ns: "pd_key d = (Namespace p, Name d)" if "d \<in> set ?O" for d
    using that own_decision_label [OF p] by (simp add: pd_key_def)
  have "distinct (map pd_key ?O)" using S by (simp add: wf_store_def distinct_map_filter)
  then have "distinct (map ?f ?O)" using ns by (auto simp: distinct_map inj_on_def)
  moreover have s: "set (map ?f ?O) = {(n, s). decisions_view (lookup S) (placement_key p) n = Some s}"
  proof (rule set_eqI, clarify)
    fix n s
    have "(n, s) \<in> set (map ?f ?O) \<longleftrightarrow> (\<exists>d. lookup S (Namespace p, n) = Some d \<and> label_of d = Some (Name p) \<and> s = Decisions d)"
      unfolding lookup_Some_iff [OF S] by (auto simp: own_decision_label [OF p] pd_key_def)
    also have "\<dots> \<longleftrightarrow> (n, s) \<in> {(n, s). decisions_view (lookup S) (placement_key p) n = Some s}"
      by (auto simp: decisions_view_def placement_key_def split: option.splits)
    finally show "(n, s) \<in> set (map ?f ?O) \<longleftrightarrow> (n, s) \<in> {(n, s). decisions_view (lookup S) (placement_key p) n = Some s}" .
  qed
  ultimately show ?thesis unfolding s [symmetric] by (simp only: mset_set_set)
qed

lemma load_pairs: "load S = (\<Sum>x\<in>#mset (map (\<lambda>d. (Name d, Decisions d)) S). image_mset ClusterName (mset (snd x)))"
  by (induction S) (simp_all add: load_def)

lemma own_load_view:
  assumes "wf_store S" "wf_store S'" "Name p \<noteq> []"
    "decisions_view (lookup S') (placement_key p) = decisions_view (lookup S) (placement_key p)"
  shows "load (filter (own_decision p) S') = load (filter (own_decision p) S)"
  unfolding load_pairs own_pairs [OF assms(1,3)] own_pairs [OF assms(2,3)] assms(4) ..

lemma own_load:
  assumes S: "wf_store S" and p: "Name p \<noteq> []" and v: "decisions_view (lookup S) (placement_key p) = wanted_decisions p ds"
  shows "load (filter (own_decision p) S) = mset (map ClusterName ds)"
proof -
  let ?ss = "decision_slices (sort_key ClusterName ds)"
  let ?g = "\<lambda>i. (decision_name (Name p) (i + 1), ?ss ! i)"
  have s: "{(n, s). decisions_view (lookup S) (placement_key p) n = Some s} = set (map ?g [0..<length ?ss])"
    unfolding v wanted_decisions_Some by auto
  have "distinct (map ?g [0..<length ?ss])" by (simp add: distinct_map inj_on_def)
  then have m: "mset (map (\<lambda>d. (Name d, Decisions d)) (filter (own_decision p) S)) = mset (map ?g [0..<length ?ss])"
    unfolding own_pairs [OF S p] s by (simp only: mset_set_set)
  have "load (filter (own_decision p) S) =
      (\<Sum>s\<in>#mset (map ((!) ?ss) [0..<length ?ss]). image_mset ClusterName (mset s))"
    unfolding load_pairs m by (simp add: multiset.map_comp comp_def)
  also have "\<dots> = image_mset ClusterName (mset (concat xss))" if "xss = ?ss" for xss
    unfolding that [symmetric] map_nth by (induction xss) simp_all
  finally show ?thesis by simp
qed

section \<open>A run\<close>

text \<open>The placement weighs what it has positively, the number of other decisions not negatively, and
  nothing else. The default policy does.\<close>

definition spreading :: "Placement \<Rightarrow> bool" where
  "spreading p \<longleftrightarrow> (let ws = fst (getWeights defaultPrioritizerConfig p) in
     (\<exists>scp \<in> set (enabled ws). snd scp = SteadyPrioritizer) \<and>
     (\<forall>scp \<in> set (enabled ws). snd scp \<in> {SteadyPrioritizer, BalancePrioritizer} \<and> 0 < sint (weight_of ws (fst scp))))"

lemma spreading_steady: "spreading p \<Longrightarrow> steady_not_negative p"
  by (fastforce simp: spreading_def steady_not_negative_def Let_def)

lemma spreading_status [simp]: "spreading (p\<lparr>PStatus := st\<rparr>) \<longleftrightarrow> spreading p"
  by (simp add: spreading_def getWeights_def)

lemma balance_less_loaded:
  assumes d: "DecisionLister h = cache_ns_lister r ds" and n: "x \<in> Name ` set cs" "y \<in> Name ` set cs"
    and less: "sint (get0 (PScores (fst (balance_Score e h p cs))) y) < sint (get0 (PScores (fst (balance_Score e h p cs))) x)"
  shows "count_list (other_choices p ds) x < count_list (other_choices p ds) y"
proof (rule ccontr)
  let ?xs = "other_choices p ds"
  assume "\<not> count_list ?xs x < count_list ?xs y"
  then have le: "int (count_list ?xs y) \<le> int (count_list ?xs x)" by simp
  have l: "lister_list (DecisionLister h) Everything = Inr ds" by (simp add: d ListAll_eq)
  note s = balance_Score_Inr [OF l]
  have yx: "y \<in> set ?xs \<Longrightarrow> x \<in> set ?xs" using le count_pos [of y ?xs] count_list_0 [of x ?xs] by fastforce
  have "sint (get0 (PScores (fst (balance_Score e h p cs))) x) \<le> sint (get0 (PScores (fst (balance_Score e h p cs))) y)"
  proof (cases "y \<in> set ?xs")
    case True
    then show ?thesis using yx n le balance_score_mono [OF count_pos [OF True] le count_le_max [OF yx [OF True]]]
      by (simp add: s get0_def)
  next
    case False
    have "sint (get0 (PScores (fst (balance_Score e h p cs))) x) \<le> sint MaxClusterScore"
      using balance.get0_range [of e h p cs x] by (simp add: in_score_range_def)
    then show ?thesis using False n by (simp add: s get0_def)
  qed
  then show False using less by simp
qed

text \<open>What a run without error chooses.\<close>

lemma chosen:
  assumes "env_orders e" "Schedule e (NewPluginScheduler h) p cs = Some (r, st)" "\<not> IsError (Some st)"
  shows "map ClusterName (sched_Decisions r) = map Name (take (wanted p (filter (eligible e h p) cs)) (ranked e (NewPluginScheduler h) p cs))"
    "NumOfUnscheduled r = unscheduled_of p (sched_Decisions r)"
    "\<not> sched_fail e (NewPluginScheduler h) p cs"
proof -
  from assms(2,1) have r: "\<not> sched_fail e (NewPluginScheduler h) p cs"
    "selectClusters p (ranked e (NewPluginScheduler h) p cs) = Some (scheduledDecisions r)"
    "unscheduledDecisions r = unscheduled_of p (scheduledDecisions r)"
    by (cases rule: Schedule_cases, use assms(3) in auto)+
  show "\<not> sched_fail e (NewPluginScheduler h) p cs" by (rule r(1))
  have "wanted p (ranked e (NewPluginScheduler h) p cs) = wanted p (filter (eligible e h p) cs)"
    using feasible_eligible [OF r(1)] by (intro wanted_length) simp
  then show "map ClusterName (sched_Decisions r) = map Name (take (wanted p (filter (eligible e h p) cs)) (ranked e (NewPluginScheduler h) p cs))"
    using selectClusters_Some(1) [OF r(2)] by (simp add: sched_Decisions_def)
  show "NumOfUnscheduled r = unscheduled_of p (sched_Decisions r)"
    by (simp add: NumOfUnscheduled_def sched_Decisions_def r(3))
qed

lemma chosen_names:
  assumes "env_orders e" "Schedule e (NewPluginScheduler h) p cs = Some (r, st)" "\<not> IsError (Some st)" "distinct (map Name cs)"
  shows "distinct (map ClusterName (sched_Decisions r))"
    "ClusterName ` set (sched_Decisions r) \<subseteq> Name ` {c \<in> set cs. eligible e h p c}"
    "length (sched_Decisions r) = min (wanted p (filter (eligible e h p) cs)) (length (filter (eligible e h p) cs))"
proof -
  note c = chosen [OF assms(1-3)]
  note f = feasible_eligible [OF c(3)]
  show "distinct (map ClusterName (sched_Decisions r))"
    unfolding c(1) take_map [symmetric] by (rule distinct_take [OF distinct_names_ranked [OF assms(4)]])
  have "ClusterName ` set (sched_Decisions r) = set (map ClusterName (sched_Decisions r))" by simp
  also have "\<dots> \<subseteq> Name ` set (ranked e (NewPluginScheduler h) p cs)"
    unfolding c(1) set_map by (rule image_mono [OF set_take_subset])
  also have "\<dots> = Name ` {c \<in> set cs. eligible e h p c}" by (simp add: f)
  finally show "ClusterName ` set (sched_Decisions r) \<subseteq> Name ` {c \<in> set cs. eligible e h p c}" .
  have "length (sched_Decisions r) = length (map ClusterName (sched_Decisions r))" by simp
  also have "\<dots> = min (wanted p (filter (eligible e h p) cs)) (length (filter (eligible e h p) cs))"
    unfolding c(1) using f by (simp add: min.commute)
  finally show "length (sched_Decisions r) = min (wanted p (filter (eligible e h p) cs)) (length (filter (eligible e h p) cs))" .
qed

text \<open>A cluster it takes is less loaded than one it leaves, though it might have kept it.\<close>

lemma takes_less_loaded:
  assumes run: "env_orders e" "Schedule e (NewPluginScheduler h) p cs = Some (r, st)" "\<not> IsError (Some st)"
    and lim: "distinct (map Name cs)" "valid_scores h" "moderate_clusters cs" "weights_in_limits p"
      "length (Configurations (Policy (Spec p))) \<le> 2 ^ 40"
    and p: "spreading p" "Namespace p \<noteq> []" "is_valid_label_value (Name p)"
    and d: "DecisionLister h = cache_ns_lister res ds"
    and x: "x \<in> ClusterName ` set (sched_Decisions r) - own_names p ds"
    and y: "y \<in> own_names p ds - ClusterName ` set (sched_Decisions r)" "y \<in> Name ` {c \<in> set cs. eligible e h p c}"
  shows "count_list (other_choices p ds) x < count_list (other_choices p ds) y"
proof -
  let ?s = "NewPluginScheduler h" and ?F = "filter (eligible e h p) cs" and ?ws = "fst (getWeights defaultPrioritizerConfig p)"
  note c = chosen [OF run]
  let ?k = "wanted p ?F" and ?R = "ranked e ?s p cs"
  have f: "feasible e ?s p cs = ?F" by (rule feasible_eligible [OF c(3)])
  have T: "ClusterName ` set (sched_Decisions r) = Name ` set (take ?k ?R)" using c(1) by (metis set_map)
  obtain cx where cx: "cx \<in> set (take ?k ?R)" "x = Name cx" using x unfolding T by blast
  obtain cy where cy: "cy \<in> set ?F" "y = Name cy" using y(2) by auto
  have dF: "distinct (map Name ?F)" using lim(1) by (simp add: distinct_map_filter)
  have "cy \<notin> set (take ?k ?R)" using y(1) cy(2) unfolding T by blast
  then have "rank e ?s p cs cx < rank e ?s p cs cy"
    using take_sort_before [OF inj_rank [OF dF, of e ?s p cs], of cx ?k cy] cx(1) cy(1) by (simp add: ranked_def f)
  then have le: "sint (cluster_score e ?s p cs y) \<le> sint (cluster_score e ?s p cs x)"
    unfolding cx(2) cy(2) by (auto simp: rank_def)
  have xF: "x \<in> Name ` set ?F" and yF: "y \<in> Name ` set ?F"
    using chosen_names(2) [OF run lim(1)] x y(2) by auto
  let ?t = "\<lambda>n scp. sint (get0 (score_map e h p ?F scp) n) * sint (weight_of ?ws (fst scp))"
  note e = cluster_score_exact(1) [OF c(3) lim]
  show ?thesis
  proof (rule ccontr)
    assume "\<not> ?thesis"
    then have nb: "\<not> sint (get0 (PScores (fst (balance_Score e' h p ?F))) y) < sint (get0 (PScores (fst (balance_Score e' h p ?F))) x)" for e'
      using balance_less_loaded [OF d xF yF] by blast
    have sx: "get0 (PScores (fst (steady_Score e' h p ?F))) x = 0" for e'
      using x by (simp add: steady_scores(1) [OF d p(2,3)])
    have sy: "get0 (PScores (fst (steady_Score e' h p ?F))) y = 100" for e'
      using y(1) yF by (simp add: steady_scores(1) [OF d p(2,3)])
    have all: "snd scp \<in> {SteadyPrioritizer, BalancePrioritizer}" "0 < sint (weight_of ?ws (fst scp))"
      if "scp \<in> set (enabled ?ws)" for scp
      using p(1) that by (auto simp: spreading_def Let_def)
    have t: "?t x scp \<le> ?t y scp" if "scp \<in> set (enabled ?ws)" for scp
      using all [OF that] nb by (auto simp: sx sy not_less intro: mult_right_mono)
    obtain scp where scp: "scp \<in> set (enabled ?ws)" "snd scp = SteadyPrioritizer" using p(1) by (auto simp: spreading_def Let_def)
    have "?t x scp < ?t y scp" using all(2) [OF scp(1)] scp(2) by (simp add: sx sy)
    with t scp(1) have "(\<Sum>scp\<leftarrow>enabled ?ws. ?t x scp) < (\<Sum>scp\<leftarrow>enabled ?ws. ?t y scp)"
      by (rule sum_list_less)
    then show False using le unfolding e by simp
  qed
qed

text \<open>Taking less loaded clusters makes the sum of squares smaller.\<close>

lemma crowding_exchange:
  assumes S: "wf_store S" "wf_store S'" and p: "Name p \<noteq> []"
    and v: "decisions_view (lookup S) (placement_key p) = wanted_decisions p ds"
      "decisions_view (lookup S') (placement_key p) = wanted_decisions p ds'"
    and others: "filter (\<lambda>d. \<not> own_decision p d) S' = filter (\<lambda>d. \<not> own_decision p d) S"
    and ds: "distinct (map ClusterName ds)" "distinct (map ClusterName ds')" "length ds' = length ds"
      "ClusterName ` set ds' \<noteq> ClusterName ` set ds"
    and less: "\<And>x y. x \<in> ClusterName ` set ds' - ClusterName ` set ds \<Longrightarrow> y \<in> ClusterName ` set ds - ClusterName ` set ds' \<Longrightarrow>
      count_list (other_choices p S) x < count_list (other_choices p S) y"
  shows "crowding (load S') < crowding (load S)"
proof -
  let ?O = "mset (other_choices p S)" and ?T = "ClusterName ` set ds" and ?T' = "ClusterName ` set ds'"
  have m: "mset (map ClusterName xs) = mset_set (ClusterName ` set xs)" if "distinct (map ClusterName xs)" for xs
    using mset_set_set [OF that] by simp
  have "load S = ?O + mset_set ?T" unfolding load_split [of S p] own_load [OF S(1) p v(1)] m [OF ds(1)] ..
  moreover have "other_choices p S' = other_choices p S" by (simp add: other_choices_def others)
  then have "load S' = ?O + mset_set ?T'" unfolding load_split [of S' p] own_load [OF S(2) p v(2)] m [OF ds(2)] by simp
  moreover have c: "card ?T = length ds" "card ?T' = length ds'"
    using distinct_card [OF ds(1)] distinct_card [OF ds(2)] by simp_all
  moreover have "(\<Sum>n\<in>?T'. count ?O n) < (\<Sum>n\<in>?T. count ?O n)"
    using c ds(3,4) less by (intro exchange_less) (simp_all add: count_mset)
  ultimately show ?thesis using ds(3) by (simp add: crowding_add_set)
qed

end
