(* ===== verification/Process.thy ===== *)
theory Process
  imports Again
begin

text \<open>
  The process of \<open>RunControllerManager\<close> in the world of theory World: it reads the caches of the world
  (that it is connected to them is what \<open>manager_parts\<close> shows of the wiring), and its own writes come
  back through the informers and put the key of their placement in the queue again. Each of its
  steps consists of steps of the world. A second reconciliation of the same placement is idle.
\<close>

section \<open>The process in the world\<close>

text \<open>The process started by \<open>RunControllerManager\<close> on the caches of the world.\<close>

definition context_of :: "controllerContext \<Rightarrow> hub_world \<Rightarrow> controllerContext" where
  "context_of cc w = cc\<lparr>Informers := \<lparr>ManagedClusters = wClusters w, ManagedClusterSets = wSets w,
     ManagedClusterSetBindings = wBindings w, Placements = wPlacements w, PlacementDecisions = store_of (wStore w),
     AddOnPlacementScores = AddOnPlacementScores (Informers cc)\<rparr>\<rparr>"

definition good_context :: "controllerContext \<Rightarrow> bool" where
  "good_context cc \<longleftrightarrow> list_all (\<lambda>s. list_all valid_score_item (Scores s)) (AddOnPlacementScores (Informers cc)) \<and>
     \<not> isl (NewClusterClient cc) \<and> NewKubeClient cc = None \<and>
     is_iter (AvailableOrder (CEnv cc)) \<and> (\<forall>tr. env_orders (SchedEnvAt cc tr))"

definition hub_handle :: "controllerContext \<Rightarrow> hub_world \<Rightarrow> trace \<Rightarrow> Handle" where
  "hub_handle cc w tr = NewSchedulerHandler (PlacementDecisions_Lister (Informers (context_of cc w)) tr)
     (cache_ns_lister ''addonplacementscores'' (AddOnPlacementScores (Informers cc)))
     (ManagedClusters_Lister (Informers (context_of cc w)))"

lemma context_of_simps [simp]:
  "ManagedClusters (Informers (context_of cc w)) = wClusters w"
  "ManagedClusterSets (Informers (context_of cc w)) = wSets w"
  "ManagedClusterSetBindings (Informers (context_of cc w)) = wBindings w"
  "Placements (Informers (context_of cc w)) = wPlacements w"
  "PlacementDecisions (Informers (context_of cc w)) = store_of (wStore w)"
  "AddOnPlacementScores (Informers (context_of cc w)) = AddOnPlacementScores (Informers cc)"
  "SchedEnvAt (context_of cc w) = SchedEnvAt cc" "CEnv (context_of cc w) = CEnv cc"
  "NewClusterClient (context_of cc w) = NewClusterClient cc" "NewKubeClient (context_of cc w) = NewKubeClient cc"
  by (simp_all add: context_of_def)

lemma process_starts: "good_context cc \<Longrightarrow> \<exists>proc. RunControllerManager (context_of cc w) = Inr proc"
  by (cases "NewClusterClient cc") (auto simp: good_context_def RunControllerManager_def Let_def split: prod.split)

lemma process_connected:
  assumes "good_context cc" "RunControllerManager (context_of cc w) = Inr proc" "wf_world w"
  shows "connected (run_controller proc) w"
    "with_scheduler (run_controller proc) (SchedEnvAt cc) (hub_handle cc w) = run_controller proc"
proof -
  show "connected (run_controller proc) w"
    using manager_cached [OF assms(2)] manager_parts(4) [OF assms(2)] assms(1) wf_world_caches(3,4) [OF assms(3)]
    by (simp add: connected_def good_context_def)
  have "scheduler (run_controller proc) =
      (\<lambda>tr. Schedule (SchedEnvAt cc tr) (NewPluginScheduler (hub_handle cc w tr)))"
    using manager_parts(6) [OF assms(2)] by (simp add: hub_handle_def)
  then show "with_scheduler (run_controller proc) (SchedEnvAt cc) (hub_handle cc w) = run_controller proc"
    by (simp add: with_scheduler_def)
qed


text \<open>Worlds in which scheduling is stable.\<close>

definition steady_policy :: "Placement \<Rightarrow> bool" where
  "steady_policy p \<longleftrightarrow> well_configured p \<and> steady_not_negative p \<and> weights_in_limits p \<and>
     length (Configurations (Policy (Spec p))) \<le> 2 ^ 40"

definition calm :: "hub_world \<Rightarrow> bool" where
  "calm w \<longleftrightarrow> plain_taints (wClusters w) \<and> moderate_clusters (wClusters w) \<and>
     (\<forall>p \<in> set (wPlacements w). active p \<longrightarrow> steady_policy p)"

lemma same_clusters:
  assumes "RunControllerManager (context_of cc w) = Inr proc" "RunControllerManager (context_of cc w') = Inr proc'"
    "wClusters w' = wClusters w" "wSets w' = wSets w" "wBindings w' = wBindings w"
  shows "placement_clusters (run_controller proc') p = placement_clusters (run_controller proc) p"
    "run_status (run_controller proc') p cls r st = run_status (run_controller proc) p cls r st"
  using assms(3-5) manager_parts [OF assms(1)] manager_parts [OF assms(2)]
  by (intro placement_clusters_cong; simp)+

lemma hub_handle_decisions:
  "DecisionLister (hub_handle cc w tr) = cache_ns_lister ''placementdecisions'' (store_of (wStore w) tr)"
  "ScoreLister (hub_handle cc w tr) = cache_ns_lister ''addonplacementscores'' (AddOnPlacementScores (Informers cc))"
  by (simp_all add: hub_handle_def NewSchedulerHandler_def PlacementDecisions_Lister_def)

lemma hub_handle_scores: "good_context cc \<Longrightarrow> valid_scores (hub_handle cc w tr)"
  by (auto simp: valid_scores_def hub_handle_decisions good_context_def cache_ns_lister_def list_all_iff
      dest!: GetByKey_Some split: option.splits)

lemma first_run:
  assumes cc: "good_context cc" and i: "world_inv w" "calm w"
    and proc: "RunControllerManager (context_of cc w) = Inr proc" and p: "p \<in> set (wPlacements w)" "active p"
  obtains cls res st tr where
    "placement_clusters (run_controller proc) p = Inr cls" "distinct (map Name cls)" "set cls \<subseteq> set (wClusters w)"
    "Schedule (SchedEnvAt cc []) (NewPluginScheduler (hub_handle cc w [])) p cls = Some (res, st)" "code st = Success"
    "sync (fresh_server (run_controller proc) no_failures (wStore w)) (placement_queue_key p) [] = Some (None, tr)"
    "decisions_view (decs_of (wStore w) tr) (placement_key p) = wanted_decisions p (sched_Decisions res)"
    "status_after p tr = new_status (CEnv cc) (PStatus p) (word_of_nat (length (sched_Decisions res)))
      (run_status (run_controller proc) p cls res st)"
proof -
  let ?c = "run_controller proc"
  have wf: "wf_world w" and hub: "hub_inv (wStore w)" using i(1) world_hub_inv(1) [OF i(1)] by (simp_all add: world_inv_def)
  note c = process_connected [OF cc proc wf]
  have wfp: "wf_meta p" by (rule wf_world_placements [OF wf p(1)])
  have wc: "well_configured p" using i(2) p by (simp add: calm_def steady_policy_def)
  obtain cls where cls: "placement_clusters ?c p = Inr cls" "distinct (map Name cls)"
    "set cls = {cl \<in> set (wClusters w). available_to (wSets w) (wBindings w) p cl}"
    using connected_clusters [OF c(1) wf p(1), of "SchedEnvAt cc" "hub_handle cc w"] c(2) by metis
  have env: "env_orders (SchedEnvAt cc [])" using cc by (simp add: good_context_def)
  from Schedule_success [OF wc env hub_handle_decisions(1), where cs = cls] obtain res st where
    s: "Schedule (SchedEnvAt cc []) (NewPluginScheduler (hub_handle cc w [])) p cls = Some (res, st)" "code st = Success"
    by blast
  have sch: "scheduler ?c [] p cls = Some (res, st)"
    using s(1) by (subst c(2) [symmetric]) (simp only: with_scheduler_simps)
  have "ns_get (placementLister ?c []) (Namespace p) (Name p) = Inr p"
    using c(1) wf p(1) cache_ns_get by (auto simp: connected_def wf_world_def)
  from sync_scheduled [OF this p(2) wfp _ cls(1) sch hub_inv_decs(2) [OF hub]] wc obtain tr where
    "sync (fresh_server ?c no_failures (wStore w)) (placement_queue_key p) [] = Some (AsError (Some st), tr)"
    "decisions_view (decs_of (wStore w) tr) =
      (decisions_view (decs_of (wStore w) []))(placement_key p := wanted_decisions p (sched_Decisions res))"
    "status_after p tr = new_status (cenv ?c) (PStatus p) (word_of_nat (length (sched_Decisions res)))
      (run_status ?c p cls res st)"
    by (auto simp: well_configured_def)
  moreover have "cenv ?c = CEnv cc" using manager_parts(7) [OF proc] by simp
  moreover have "AsError (Some st) = None" using s(2) by (simp add: AsError_def Code_def)
  ultimately show thesis using that [OF cls(1,2) _ s] cls(3) by auto
qed

text \<open>A reconciliation makes no call when the scheduler chooses what is there and the status says so.\<close>

lemma idle_run:
  assumes cc: "good_context cc" and wf: "wf_world w" "hub_inv (wStore w)"
    and proc: "RunControllerManager (context_of cc w) = Inr proc"
    and p: "p \<in> set (wPlacements w)" "active p" "is_valid_label_value (Name p)"
    and cls: "placement_clusters (run_controller proc) p = Inr cls"
    and run: "Schedule (SchedEnvAt cc []) (NewPluginScheduler (hub_handle cc w [])) p cls = Some (res', st')" "code st' = Success"
    and same: "code st = Success" "mset (sched_Decisions res') = mset (sched_Decisions res)"
      "NumOfUnscheduled res' = NumOfUnscheduled res" "\<forall>d \<in> set (sched_Decisions res). DecisionReason d = ''''"
    and view: "decisions_view (lookup (wStore w)) (placement_key p) = wanted_decisions p (sched_Decisions res)"
    and status: "PStatus p = new_status (CEnv cc) old (word_of_nat (length (sched_Decisions res)))
      (run_status (run_controller proc) p cls res st)"
  shows "sync (fresh_server (run_controller proc) fails (wStore w)) (placement_queue_key p) [] =
    Some (None, requeue p (sched_RequeueAfter res') [])"
proof -
  let ?c = "run_controller proc"
  have wfp: "wf_meta p" by (rule wf_world_placements [OF wf(1) p(1)])
  have c: "connected ?c w" "with_scheduler ?c (SchedEnvAt cc) (hub_handle cc w) = ?c"
    by (rule process_connected [OF cc proc wf(1)])+
  have sch: "scheduler ?c [] p cls = Some (res', st')"
    using run(1) by (subst c(2) [symmetric]) (simp only: with_scheduler_simps)
  have g: "ns_get (placementLister ?c []) (Namespace p) (Name p) = Inr p"
    using cache_ns_get [OF _ p(1), where resource = "''placements''"] c(1) wf(1) by (simp add: connected_def wf_world_def)
  have v: "decisions_view (decs_of (wStore w) []) (placement_key p) = wanted_decisions p (sched_Decisions res')"
    using view wanted_mset [OF same(2,4)] hub_inv_decs(1) [OF wf(2)] by simp
  have q: "PStatus p = new_status (cenv ?c) old (word_of_nat (length (sched_Decisions res'))) (run_status ?c p cls res' st')"
    using status run_status_success [OF same(1) run(2) same(2,3)] mset_eq_length [OF same(2)] manager_parts(7) [OF proc]
    by simp
  have "sync (fresh_server ?c fails (wStore w)) (placement_queue_key p) [] =
      Some (AsError (Some st'), requeue p (sched_RequeueAfter res') [])"
    by (rule sync_idle [OF g p(2) wfp p(3) cls sch v q])
  moreover have "AsError (Some st') = None" using run(2) by (simp add: AsError_def Code_def)
  ultimately show ?thesis by simp
qed

text \<open>The reconciliation of the same placement after its own writes have arrived makes no call.\<close>

lemma second_run:
  assumes cc: "good_context cc" and i: "world_inv w" "calm w"
    and proc: "RunControllerManager (context_of cc w) = Inr proc" and p: "p \<in> set (wPlacements w)" "active p"
    and run: "sync (fresh_server (run_controller proc) no_failures (wStore w)) (placement_queue_key p) [] = Some (r, tr)"
    and w': "wClusters w' = wClusters w" "wSets w' = wSets w" "wBindings w' = wBindings w" "wf_world w'" "hub_inv (wStore w')"
      "wStore w' = store_of (wStore w) tr" "p\<lparr>PStatus := status_after p tr\<rparr> \<in> set (wPlacements w')"
    and own: "list_all (own_action p \<circ> fst) tr" "list_all (ok_action \<circ> fst) tr"
    and proc': "RunControllerManager (context_of cc w') = Inr proc'"
  shows "\<exists>d. sync (fresh_server (run_controller proc') fails (wStore w')) (placement_queue_key p) [] =
    Some (None, requeue p d [])"
proof -
  let ?c = "run_controller proc" and ?c' = "run_controller proc'" and ?p = "p\<lparr>PStatus := status_after p tr\<rparr>"
  let ?h = "hub_handle cc w []" and ?h' = "hub_handle cc w' []"
  have wf: "wf_world w" and hub: "hub_inv (wStore w)" using i(1) world_hub_inv(1) [OF i(1)] by (simp_all add: world_inv_def)
  have wfp: "wf_meta p" by (rule wf_world_placements [OF wf p(1)])
  have sp: "steady_policy p" using i(2) p by (simp add: calm_def)
  then have label: "is_valid_label_value (Name p)" by (simp add: steady_policy_def well_configured_def)
  obtain cls res st where cls: "placement_clusters ?c p = Inr cls" "distinct (map Name cls)" "set cls \<subseteq> set (wClusters w)"
    and s: "Schedule (SchedEnvAt cc []) (NewPluginScheduler ?h) p cls = Some (res, st)" "code st = Success"
    and view: "decisions_view (decs_of (wStore w) tr) (placement_key p) = wanted_decisions p (sched_Decisions res)"
    and status: "status_after p tr = new_status (CEnv cc) (PStatus p) (word_of_nat (length (sched_Decisions res)))
      (run_status ?c p cls res st)"
    using first_run [OF cc i proc p] run by (metis option.inject prod.inject)
  have env: "env_orders (SchedEnvAt cc [])" using cc by (simp add: good_context_def)
  have S': "store_of (wStore w') [] = store_of (wStore w) tr" "store_of (wStore w) [] = wStore w"
    using hub by (simp_all add: w'(6) admit_id hub_inv_def)
  have ds: "store_of (wStore w) tr = foldl store_step (wStore w) tr"
    using S'(2) by (simp add: store_of_def)
  have "own_names p (store_of (wStore w) tr) = placed (decs_of (wStore w) tr) (placement_key p)"
    unfolding decs_of_def by (rule own_names_placed) simp
  also have "\<dots> = ClusterName ` set (sched_Decisions res)" by (rule placed_wanted [OF view])
  finally have names: "own_names p (store_of (wStore w) tr) = ClusterName ` set (sched_Decisions res)" .
  have "other_choices p (store_of (wStore w) tr) = other_choices p (wStore w)"
    unfolding other_choices_def ds own_store [OF hub own wfp] ..
  then have after: "after_run p (ClusterName ` set (sched_Decisions res)) ?h ?h'"
    unfolding after_run_def hub_handle_decisions S' using names by (intro conjI refl exI) simp_all
  have "plain_taints cls" "moderate_clusters cls"
    using i(2) cls(3) by (auto simp: calm_def plain_taints_def intro: moderate_subset)
  moreover have "\<not> IsError (Some st)" using s(2) by (simp add: IsError_Some)
  ultimately obtain r' st' where s': "Schedule (SchedEnvAt cc []) (NewPluginScheduler ?h') p cls = Some (r', st')"
    "code st' = Success" "mset (sched_Decisions r') = mset (sched_Decisions res)" "NumOfUnscheduled r' = NumOfUnscheduled res"
    using Schedule_again [OF env s(1) _ cls(2) hub_handle_scores [OF cc] _ _ _ _ _ _ label after] sp wfp s(2)
    by (auto simp: steady_policy_def wf_meta_def)
  note same = same_clusters [OF proc proc' w'(1-3)]
  have "sync (fresh_server ?c' fails (wStore w')) (placement_queue_key ?p) [] =
      Some (None, requeue ?p (sched_RequeueAfter r') [])"
  proof (rule idle_run [OF cc w'(4,5) proc' w'(7) _ _ _ _ s'(2) s(2) s'(3,4)])
    show "\<forall>d \<in> set (sched_Decisions res). DecisionReason d = ''''" using Schedule_reasons [OF env s(1)] by blast
    show "decisions_view (lookup (wStore w')) (placement_key ?p) = wanted_decisions ?p (sched_Decisions res)"
      using view by (simp add: w'(6) decs_of_def wanted_decisions_def)
  qed (use p(2) label cls(1) same s'(1) status in \<open>simp_all add: Schedule_status\<close>)
  then show ?thesis by auto
qed

section \<open>Own writes come back\<close>

text \<open>One call takes effect and its event arrives.\<close>

definition deliver :: "hub_world \<Rightarrow> action \<times> bool \<Rightarrow> hub_world" where
  "deliver w x =
     (let w1 = w\<lparr>wCache := store_step (wCache w) x, wQueue := decision_event (change_of (wCache w) x) (wQueue w)\<rparr>
      in case x of
        (UpdatePlacementStatus q, True) \<Rightarrow> w1\<lparr>wPlacements := put_obj q (wPlacements w),
          wQueue := queue_Add (wQueue w1) (placement_queue_key q)\<rparr>
      | _ \<Rightarrow> w1)"

text \<open>A worker takes a key and reconciles; nothing fails, nobody else acts, and the informers keep up. A
  key that is added meanwhile waits again.\<close>

inductive undisturbed_step :: "controllerContext \<Rightarrow> string \<Rightarrow> hub_world \<Rightarrow> hub_world \<Rightarrow> bool" for cc key where
  "key \<in> set (wQueue w) \<Longrightarrow> wPending w = [] \<Longrightarrow> RunControllerManager (context_of cc w) = Inr proc \<Longrightarrow>
   sync (fresh_server (run_controller proc) no_failures (wStore w)) key [] = Some (r, tr) \<Longrightarrow>
   w1 = foldl deliver (w\<lparr>wQueue := removeAll key (wQueue w)\<rparr>) tr \<Longrightarrow>
   undisturbed_step cc key w (w1\<lparr>wQueue := if r = None then wQueue w1 else queue_Add (wQueue w1) key\<rparr>)"

definition status_written :: "trace \<Rightarrow> bool" where
  "status_written tr \<longleftrightarrow> (\<exists>q. (UpdatePlacementStatus q, True) \<in> set tr)"

lemma status_unwritten: "\<not> status_written tr \<Longrightarrow> status_after p tr = PStatus p"
proof (induction tr rule: rev_induct)
  case (snoc x tr)
  obtain a b where x: "x = (a, b)" by fastforce
  have "\<not> status_written tr" "\<not> (b \<and> (\<exists>q. a = UpdatePlacementStatus q))"
    using snoc.prems by (auto simp: status_written_def x)
  then show ?case using snoc.IH x by (auto simp: status_after_snoc split: action.splits)
qed (simp add: status_after_def)

lemma queue_Add_twice [simp]: "queue_Add (queue_Add q k) k = queue_Add q k"
  by (simp add: queue_Add_def sets_insert_def)

lemma deliver_placement:
  "deliver w (UpdatePlacementStatus q, True) =
     w\<lparr>wPlacements := put_obj q (wPlacements w), wQueue := queue_Add (wQueue w) (placement_queue_key q)\<rparr>"
  by (cases w) (simp add: deliver_def decision_event_def change_of_def)

lemma deliver_decision:
  "\<not> (b \<and> (\<exists>q. a = UpdatePlacementStatus q)) \<Longrightarrow> deliver (w\<lparr>wCache := S, wPlacements := ps, wQueue := q\<rparr>) (a, b) =
     w\<lparr>wCache := store_step S (a, b), wPlacements := ps, wQueue := decision_event (change_of S (a, b)) q\<rparr>"
  by (cases w; cases a; cases b) (auto simp: deliver_def)

lemma put_obj_twice:
  "MetaNamespaceKey p' = MetaNamespaceKey p \<Longrightarrow> put_obj p' (put_obj p xs) = put_obj p' xs"
  by (simp add: put_obj_def)

text \<open>All events of a reconciliation concern its placement.\<close>

lemma own_event:
  assumes "hub_inv S" "own_action p a" "ok_action a" "wf_meta p"
  shows "(\<forall>q. decision_event (change_of S (a, b)) q = q) \<or>
    (\<forall>q. decision_event (change_of S (a, b)) q = queue_Add q (placement_queue_key p))"
proof (cases "change_of S (a, b)")
  case (Some d)
  then have "about p a"
    using assms(2) by (cases a) (auto simp: own_action_def about_def change_of_def pd_key_def new_decision_def split: if_splits)
  then show ?thesis using change_of_about [OF assms(1,3) _ Some assms(4)] Some by (simp add: decision_event_def)
qed (simp add: decision_event_def)

lemma own_notify:
  assumes "hub_inv S" "list_all (own_action p \<circ> fst) tr" "list_all (ok_action \<circ> fst) tr" "wf_meta p"
  shows "notify S tr q \<in> {q, queue_Add q (placement_queue_key p)}"
  using assms(1-3)
proof (induction tr arbitrary: S q)
  case (Cons x tr)
  obtain a b where x: "x = (a, b)" by fastforce
  have "hub_inv (store_step S x)" using Cons.prems store_step_inv [of S a b] x by simp
  note IH = Cons.IH [OF this]
  have "decision_event (change_of S x) q \<in> {q, queue_Add q (placement_queue_key p)}"
    using own_event [OF Cons.prems(1) _ _ assms(4), of a b] Cons.prems(2,3) x by auto
  then show ?case using IH [of "decision_event (change_of S x) q"] Cons.prems(2,3) by auto
qed simp

lemma deliver_own:
  assumes hub: "hub_inv (wCache w)" and p: "wf_meta p"
    and acts: "list_all (own_action p \<circ> fst) tr" "list_all (ok_action \<circ> fst) tr"
  shows "foldl deliver w tr = w\<lparr>wCache := foldl store_step (wCache w) tr,
     wPlacements := if status_written tr then put_obj (p\<lparr>PStatus := status_after p tr\<rparr>) (wPlacements w) else wPlacements w,
     wQueue := if status_written tr then queue_Add (notify (wCache w) tr (wQueue w)) (placement_queue_key p)
       else notify (wCache w) tr (wQueue w)\<rparr>"
  using acts
proof (induction tr rule: rev_induct)
  case (snoc x tr)
  obtain a b where x: "x = (a, b)" by fastforce
  let ?S = "foldl store_step (wCache w) tr" and ?k = "placement_queue_key p" and ?n = "notify (wCache w) tr (wQueue w)"
  have own: "own_action p a" "ok_action a" using snoc.prems x by simp_all
  have IH: "foldl deliver w tr = w\<lparr>wCache := ?S,
     wPlacements := if status_written tr then put_obj (p\<lparr>PStatus := status_after p tr\<rparr>) (wPlacements w) else wPlacements w,
     wQueue := if status_written tr then queue_Add ?n ?k else ?n\<rparr>"
    using snoc by auto
  have "hub_inv ?S" using hub_inv_foldl [OF hub] snoc.prems(2) by (simp add: comp_def)
  note ev = own_event [OF this own p, of b]
  have sw: "status_written (tr @ [(a, b)]) \<longleftrightarrow> status_written tr \<or> b \<and> (\<exists>q. a = UpdatePlacementStatus q)"
    by (auto simp: status_written_def)
  show ?case
  proof (cases "b \<and> (\<exists>q. a = UpdatePlacementStatus q)")
    case True
    then obtain q st where a: "a = UpdatePlacementStatus q" "q = p\<lparr>PStatus := st\<rparr>" "b"
      using own by (auto simp: own_action_def)
    have "status_after p (tr @ [(a, b)]) = st" using a by (simp add: status_after_snoc)
    then show ?thesis using IH a x sw
      by (simp add: deliver_placement put_obj_twice MetaNamespaceKey_def notify_append change_of_def decision_event_def)
  next
    case False
    then have st: "status_after p (tr @ [x]) = status_after p tr" "status_written (tr @ [x]) = status_written tr"
      by (auto simp: status_after_snoc sw x split: action.splits)
    have c: "decision_event (change_of ?S (a, b)) (queue_Add ?n ?k) = queue_Add (decision_event (change_of ?S (a, b)) ?n) ?k"
      using ev by auto
    have "foldl deliver w (tr @ [x]) = w\<lparr>wCache := store_step ?S (a, b),
        wPlacements := if status_written tr then put_obj (p\<lparr>PStatus := status_after p tr\<rparr>) (wPlacements w) else wPlacements w,
        wQueue := decision_event (change_of ?S (a, b)) (if status_written tr then queue_Add ?n ?k else ?n)\<rparr>"
      unfolding foldl_append foldl.simps IH x deliver_decision [OF False] ..
    then show ?thesis unfolding st by (simp add: c notify_append x)
  qed
qed (simp add: status_written_def)

lemma sync_own:
  assumes "connected c w" "wf_world w" "hub_inv S" "key = placement_queue_key p" "p \<in> set (wPlacements w)"
    and s: "sync (fresh_server (with_scheduler c e h) fails S) key [] = Some (r, tr)"
  shows "list_all (own_action p \<circ> fst) tr" "list_all (ok_action \<circ> fst) tr"
proof -
  show ok: "list_all (ok_action \<circ> fst) tr"
    using sync_ok [OF assms(1,2) s, of "length tr"] by simp
  have inv: "decisions_inv (lookup (admit (store_of S t)))" if "prefix t tr" for t
    using store_of_inv [OF assms(3), of t] ok that by (auto simp: hub_inv_def list_all_iff prefix_def)
  from assms(1,2) s show "list_all (own_action p \<circ> fst) tr"
  proof (cases rule: sync_of_key)
    case absent
    then show ?thesis by simp
  next
    case (present q)
    have "q = p" using assms(2,4,5) present(1,2)
      by (auto simp: wf_world_def wf_ns_items_def distinct_map placement_queue_key_def dest: inj_onD)
    then show ?thesis
      using syncPlacement_own [OF present(3) _ inv] wf_world_placements [OF assms(2)] present(1) by simp
  qed
qed

lemma put_status_wf:
  assumes "wf_world w" "p \<in> set (wPlacements w)"
  shows "wf_world (w\<lparr>wPlacements := put_obj (p\<lparr>PStatus := st\<rparr>) (wPlacements w)\<rparr>)"
proof -
  have "wf_ns_items (put_obj (p\<lparr>PStatus := st\<rparr>) (wPlacements w))"
    using assms wf_world_placements [OF assms] unfolding put_obj_def wf_world_def wf_ns_items_def
    by (auto simp: distinct_map_filter list_all_iff)
  then show ?thesis using assms unfolding wf_world_def wf_caches_def by auto
qed

text \<open>What a step of the process does.\<close>

lemma undisturbed_form:
  assumes cc: "good_context cc" and i: "world_inv w" and s: "undisturbed_step cc key w w'"
  obtains (absent) proc where "\<forall>p \<in> set (wPlacements w). placement_queue_key p \<noteq> key" "key \<in> set (wQueue w)"
      "wPending w = []" "RunControllerManager (context_of cc w) = Inr proc"
      "sync (fresh_server (run_controller proc) no_failures (wStore w)) key [] = Some (None, [])"
      "w' = w\<lparr>wQueue := removeAll key (wQueue w)\<rparr>"
    | (present) p proc r tr q where "p \<in> set (wPlacements w)" "key = placement_queue_key p" "key \<in> set (wQueue w)"
      "wPending w = []" "RunControllerManager (context_of cc w) = Inr proc"
      "sync (fresh_server (run_controller proc) no_failures (wStore w)) key [] = Some (r, tr)"
      "list_all (own_action p \<circ> fst) tr" "list_all (ok_action \<circ> fst) tr"
      "q = notify (wStore w) tr (removeAll key (wQueue w))" "q \<in> {removeAll key (wQueue w), queue_Add (removeAll key (wQueue w)) key}"
      "w' = w\<lparr>wCache := store_of (wStore w) tr, wPlacements := if status_written tr
         then put_obj (p\<lparr>PStatus := status_after p tr\<rparr>) (wPlacements w) else wPlacements w,
         wQueue := if status_written tr \<or> r \<noteq> None then queue_Add q key else q\<rparr>"
  using s
proof (cases rule: undisturbed_step.cases)
  case (1 proc r tr w1)
  have wf: "wf_world w" using i by (simp add: world_inv_def)
  have hub: "hub_inv (wStore w)" by (rule world_hub_inv(1) [OF i])
  have cache: "wCache w = wStore w" using 1(3) by (simp add: wStore_def)
  note c = process_connected [OF cc 1(4) wf]
  have run: "sync (fresh_server (with_scheduler (run_controller proc) (SchedEnvAt cc) (hub_handle cc w)) no_failures (wStore w))
      key [] = Some (r, tr)" using 1(5) c(2) by simp
  have S: "foldl store_step (wStore w) tr = store_of (wStore w) tr"
    using hub by (simp add: store_of_def admit_id hub_inv_def)
  from c(1) wf run show thesis
  proof (cases rule: sync_of_key)
    case a: absent
    then show thesis using absent [OF a(3) 1(2,3,4)] 1 by simp
  next
    case p: (present p)
    have wfp: "wf_meta p" by (rule wf_world_placements [OF wf p(1)])
    note own = sync_own [OF c(1) wf hub p(2) [symmetric] p(1) run]
    let ?w = "w\<lparr>wQueue := removeAll key (wQueue w)\<rparr>" and ?q = "notify (wStore w) tr (removeAll key (wQueue w))"
    have hub': "hub_inv (wCache ?w)" using hub cache by simp
    have "w1 = w\<lparr>wCache := store_of (wStore w) tr,
        wPlacements := if status_written tr then put_obj (p\<lparr>PStatus := status_after p tr\<rparr>) (wPlacements w) else wPlacements w,
        wQueue := if status_written tr then queue_Add ?q key else ?q\<rparr>"
      unfolding 1(6) deliver_own [OF hub' wfp own] by (simp add: cache S p(2))
    moreover have "?q \<in> {removeAll key (wQueue w), queue_Add (removeAll key (wQueue w)) key}"
      using own_notify [OF hub own wfp] p(2) by simp
    ultimately show thesis using 1 p(2) by (intro present [OF p(1) _ 1(2,3,4,5) own refl]) simp_all
  qed
qed

text \<open>A step of the process consists of steps of the world.\<close>

lemma fresh_lagging:
  assumes "world_inv w" "wPending w = []"
  shows "lagging w tr (store_of (wStore w))"
  unfolding lagging_def
proof (intro allI impI)
  fix t
  assume "prefix t tr"
  then obtain ys where tr: "tr = t @ ys" by (auto simp: prefix_def)
  have "store_of (wStore w) t = foldl store_step (wCache w) t"
    using world_hub_inv(1) [OF assms(1)] assms(2) by (simp add: store_of_def admit_id hub_inv_def wStore_def)
  also have "\<dots> = foldl store_step (wCache w) (take (length (effective (wCache w) t)) (changes_after w tr))"
    using assms(2) by (simp add: changes_after_def tr effective_append wStore_def)
  finally show "\<exists>k. store_of (wStore w) t = foldl store_step (wCache w) (take k (changes_after w tr))" by blast
qed

lemma undisturbed_reconcile:
  assumes cc: "good_context cc" and i: "world_inv w" and p: "wPending w = []" "key \<in> set (wQueue w)"
    and proc: "RunControllerManager (context_of cc w) = Inr proc"
    and run: "sync (fresh_server (run_controller proc) no_failures (wStore w)) key [] = Some (r, tr)"
    and q: "q = notify (wStore w) tr (removeAll key (wQueue w))"
  shows "world_step w (w\<lparr>wCache := store_of (wStore w) tr, wQueue := if r = None then q else queue_Add q key\<rparr>)"
proof -
  have wf: "wf_world w" using i by (simp add: world_inv_def)
  have hub: "hub_inv (wStore w)" by (rule world_hub_inv(1) [OF i])
  note c = process_connected [OF cc proc wf]
  let ?ch = "changes_after w tr"
  have cache: "wCache w = wStore w" using p(1) by (simp add: wStore_def)
  have ch: "?ch = effective (wStore w) tr" using p(1) by (simp add: changes_after_def)
  have "sync (fresh_server (with_scheduler (run_controller proc) (SchedEnvAt cc) (hub_handle cc w)) no_failures (wStore w))
      key [] = Some (r, tr)" using run c(2) by simp
  moreover have "q = notify (wCache w) (take (length ?ch) ?ch) (removeAll key (wQueue w))"
    by (simp add: q ch cache notify_effective)
  moreover have "env_orders (SchedEnvAt cc t)" for t using cc by (simp add: good_context_def)
  ultimately have "reconcile_step w (w\<lparr>wCache := foldl store_step (wCache w) (take (length ?ch) ?ch),
      wPending := drop (length ?ch) ?ch, wQueue := if r = None then q else queue_Add q key\<rparr>)"
    using reconcile_step.intros [OF c(1) _ p(2) _ fresh_lagging [OF i p(1)]] by blast
  then have "reconcile_step w (w\<lparr>wCache := foldl store_step (wStore w) tr, wPending := [],
      wQueue := if r = None then q else queue_Add q key\<rparr>)"
    by (simp add: ch cache foldl_effective)
  moreover have "foldl store_step (wStore w) tr = store_of (wStore w) tr"
    using hub by (simp add: store_of_def admit_id hub_inv_def)
  moreover have "w\<lparr>wCache := S, wPending := [], wQueue := q'\<rparr> = w\<lparr>wCache := S, wQueue := q'\<rparr>" for S q'
    using p(1) by (cases w) simp
  ultimately show ?thesis by (simp add: world_step.reconciled)
qed

lemma undisturbed_world:
  assumes cc: "good_context cc" and i: "world_inv w" and s: "undisturbed_step cc key w w'"
  shows "world_step\<^sup>*\<^sup>* w w'"
  using cc i s
proof (cases rule: undisturbed_form)
  case (absent proc)
  have "store_of (wStore w) [] = wCache w"
    using world_hub_inv(1) [OF i] absent(3) by (simp add: admit_id hub_inv_def wStore_def)
  then have "w\<lparr>wCache := store_of (wStore w) [], wQueue := removeAll key (wQueue w)\<rparr> = w'"
    using absent(6) by (cases w) simp
  then have "world_step w w'" using undisturbed_reconcile [OF cc i absent(3,2,4,5) refl] by simp
  then show ?thesis by blast
next
  case (present p proc r tr q)
  define v where "v = w\<lparr>wCache := store_of (wStore w) tr, wQueue := if r = None then q else queue_Add q key\<rparr>"
  let ?p = "p\<lparr>PStatus := status_after p tr\<rparr>"
  have v: "world_step w v" unfolding v_def by (rule undisturbed_reconcile [OF cc i present(4,3,5,6,9)])
  then have wfv: "wf_world v" using i world_step_inv by (simp add: world_inv_def)
  have pv: "p \<in> set (wPlacements v)" using present(1) by (simp add: v_def)
  show ?thesis
  proof (cases "status_written tr")
    case True
    have "world_step v (v\<lparr>wPlacements := put_obj ?p (wPlacements v), wQueue := queue_Add (wQueue v) (placement_queue_key ?p)\<rparr>)"
      using world_step.placement_changed [OF refl put_status_wf [OF wfv pv]] by simp
    moreover have "w' = v\<lparr>wPlacements := put_obj ?p (wPlacements v), wQueue := queue_Add (wQueue v) (placement_queue_key ?p)\<rparr>"
      using True present(2,11) by (simp add: v_def)
    ultimately show ?thesis using v by (metis converse_rtranclp_into_rtranclp r_into_rtranclp)
  next
    case False
    then have "w' = v" using present(11) by (simp add: v_def)
    then show ?thesis using v by blast
  qed
qed

lemma world_steps_inv: "world_step\<^sup>*\<^sup>* w w' \<Longrightarrow> world_inv w \<Longrightarrow> world_inv w'"
  by (induction rule: rtranclp_induct) (auto intro: world_step_inv)

lemma world_steps_reachable: "world_step\<^sup>*\<^sup>* w w' \<Longrightarrow> world_reachable w \<Longrightarrow> world_reachable w'"
  by (induction rule: rtranclp_induct) (auto intro: world_reachable.step)

section \<open>Reconciling twice\<close>

lemma calm_step:
  assumes cc: "good_context cc" and i: "world_inv w" and s: "undisturbed_step cc key w w'" and calm: "calm w"
  shows "calm w' \<and> wClusters w' = wClusters w \<and> wSets w' = wSets w \<and> wBindings w' = wBindings w \<and> wPending w' = []"
  using cc i s
proof (cases rule: undisturbed_form)
  case absent
  then show ?thesis using calm by (simp add: calm_def)
next
  case (present p proc r tr q)
  have "steady_policy (p\<lparr>PStatus := st\<rparr>) \<longleftrightarrow> steady_policy p" for st
    by (simp add: steady_policy_def steady_not_negative_def weights_in_limits_def getWeights_def)
  then show ?thesis using calm present(1,4,11) by (auto simp: calm_def)
qed

lemma deliver_requeue [simp]: "foldl deliver w (requeue p d []) = w"
  by (cases w; cases d) (simp_all add: requeue_def deliver_def decision_event_def change_of_def)

lemma undisturbed_again:
  assumes cc: "good_context cc" and i: "world_inv w" "calm w" and p: "p \<in> set (wPlacements w)" "active p"
    and s: "undisturbed_step cc (placement_queue_key p) w w1" "undisturbed_step cc (placement_queue_key p) w1 w2"
  shows "w2 = w1\<lparr>wQueue := removeAll (placement_queue_key p) (wQueue w1)\<rparr>"
proof -
  have i1: "world_inv w1" by (rule world_steps_inv [OF undisturbed_world [OF cc i(1) s(1)] i(1)])
  then have wf1: "wf_world w1" by (simp add: world_inv_def)
  have same: "wClusters w1 = wClusters w" "wSets w1 = wSets w" "wBindings w1 = wBindings w"
    using calm_step [OF cc i(1) s(1) i(2)] by simp_all
  from cc i(1) s(1) obtain proc r tr where
    run: "RunControllerManager (context_of cc w) = Inr proc"
      "sync (fresh_server (run_controller proc) no_failures (wStore w)) (placement_queue_key p) [] = Some (r, tr)"
    and own: "list_all (own_action p \<circ> fst) tr" "list_all (ok_action \<circ> fst) tr"
    and w1: "wStore w1 = store_of (wStore w) tr" "p\<lparr>PStatus := status_after p tr\<rparr> \<in> set (wPlacements w1)"
  proof (cases rule: undisturbed_form)
    case absent
    then show thesis using p(1) by blast
  next
    case (present p' proc r tr q)
    have pp: "p' = p" using i(1) p(1) present(1,2)
      by (auto simp: world_inv_def wf_world_def wf_ns_items_def distinct_map placement_queue_key_def dest: inj_onD)
    have "p\<lparr>PStatus := status_after p tr\<rparr> \<in> set (wPlacements w1)"
      using status_unwritten [of tr p] pp p(1) unfolding present(11) by (cases "status_written tr") simp_all
    moreover have "wStore w1 = store_of (wStore w) tr" using present(4) by (simp add: present(11) wStore_def)
    ultimately show thesis using that [OF present(5,6) _ present(8)] present(7) pp by simp
  qed
  from s(2) show ?thesis
  proof (cases rule: undisturbed_step.cases)
    case (1 proc' r' tr' w1')
    from second_run [OF cc i run(1) p run(2) same wf1 world_hub_inv(1) [OF i1] w1 own 1(4), of no_failures]
    obtain d where "r' = None" "tr' = requeue p d []" using 1(5) by auto
    then show ?thesis using 1(1,6) by simp
  qed
qed

text \<open>C8: a second reconciliation is idle when scheduling is stable. Take a reachable world that is calm:
  no cluster has a \<open>NoSelectIfNew\<close> taint, the amounts of resources are moderate, and the active
  placements are well configured without addon scores and do not weigh the steady prioritizer
  negatively. When the worker of the process has reconciled a placement, and its own writes have come
  back through the caches and put the key in the queue again, reconciling it once more, with the same
  clock and iteration orders, changes nothing on the hub and in the caches, and takes the key from the
  queue.\<close>

theorem second_reconcile_idle:
  assumes "world_reachable w" "good_context cc" "calm w" "p \<in> set (wPlacements w)" "active p"
    "undisturbed_step cc (placement_queue_key p) w w1" "undisturbed_step cc (placement_queue_key p) w1 w2"
  shows "w2 = w1\<lparr>wQueue := removeAll (placement_queue_key p) (wQueue w1)\<rparr>"
  by (rule undisturbed_again [OF assms(2) world_reachable_inv [OF assms(1)] assms(3-7)])

end
