(* ===== verification/Drain.thy ===== *)
theory Drain
  imports Process
begin

text \<open>
  While nothing fails and nothing else happens, the changes on their way arrive and the reconciliations
  of the process can empty the queue, although each write queues its placement again; and whenever it
  is empty, every placement is placed. At the end a world in which all of this happens.
\<close>

section \<open>The queue drains\<close>

text \<open>The first change on its way to the cache arrives.\<close>

inductive arrival :: "hub_world \<Rightarrow> hub_world \<Rightarrow> bool" where
  "wPending w = x # xs \<Longrightarrow> arrival w (w\<lparr>wCache := store_step (wCache w) x, wPending := xs,
    wQueue := decision_event (change_of (wCache w) x) (wQueue w)\<rparr>)"

inductive process_step :: "controllerContext \<Rightarrow> hub_world \<Rightarrow> hub_world \<Rightarrow> bool" for cc where
  arrives: "arrival w w' \<Longrightarrow> process_step cc w w'"
| reconciles: "undisturbed_step cc key w w' \<Longrightarrow> process_step cc w w'"

lemma arrival_calm [simp]: "arrival w w' \<Longrightarrow> calm w' \<longleftrightarrow> calm w"
  by (auto simp: calm_def elim!: arrival.cases)

lemma arrival_world: "arrival w w' \<Longrightarrow> world_step w w'"
  by (auto elim!: arrival.cases intro: world_step.arrived)

lemma process_step_inv:
  assumes "good_context cc" "world_inv w" "calm w" "process_step cc w w'"
  shows "world_inv w' \<and> calm w' \<and> world_step\<^sup>*\<^sup>* w w'"
  using assms(4)
proof cases
  case arrives
  then show ?thesis using assms(2,3) arrival_world [OF arrives] world_step_inv by auto
next
  case (reconciles key)
  then show ?thesis using assms(1-3) calm_step undisturbed_world world_steps_inv by meson
qed

lemma process_steps_inv:
  assumes "(process_step cc)\<^sup>*\<^sup>* w w'" "good_context cc" "world_inv w" "calm w"
  shows "world_inv w' \<and> calm w' \<and> world_step\<^sup>*\<^sup>* w w'"
  using assms(1)
proof (induction rule: rtranclp_induct)
  case (step w1 w2)
  then show ?case using process_step_inv [OF assms(2), of w1 w2] by auto
qed (use assms in simp)

text \<open>The placements are the same but for their status.\<close>

lemma keeps_placements:
  assumes "(process_step cc)\<^sup>*\<^sup>* w w'" "good_context cc" "world_inv w" "calm w" "p \<in> set (wPlacements w)"
  shows "\<exists>st. p\<lparr>PStatus := st\<rparr> \<in> set (wPlacements w')"
  using assms(1)
proof (induction rule: rtranclp_induct)
  case base
  then show ?case using assms(5) by (intro exI [of _ "PStatus p"]) simp
next
  case (step w1 w2)
  note i1 = process_steps_inv [OF step.hyps(1) assms(2-4)]
  obtain st where st: "p\<lparr>PStatus := st\<rparr> \<in> set (wPlacements w1)" using step.IH by blast
  show ?case using step.hyps(2)
  proof cases
    case arrives
    then show ?thesis using st by (auto elim!: arrival.cases)
  next
    case (reconciles key)
    with assms(2) conjunct1 [OF i1] show ?thesis
    proof (cases rule: undisturbed_form)
      case absent
      then show ?thesis using st by auto
    next
      case (present q proc r tr evs)
      show ?thesis
      proof (cases "MetaNamespaceKey q = MetaNamespaceKey p")
        case True
        then have k: "MetaNamespaceKey q = MetaNamespaceKey (p\<lparr>PStatus := st\<rparr>)" by (simp add: MetaNamespaceKey_def)
        have "inj_on MetaNamespaceKey (set (wPlacements w1))"
          using i1 by (simp add: world_inv_def wf_world_def wf_ns_items_def distinct_map)
        from inj_onD [OF this k present(1) st] have "q = p\<lparr>PStatus := st\<rparr>" .
        then show ?thesis using present(11) st by (cases "status_written tr") auto
      next
        case False
        then show ?thesis using present(11) st
          by (cases "status_written tr") (auto simp: MetaNamespaceKey_def)
      qed
    qed
  qed
qed

lemma well_placed_status [simp]: "well_placed w (p\<lparr>PStatus := st\<rparr>) \<longleftrightarrow> well_placed w p"
  by (simp add: well_placed_def suitable_def matches_predicates_def available_to_def wanted_decisions_def)

lemma step_exists:
  assumes cc: "good_context cc" and i: "world_inv w" "calm w" and k: "key \<in> set (wQueue w)" and pend: "wPending w = []"
  shows "\<exists>w'. undisturbed_step cc key w w' \<and> set (wQueue w') \<subseteq> set (wQueue w) \<and> set (wQueue w) - {key} \<subseteq> set (wQueue w') \<and>
    (key \<in> set (wQueue w') \<longrightarrow> (\<exists>p \<in> set (wPlacements w). active p \<and> key = placement_queue_key p))"
proof -
  have wf: "wf_world w" using i(1) by (simp add: world_inv_def)
  obtain proc where proc: "RunControllerManager (context_of cc w) = Inr proc" using process_starts [OF cc] by blast
  note c = process_connected [OF cc proc wf]
  let ?c = "fresh_server (run_controller proc) no_failures (wStore w)"
  obtain ns n where split: "SplitMetaNamespaceKey key = Some (ns, n)"
    using SplitMetaNamespaceKey_None_iff [of key] i k
    by (cases "SplitMetaNamespaceKey key") (auto simp: world_inv_def)
  note g = connected_get [OF c(1) wf split, of "[]"]
  have "\<exists>tr. sync ?c key [] = Some (None, tr) \<and>
      (tr = [] \<or> (\<exists>p \<in> set (wPlacements w). active p \<and> key = placement_queue_key p))"
  proof (cases "find (\<lambda>p. placement_queue_key p = key) (wPlacements w)")
    case None
    then show ?thesis using g split by (simp add: sync_def getPlacement_def)
  next
    case (Some p)
    then have p: "p \<in> set (wPlacements w)" "placement_queue_key p = key" by (auto simp: find_Some_iff)
    show ?thesis
    proof (cases "active p")
      case False
      then show ?thesis using g split Some by (simp add: sync_def getPlacement_def syncPlacement_inactive)
    next
      case True
      then show ?thesis using first_run [OF cc i proc p(1)] p by metis
    qed
  qed
  then obtain tr where tr: "sync ?c key [] = Some (None, tr)"
    "tr = [] \<or> (\<exists>p \<in> set (wPlacements w). active p \<and> key = placement_queue_key p)" by blast
  obtain w' where w': "undisturbed_step cc key w w'" "tr = [] \<Longrightarrow> w' = w\<lparr>wQueue := removeAll key (wQueue w)\<rparr>"
    using undisturbed_step.intros [OF k pend proc tr(1) refl] by simp
  from cc i(1) w'(1) have "set (wQueue w') \<subseteq> set (wQueue w) \<and> set (wQueue w) - {key} \<subseteq> set (wQueue w')"
    by (cases rule: undisturbed_form) (use k in auto)
  then show ?thesis using w' tr(2) by auto
qed

lemma key_clears:
  assumes cc: "good_context cc" and i: "world_inv w" "calm w" and k: "key \<in> set (wQueue w)" and pend: "wPending w = []"
  shows "\<exists>n w'. n \<le> 2 \<and> (process_step cc ^^ n) w w' \<and> set (wQueue w') = set (wQueue w) - {key} \<and>
    wPending w' = []"
proof -
  obtain w1 where w1: "undisturbed_step cc key w w1" "set (wQueue w1) \<subseteq> set (wQueue w)"
    "set (wQueue w) - {key} \<subseteq> set (wQueue w1)"
    "key \<in> set (wQueue w1) \<longrightarrow> (\<exists>p \<in> set (wPlacements w). active p \<and> key = placement_queue_key p)"
    using step_exists [OF assms] by blast
  then have p1: "process_step cc w w1" and e1: "wPending w1 = []"
    using calm_step [OF cc i(1) _ i(2)] by (auto intro: reconciles)
  show ?thesis
  proof (cases "key \<in> set (wQueue w1)")
    case False
    then have "set (wQueue w1) = set (wQueue w) - {key}" using w1(2,3) by blast
    then show ?thesis using p1 e1 by (intro exI [of _ 1] exI [of _ w1]) (simp add: eq_OO)
  next
    case True
    then obtain p where p: "p \<in> set (wPlacements w)" "active p" "key = placement_queue_key p" using w1(4) by blast
    have i1: "world_inv w1" "calm w1" using process_step_inv [OF cc i p1] by auto
    obtain w2 where w2: "undisturbed_step cc key w1 w2" using step_exists [OF cc i1 True e1] by blast
    have "w2 = w1\<lparr>wQueue := removeAll key (wQueue w1)\<rparr>"
      unfolding p(3) by (rule undisturbed_again [OF cc i p(1,2) w1(1) [unfolded p(3)] w2 [unfolded p(3)]])
    then have "set (wQueue w2) = set (wQueue w) - {key} \<and> wPending w2 = []" using w1(2,3) e1 by auto
    moreover have "process_step cc w1 w2" using w2 by (rule reconciles)
    then have "(process_step cc ^^ 2) w w2" using relcomppI [of "process_step cc" w w1 "process_step cc" w2, OF p1] by (simp add: numeral_2_eq_2 eq_OO)
    ultimately show ?thesis by blast
  qed
qed

lemma keys_clear:
  assumes cc: "good_context cc"
  shows "world_inv w \<Longrightarrow> calm w \<Longrightarrow> wPending w = [] \<Longrightarrow>
    \<exists>n w'. n \<le> 2 * card (set (wQueue w)) \<and> (process_step cc ^^ n) w w' \<and> wQueue w' = [] \<and> wPending w' = []"
proof (induction "card (set (wQueue w))" arbitrary: w)
  case 0
  then show ?case by (intro exI [of _ 0] exI [of _ w]) simp
next
  case (Suc m)
  then obtain key where k: "key \<in> set (wQueue w)" by fastforce
  obtain n1 w1 where w1: "n1 \<le> 2" "(process_step cc ^^ n1) w w1" "set (wQueue w1) = set (wQueue w) - {key}"
    "wPending w1 = []"
    using key_clears [OF cc Suc.prems(1,2) k Suc.prems(3)] by blast
  have i1: "world_inv w1" "calm w1"
    using process_steps_inv [OF relpowp_imp_rtranclp [OF w1(2)] cc Suc.prems(1,2)] by auto
  have m: "m = card (set (wQueue w1))" using Suc.hyps(2) k w1(3) by simp
  obtain n2 w2 where "n2 \<le> 2 * m" "(process_step cc ^^ n2) w1 w2" "wQueue w2 = []" "wPending w2 = []"
    using Suc.hyps(1) [OF m i1 w1(4)] m by blast
  then show ?case using w1(1,2) Suc.hyps(2)
    by (intro exI [of _ "n1 + n2"] exI [of _ w2]) (auto simp: relpowp_add)
qed

text \<open>Each change on its way takes a step to arrive and may queue one key.\<close>

lemma changes_arrive:
  "\<exists>w'. (process_step cc ^^ length (wPending w)) w w' \<and> wPending w' = [] \<and>
    card (set (wQueue w')) \<le> card (set (wQueue w)) + length (wPending w)"
proof (induction "wPending w" arbitrary: w)
  case Nil
  then show ?case by (intro exI [of _ w]) simp
next
  case (Cons x xs)
  let ?w = "w\<lparr>wCache := store_step (wCache w) x, wPending := xs,
    wQueue := decision_event (change_of (wCache w) x) (wQueue w)\<rparr>"
  have a: "process_step cc w ?w" using Cons.hyps(2) by (intro arrives arrival.intros) simp
  from Cons.hyps(1) [of ?w] obtain w' where w': "(process_step cc ^^ length xs) ?w w'" "wPending w' = []"
    "card (set (wQueue w')) \<le> card (set (wQueue ?w)) + length xs" by auto
  have "(process_step cc ^^ length (wPending w)) w w'"
    using relpowp_Suc_I2 [of "process_step cc", OF a w'(1)] Cons.hyps(2) [symmetric] by simp
  moreover have "card (set (wQueue ?w)) \<le> Suc (card (set (wQueue w)))"
    by (simp add: decision_event_def card_insert_if split: option.split)
  ultimately show ?case using w'(2,3) Cons.hyps(2) [symmetric] by (intro exI [of _ w']) simp
qed

lemma all_clear:
  assumes cc: "good_context cc" and i: "world_inv w" "calm w"
  shows "\<exists>n w'. n \<le> 3 * length (wPending w) + 2 * card (set (wQueue w)) \<and> (process_step cc ^^ n) w w' \<and>
    wQueue w' = [] \<and> wPending w' = []"
proof -
  obtain w1 where w1: "(process_step cc ^^ length (wPending w)) w w1" "wPending w1 = []"
    "card (set (wQueue w1)) \<le> card (set (wQueue w)) + length (wPending w)" using changes_arrive by blast
  have "world_inv w1" "calm w1" using process_steps_inv [OF relpowp_imp_rtranclp [OF w1(1)] cc i] by auto
  from keys_clear [OF cc this w1(2)] obtain n w2 where "n \<le> 2 * card (set (wQueue w1))"
    "(process_step cc ^^ n) w1 w2" "wQueue w2 = []" "wPending w2 = []" by blast
  then show ?thesis using w1(1,3)
    by (intro exI [of _ "length (wPending w) + n"] exI [of _ w2]) (auto simp: relpowp_add)
qed

text \<open>When nothing waits and nothing is on its way, every placement is placed.\<close>

lemma drained_placed:
  assumes "(process_step cc)\<^sup>*\<^sup>* w w'" "good_context cc" "world_inv w" "calm w" "wQueue w' = []" "wPending w' = []"
  shows "\<forall>p \<in> set (wPlacements w). active p \<longrightarrow> well_placed w' p"
proof (intro ballI impI)
  fix p
  assume p: "p \<in> set (wPlacements w)" "active p"
  obtain st where "p\<lparr>PStatus := st\<rparr> \<in> set (wPlacements w')" using keeps_placements [OF assms(1-4) p(1)] by blast
  then have "well_placed w' (p\<lparr>PStatus := st\<rparr>)" using process_steps_inv [OF assms(1-4)] assms(5,6) p(2)
    by (auto simp: world_inv_def outstanding_def simp del: well_placed_status)
  then show "well_placed w' p" by simp
qed

section \<open>A world\<close>

definition sample_world :: hub_world where
  "sample_world = \<lparr>wClusters = managed_clusters, wSets = world_sets, wBindings = world_bindings,
     wPlacements = [world_placement], wCache = [], wPending = [], wQueue = [placement_queue_key world_placement]\<rparr>"

lemma sample_world_simps [simp]:
  "wClusters sample_world = managed_clusters" "wSets sample_world = world_sets"
  "wBindings sample_world = world_bindings" "wPlacements sample_world = [world_placement]"
  "wCache sample_world = []" "wPending sample_world = []" "wQueue sample_world = [placement_queue_key world_placement]"
  by (simp_all add: sample_world_def)

lemma sample_world_store [simp]: "wStore sample_world = []"
  by (simp add: wStore_def)

lemma sample_world_wf: "wf_world sample_world"
proof -
  have "wf_caches (enq_of sample_world) world_sets"
    using world_caches unfolding wf_caches_def by (auto simp: world_enqueuer_def newEnqueuer_def)
  moreover have "list_all valid_set world_sets" using world_sets_valid by (simp add: list_all_iff)
  ultimately show ?thesis using sample_caches by (simp add: wf_world_def)
qed

lemma sample_world_reachable: "world_reachable sample_world"
  by (rule world_reachable.start [OF sample_world_wf])
    (simp_all add: hub_inv_empty enqueuePlacement_def queue_Add_def sets_insert_def placement_queue_key_def)

lemma sample_context_good: "good_context sample_context"
  using sample_env_ok(1) by (simp add: good_context_def sample_cenv_def) (simp add: sample_context_def)

lemma sample_world_calm: "calm sample_world"
  using world_limits world_well_configured by (simp add: calm_def steady_policy_def)

lemma sample_world_drained:
  obtains w' st where "world_reachable w'" "wQueue w' = []" "wPending w' = []" "world_placement\<lparr>PStatus := st\<rparr> \<in> set (wPlacements w')"
proof -
  have i: "world_inv sample_world" by (rule world_reachable_inv [OF sample_world_reachable])
  obtain n w' where w': "(process_step sample_context ^^ n) sample_world w'" "wQueue w' = []"
    "wPending w' = []"
    using all_clear [OF sample_context_good i sample_world_calm] by blast
  note s = relpowp_imp_rtranclp [OF w'(1)]
  note r = process_steps_inv [OF s sample_context_good i sample_world_calm]
  from keeps_placements [OF s sample_context_good i sample_world_calm, of world_placement]
  obtain st where "world_placement\<lparr>PStatus := st\<rparr> \<in> set (wPlacements w')" by auto
  then show thesis using that w'(2,3) r world_steps_reachable [of sample_world w'] sample_world_reachable by blast
qed

theorem world_settled_witness:
  "\<exists>w ds. world_reachable w \<and> wQueue w = [] \<and>
    decisions_view (lookup (wStore w)) (''ns'', ''p'') = wanted_decisions world_placement ds"
proof -
  obtain w' st where w': "world_reachable w'" "wQueue w' = []" "wPending w' = []" "world_placement\<lparr>PStatus := st\<rparr> \<in> set (wPlacements w')"
    by (rule sample_world_drained)
  have "\<not> outstanding w' (world_placement\<lparr>PStatus := st\<rparr>)" using w'(3) by (simp add: outstanding_def)
  from world_settled [OF w'(1,4) _ _ this] w'(2) world_placement_ok(2) obtain ds where
    "decisions_view (lookup (wStore w')) (placement_key (world_placement\<lparr>PStatus := st\<rparr>)) =
      wanted_decisions (world_placement\<lparr>PStatus := st\<rparr>) ds" by auto
  then have "decisions_view (lookup (wStore w')) (''ns'', ''p'') = wanted_decisions world_placement ds"
    by (simp add: placement_key_def wanted_decisions_def) (simp add: world_placement_def)
  then show ?thesis using w'(1,2) by blast
qed

lemma new_status_shown: "Conditions (new_status ce st n [a, b]) \<noteq> []"
proof -
  let ?cs = "SetStatusCondition (StatusNow ce (cond_Type a)) (Conditions st) a"
  obtain x where "FindStatusCondition (SetStatusCondition (StatusNow ce (cond_Type b)) ?cs b) (cond_Type b) = Some x"
    using Find_Set_same by blast
  then have "SetStatusCondition (StatusNow ce (cond_Type b)) ?cs b \<noteq> []" by (auto simp: FindStatusCondition_def)
  then show ?thesis by (simp add: new_status_def)
qed

text \<open>The first reconciliation sets the status, and so queues the placement again.\<close>

lemma sample_requeued:
  obtains w1 where "undisturbed_step sample_context (placement_queue_key world_placement) sample_world w1"
    "placement_queue_key world_placement \<in> set (wQueue w1)"
proof -
  let ?k = "placement_queue_key world_placement"
  have i: "world_inv sample_world" by (rule world_reachable_inv [OF sample_world_reachable])
  obtain w1 where w1: "undisturbed_step sample_context ?k sample_world w1"
    using step_exists [OF sample_context_good i sample_world_calm, of ?k] by auto
  from sample_context_good i w1 have "?k \<in> set (wQueue w1)"
  proof (cases rule: undisturbed_form)
    case absent
    then show ?thesis by simp
  next
    case (present p proc r tr evs)
    have p: "p = world_placement" using present(1) by simp
    obtain cls res st tr' where c: "placement_clusters (run_controller proc) p = Inr cls"
      "sync (fresh_server (run_controller proc) no_failures (wStore sample_world)) (placement_queue_key p) [] = Some (None, tr')"
      "status_after p tr' = new_status (CEnv sample_context) (PStatus p) (word_of_nat (length (sched_Decisions res)))
        (run_status (run_controller proc) p cls res st)"
      using first_run [OF sample_context_good i sample_world_calm present(5,1)] p world_placement_ok(2) by metis
    have "tr = tr'" using c(2) present(6) p by simp
    then have "Conditions (status_after p tr) \<noteq> []"
      using c(3) run_status_two [OF c(1)] new_status_shown by metis
    moreover have "Conditions (PStatus p) = []" unfolding p by (simp add: world_placement_def builder_defs record_builders)
    ultimately have "status_written tr" using status_unwritten [of tr p] by metis
    then show ?thesis using present(11) by simp
  qed
  with w1 show thesis by (rule that)
qed

theorem second_reconcile_idle_witness:
  "\<exists>w1 w2. undisturbed_step sample_context (placement_queue_key world_placement) sample_world w1 \<and>
    undisturbed_step sample_context (placement_queue_key world_placement) w1 w2 \<and>
    placement_queue_key world_placement \<in> set (wQueue w1) \<and>
    wStore w2 = wStore w1 \<and> placement_queue_key world_placement \<notin> set (wQueue w2)"
proof -
  let ?k = "placement_queue_key world_placement"
  have i: "world_inv sample_world" by (rule world_reachable_inv [OF sample_world_reachable])
  obtain w1 where w1: "undisturbed_step sample_context ?k sample_world w1" "?k \<in> set (wQueue w1)"
    by (rule sample_requeued)
  have "process_step sample_context sample_world w1" using w1(1) by (rule reconciles)
  note i1 = process_step_inv [OF sample_context_good i sample_world_calm this]
  obtain w2 where w2: "undisturbed_step sample_context ?k w1 w2"
    using step_exists [OF sample_context_good _ _ w1(2)] i1 calm_step [OF sample_context_good i w1(1) sample_world_calm]
    by blast
  have p: "world_placement \<in> set (wPlacements sample_world)" by simp
  from second_reconcile_idle [OF sample_world_reachable sample_context_good sample_world_calm p
      world_placement_ok(2) w1(1) w2]
  have "wStore w2 = wStore w1" "?k \<notin> set (wQueue w2)" by simp_all
  then show ?thesis using w1 w2 by blast
qed

end
