(* ===== verification/Converge.thy ===== *)
theory Converge
  imports Crowding Drain
begin

text \<open>
  Every run of the process ends, whatever order the keys are taken in. The placements interact: a
  reconciliation changes the number of decisions its clusters have, so the next reconciliation of
  another placement may move that one. For placements that weigh only what they have and the number of
  other decisions, as the default policy does, each such move makes the crowding of the clusters
  smaller; so there are finitely many, and the run ends with an empty queue and every placement placed.
\<close>

section \<open>Placements in position\<close>

text \<open>The decisions and the status of a placement are those some run of the scheduler has set.\<close>

definition in_position :: "controllerContext \<Rightarrow> hub_world \<Rightarrow> Placement \<Rightarrow> bool" where
  "in_position cc w p \<longleftrightarrow> (\<exists>proc cls h r st old. RunControllerManager (context_of cc w) = Inr proc \<and>
     placement_clusters (run_controller proc) p = Inr cls \<and>
     Schedule (SchedEnvAt cc []) (NewPluginScheduler h) p cls = Some (r, st) \<and> code st = Success \<and>
     decisions_view (lookup (wStore w)) (placement_key p) = wanted_decisions p (sched_Decisions r) \<and>
     PStatus p = new_status (CEnv cc) old (word_of_nat (length (sched_Decisions r)))
       (run_status (run_controller proc) p cls r st))"

lemma in_position_cong:
  assumes cc: "good_context cc" and i: "in_position cc w p"
    and w': "wClusters w' = wClusters w" "wSets w' = wSets w" "wBindings w' = wBindings w"
      "decisions_view (lookup (wStore w')) (placement_key p) = decisions_view (lookup (wStore w)) (placement_key p)"
  shows "in_position cc w' p"
proof -
  obtain proc where proc: "RunControllerManager (context_of cc w) = Inr proc" using process_starts [OF cc] by blast
  obtain proc' where proc': "RunControllerManager (context_of cc w') = Inr proc'" using process_starts [OF cc] by blast
  note same = same_clusters [OF proc proc' w'(1-3)]
  show ?thesis using i unfolding in_position_def proc proc' w'(4) by (simp add: same)
qed

text \<open>A reconciliation brings its placement into position and leaves the others there.\<close>

lemma step_in_position:
  assumes cc: "good_context cc" and i: "world_inv w" "calm w"
    and proc: "RunControllerManager (context_of cc w) = Inr proc" and p: "p \<in> set (wPlacements w)" "active p"
    and run: "sync (fresh_server (run_controller proc) no_failures (wStore w)) (placement_queue_key p) [] = Some (r, tr)"
    and w': "wClusters w' = wClusters w" "wSets w' = wSets w" "wBindings w' = wBindings w" "wStore w' = store_of (wStore w) tr"
  shows "in_position cc w' (p\<lparr>PStatus := status_after p tr\<rparr>)"
proof -
  obtain proc' where proc': "RunControllerManager (context_of cc w') = Inr proc'" using process_starts [OF cc] by blast
  note same = same_clusters [OF proc proc' w'(1-3)]
  obtain cls res st where cls: "placement_clusters (run_controller proc) p = Inr cls"
    and s: "Schedule (SchedEnvAt cc []) (NewPluginScheduler (hub_handle cc w [])) p cls = Some (res, st)" "code st = Success"
    and view: "decisions_view (decs_of (wStore w) tr) (placement_key p) = wanted_decisions p (sched_Decisions res)"
    and status: "status_after p tr = new_status (CEnv cc) (PStatus p) (word_of_nat (length (sched_Decisions res)))
      (run_status (run_controller proc) p cls res st)"
    using first_run [OF cc i proc p] run by (metis option.inject prod.inject)
  show ?thesis
    unfolding in_position_def
    by (intro exI conjI, rule proc', use s(1) in \<open>simp add: Schedule_status same cls\<close>)
      (use s cls view status in \<open>simp_all add: Schedule_status same w'(4) decs_of_def wanted_decisions_def\<close>)
qed

lemma own_others_view:
  assumes S: "hub_inv S" "hub_inv (foldl store_step S tr)" and own: "list_all (own_action p \<circ> fst) tr"
    and ne: "placement_key q \<noteq> placement_key p"
  shows "decisions_view (lookup (foldl store_step S tr)) (placement_key q) = decisions_view (lookup S) (placement_key q)"
proof (rule own_objects_view)
  show "decisions_inv (lookup S)" "decisions_inv (lookup (foldl store_step S tr))" using S by (simp_all add: hub_inv_def)
  have "\<forall>x \<in> set tr. \<not> about q (fst x)" using own ne own_about by (fastforce simp: list_all_iff)
  then show "own_object q (foldl store_step S tr) i = own_object q S i" if "1 \<le> i" for i
    using own_object_foldl that by blast
qed

section \<open>A reconciliation of a placement in position\<close>

definition settling :: "hub_world \<Rightarrow> bool" where
  "settling w \<longleftrightarrow> calm w \<and> (\<forall>p \<in> set (wPlacements w). active p \<longrightarrow> spreading p \<and> Name p \<noteq> [])"

lemma same_decisions:
  fixes ds ds' :: "ClusterDecision list"
  assumes "distinct (map ClusterName ds)" "distinct (map ClusterName ds')" "ClusterName ` set ds' = ClusterName ` set ds"
    "\<forall>d \<in> set ds. DecisionReason d = ''''" "\<forall>d \<in> set ds'. DecisionReason d = ''''"
  shows "mset ds' = mset ds"
proof -
  have "d \<in> set b" if "d \<in> set a" "ClusterName ` set a \<subseteq> ClusterName ` set b"
    "\<forall>d \<in> set a. DecisionReason d = ''''" "\<forall>d \<in> set b. DecisionReason d = ''''" for d and a b :: "ClusterDecision list"
  proof -
    have "ClusterName d \<in> ClusterName ` set b" using that(1,2) by blast
    then obtain d' where d': "d' \<in> set b" "ClusterName d' = ClusterName d" by fastforce
    then have "DecisionReason d' = DecisionReason d"
      using \<open>d \<in> set a\<close> \<open>\<forall>d \<in> set a. DecisionReason d = []\<close> \<open>\<forall>d \<in> set b. DecisionReason d = []\<close> by simp
    with d'(2) have "d' = d" by (cases d; cases d') simp
    with d'(1) show ?thesis by simp
  qed
  from this [of _ ds' ds] this [of _ ds ds'] have "set ds' = set ds" using assms(3-5) by blast
  then show ?thesis using assms(1,2) by (simp add: set_eq_iff_mset_eq_distinct distinct_map)
qed

lemma rerun:
  assumes cc: "good_context cc" and i: "world_inv w" "calm w"
    and proc: "RunControllerManager (context_of cc w) = Inr proc" and p: "p \<in> set (wPlacements w)" "active p"
    and sp: "spreading p" "Name p \<noteq> []" and pos: "in_position cc w p"
    and run: "sync (fresh_server (run_controller proc) no_failures (wStore w)) (placement_queue_key p) [] = Some (r, tr)"
    and own: "list_all (own_action p \<circ> fst) tr" "list_all (ok_action \<circ> fst) tr"
  shows "r = None \<and> (\<exists>d. tr = requeue p d []) \<or> crowding (load (store_of (wStore w) tr)) < crowding (load (wStore w))"
proof -
  let ?c = "run_controller proc" and ?h = "hub_handle cc w []" and ?S = "wStore w" and ?S' = "store_of (wStore w) tr"
  have wf: "wf_world w" and hub: "hub_inv ?S" using i(1) world_hub_inv(1) [OF i(1)] by (simp_all add: world_inv_def)
  have wfp: "wf_meta p" by (rule wf_world_placements [OF wf p(1)])
  have steady: "steady_policy p" using i(2) p by (simp add: calm_def)
  then have label: "is_valid_label_value (Name p)" by (simp add: steady_policy_def well_configured_def)
  have env: "env_orders (SchedEnvAt cc [])" using cc by (simp add: good_context_def)
  obtain cls res st where cls: "placement_clusters ?c p = Inr cls" "distinct (map Name cls)" "set cls \<subseteq> set (wClusters w)"
    and s: "Schedule (SchedEnvAt cc []) (NewPluginScheduler ?h) p cls = Some (res, st)" "code st = Success"
    and view: "decisions_view (decs_of ?S tr) (placement_key p) = wanted_decisions p (sched_Decisions res)"
    using first_run [OF cc i proc p] run by (metis option.inject prod.inject)
  obtain h0 r0 st0 old where s0: "Schedule (SchedEnvAt cc []) (NewPluginScheduler h0) p cls = Some (r0, st0)" "code st0 = Success"
    and view0: "decisions_view (lookup ?S) (placement_key p) = wanted_decisions p (sched_Decisions r0)"
    and status0: "PStatus p = new_status (CEnv cc) old (word_of_nat (length (sched_Decisions r0))) (run_status ?c p cls r0 st0)"
    using pos proc cls(1) unfolding in_position_def by auto
  have ok: "\<not> IsError (Some st)" "\<not> IsError (Some st0)" using s(2) s0(2) by (simp_all add: IsError_Some)
  have pl: "plain_taints cls" "moderate_clusters cls"
    using i(2) cls(3) by (auto simp: calm_def plain_taints_def intro: moderate_subset)
  have F: "filter (eligible (SchedEnvAt cc []) h0 p) cls = filter (eligible (SchedEnvAt cc []) ?h p) cls"
    "{c \<in> set cls. eligible (SchedEnvAt cc []) h0 p c} = {c \<in> set cls. eligible (SchedEnvAt cc []) ?h p c}"
    using eligible_plain [OF pl(1), of _ "SchedEnvAt cc []" h0 p ?h] by (auto intro: filter_cong)
  note n = chosen_names [OF env s(1) ok(1) cls(2)] and n0 = chosen_names [OF env s0(1) ok(2) cls(2)]
  have len: "length (sched_Decisions res) = length (sched_Decisions r0)" by (simp only: n(3) n0(3) F(1))
  have reasons: "\<forall>d \<in> set (sched_Decisions r0). DecisionReason d = ''''" "\<forall>d \<in> set (sched_Decisions res). DecisionReason d = ''''"
    using Schedule_reasons [OF env s0(1)] Schedule_reasons [OF env s(1)] by blast+
  show ?thesis
  proof (cases "ClusterName ` set (sched_Decisions res) = ClusterName ` set (sched_Decisions r0)")
    case True
    have m: "mset (sched_Decisions res) = mset (sched_Decisions r0)" by (rule same_decisions [OF n0(1) n(1) True reasons])
    have u: "NumOfUnscheduled res = NumOfUnscheduled r0"
      unfolding chosen(2) [OF env s(1) ok(1)] chosen(2) [OF env s0(1) ok(2)] unscheduled_of_def len ..
    from idle_run [OF cc wf hub proc p label cls(1) s s0(2) m u reasons(1) view0 status0, of no_failures] show ?thesis
      using run by auto
  next
    case False
    have names: "own_names p ?S = ClusterName ` set (sched_Decisions r0)"
      using own_names_placed [of ?S p] placed_wanted [OF view0] hub by (simp add: hub_inv_def)
    have S: "store_of ?S [] = ?S" "foldl store_step ?S tr = ?S'" using hub by (simp_all add: admit_id hub_inv_def store_of_def)
    have less: "count_list (other_choices p ?S) x < count_list (other_choices p ?S) y"
      if "x \<in> ClusterName ` set (sched_Decisions res) - ClusterName ` set (sched_Decisions r0)"
        "y \<in> ClusterName ` set (sched_Decisions r0) - ClusterName ` set (sched_Decisions res)" for x y
    proof (rule takes_less_loaded [OF env s(1) ok(1) cls(2) hub_handle_scores [OF cc] pl(2) _ _ sp(1) _ label
        hub_handle_decisions(1) [of cc w "[]", unfolded S(1)]])
      show "y \<in> Name ` {c \<in> set cls. eligible (SchedEnvAt cc []) ?h p c}" using that(2) n0(2) F(2) by blast
    qed (use that steady wfp in \<open>simp_all add: names steady_policy_def wf_meta_def\<close>)
    have "hub_inv ?S'" by (rule store_of_inv [OF hub own(2)])
    then have "crowding (load ?S') < crowding (load ?S)"
      using own_store [OF hub own wfp] hub n(1) n0(1) len False less view view0 sp(2) S(2)
      by (intro crowding_exchange [where ds = "sched_Decisions r0" and ds' = "sched_Decisions res" and p = p])
        (simp_all add: hub_inv_def decs_of_def)
    then show ?thesis ..
  qed
qed

section \<open>The measure\<close>

definition unplaced :: "controllerContext \<Rightarrow> hub_world \<Rightarrow> string set" where
  "unplaced cc w = placement_queue_key ` {p \<in> set (wPlacements w). active p \<and> \<not> in_position cc w p}"

text \<open>The placements still to be brought into position; then the crowding, the keys that wait, and the
  changes on their way, each of which may queue a key.\<close>

definition remaining :: "controllerContext \<Rightarrow> hub_world \<Rightarrow> nat \<times> nat" where
  "remaining cc w = (card (unplaced cc w),
     crowding (load (wStore w)) + card (set (wQueue w)) + 2 * length (wPending w))"

abbreviation fewer :: "((nat \<times> nat) \<times> (nat \<times> nat)) set" where
  "fewer \<equiv> less_than <*lex*> less_than"

lemma finite_unplaced [simp]: "finite (unplaced cc w)"
  by (simp add: unplaced_def)

lemma unplaced_cong:
  assumes "good_context cc" "wClusters w' = wClusters w" "wSets w' = wSets w" "wBindings w' = wBindings w"
    "wPlacements w' = wPlacements w" "wStore w' = wStore w"
  shows "unplaced cc w' = unplaced cc w"
  using in_position_cong [OF assms(1), of w _ w'] in_position_cong [OF assms(1), of w' _ w] assms(2-6)
  by (auto simp: unplaced_def)

lemma arrival_remaining:
  assumes cc: "good_context cc" and a: "arrival w w'"
  shows "(remaining cc w', remaining cc w) \<in> fewer"
  using a
proof cases
  case (1 x xs)
  have S: "wStore w' = wStore w" using 1 by (simp add: wStore_def)
  have "unplaced cc w' = unplaced cc w" by (rule unplaced_cong [OF cc _ _ _ _ S]) (simp_all add: 1(1))
  moreover have "card (set (wQueue w')) \<le> Suc (card (set (wQueue w)))"
    by (simp add: 1(1) decision_event_def card_insert_if split: option.split)
  moreover have "length (wPending w) = Suc (length (wPending w'))" using 1 by simp
  ultimately show ?thesis by (simp add: remaining_def S)
qed

lemma removed_remaining:
  assumes "good_context cc" "key \<in> set (wQueue w)"
  shows "(remaining cc (w\<lparr>wQueue := removeAll key (wQueue w)\<rparr>), remaining cc w) \<in> fewer"
proof -
  have "unplaced cc (w\<lparr>wQueue := removeAll key (wQueue w)\<rparr>) = unplaced cc w"
    by (rule unplaced_cong [OF assms(1)]) simp_all
  moreover have "0 < card (set (wQueue w))" using assms(2) by (auto simp: card_gt_0_iff)
  ultimately show ?thesis using assms(2) by (simp add: remaining_def)
qed

lemma same_key:
  assumes "wf_world w" "p \<in> set (wPlacements w)" "q \<in> set (wPlacements w)" "placement_queue_key q = placement_queue_key p"
  shows "q = p"
  using assms by (auto simp: wf_world_def wf_ns_items_def distinct_map placement_queue_key_def dest: inj_onD)

lemma other_key:
  assumes "placement_queue_key q \<noteq> placement_queue_key p"
  shows "placement_key q \<noteq> placement_key p" "MetaNamespaceKey q \<noteq> MetaNamespaceKey p"
proof -
  show "MetaNamespaceKey q \<noteq> MetaNamespaceKey p" using assms by (simp add: placement_queue_key_def)
  then show "placement_key q \<noteq> placement_key p" by (auto simp: MetaNamespaceKey_def placement_key_def cong: if_cong)
qed

text \<open>A reconciliation of an active placement leaves fewer placements out of position, or the same ones.\<close>

lemma reconciled_unplaced:
  assumes cc: "good_context cc" and i: "world_inv w" "calm w" and p: "p \<in> set (wPlacements w)" "active p"
    and s: "undisturbed_step cc (placement_queue_key p) w w'"
  shows "unplaced cc w' \<subseteq> unplaced cc w - {placement_queue_key p}"
proof -
  have wf: "wf_world w" using i(1) by (simp add: world_inv_def)
  have i': "world_inv w'" by (rule world_steps_inv [OF undisturbed_world [OF cc i(1) s] i(1)])
  then have wf': "wf_world w'" by (simp add: world_inv_def)
  have same: "wClusters w' = wClusters w" "wSets w' = wSets w" "wBindings w' = wBindings w"
    using calm_step [OF cc i(1) s i(2)] by simp_all
  from cc i(1) s obtain proc r tr q where proc: "RunControllerManager (context_of cc w) = Inr proc"
      "sync (fresh_server (run_controller proc) no_failures (wStore w)) (placement_queue_key p) [] = Some (r, tr)"
    and own: "list_all (own_action p \<circ> fst) tr" "list_all (ok_action \<circ> fst) tr"
    and w': "w' = w\<lparr>wCache := store_of (wStore w) tr, wPlacements := if status_written tr
         then put_obj (p\<lparr>PStatus := status_after p tr\<rparr>) (wPlacements w) else wPlacements w, wQueue := q\<rparr>"
      "wStore w' = store_of (wStore w) tr"
  proof (cases rule: undisturbed_form)
    case absent
    then show thesis using p(1) by blast
  next
    case (present p' proc r tr q)
    have "p' = p" by (rule same_key [OF wf p(1) present(1) present(2) [symmetric]])
    show thesis
      by (rule that [OF present(5,6) _ present(8), where q = "wQueue w'"]) (use present(4,7,11) \<open>p' = p\<close> in \<open>simp_all add: wStore_def\<close>)
  qed
  let ?p = "p\<lparr>PStatus := status_after p tr\<rparr>"
  have pos: "in_position cc w' ?p" by (rule step_in_position [OF cc i proc(1) p proc(2) same w'(2)])
  have p': "?p \<in> set (wPlacements w')"
    using status_unwritten [of tr p] p(1) by (cases "status_written tr") (simp_all add: w'(1))
  have hub: "hub_inv (wStore w)" "hub_inv (store_of (wStore w) tr)"
    using world_hub_inv(1) [OF i(1)] world_hub_inv(1) [OF i'] by (simp_all add: w'(2))
  have S: "foldl store_step (wStore w) tr = store_of (wStore w) tr"
    using hub(1) by (simp add: store_of_def admit_id hub_inv_def)
  show ?thesis
  proof
    fix k
    assume "k \<in> unplaced cc w'"
    then obtain q where q: "k = placement_queue_key q" "q \<in> set (wPlacements w')" "active q" "\<not> in_position cc w' q"
      by (auto simp: unplaced_def)
    have ne: "placement_queue_key q \<noteq> placement_queue_key p"
      using same_key [OF wf' p' q(2)] q(4) pos by auto
    then have "q \<in> set (wPlacements w)" using q(2) by (auto simp: w'(1) put_obj_def split: if_splits)
    moreover have "\<not> in_position cc w q"
      using in_position_cong [OF cc _ same] own_others_view [OF hub(1) _ own(1) other_key(1) [OF ne]] hub(2) S w'(2) q(4)
      by auto
    ultimately show "k \<in> unplaced cc w - {placement_queue_key p}" using q(1,3) ne by (auto simp: unplaced_def)
  qed
qed

lemma idle_step:
  assumes s: "undisturbed_step cc key w w'" and proc: "RunControllerManager (context_of cc w) = Inr proc"
    and run: "sync (fresh_server (run_controller proc) no_failures (wStore w)) key [] = Some (None, tr)"
    and d: "foldl deliver (w\<lparr>wQueue := removeAll key (wQueue w)\<rparr>) tr = w\<lparr>wQueue := removeAll key (wQueue w)\<rparr>"
  shows "w' = w\<lparr>wQueue := removeAll key (wQueue w)\<rparr>"
  using s
proof (cases rule: undisturbed_step.cases)
  case (1 proc' r' tr' w1)
  have "r' = None" "tr' = tr" using 1(4,5) proc run by simp_all
  then show ?thesis using 1(1,6) d by simp
qed

lemma inactive_run:
  assumes cc: "good_context cc" and wf: "wf_world w" and proc: "RunControllerManager (context_of cc w) = Inr proc"
    and p: "p \<in> set (wPlacements w)" "\<not> active p"
  shows "sync (fresh_server (run_controller proc) fails (wStore w)) (placement_queue_key p) [] = Some (None, [])"
proof -
  have "ns_get (placementLister (run_controller proc) []) (Namespace p) (Name p) = Inr p"
    using cache_ns_get [OF _ p(1), where resource = "''placements''"] process_connected(1) [OF cc proc wf] wf
    by (simp add: connected_def wf_world_def)
  then show ?thesis
    using wf_meta_key [OF wf_world_placements [OF wf p(1)]] p(2) by (simp add: sync_def syncPlacement_inactive)
qed

lemma step_remaining:
  assumes cc: "good_context cc" and i: "world_inv w" "settling w" and s: "process_step cc w w'"
  shows "(remaining cc w', remaining cc w) \<in> fewer"
  using s
proof cases
  case arrives
  then show ?thesis by (rule arrival_remaining [OF cc])
next
  case (reconciles key)
  have calm: "calm w" using i(2) by (simp add: settling_def)
  have wf: "wf_world w" using i(1) by (simp add: world_inv_def)
  from cc i(1) reconciles show ?thesis
  proof (cases rule: undisturbed_form)
    case absent
    then show ?thesis using removed_remaining [OF cc absent(2)] by simp
  next
    case (present p proc r tr q)
    note c = process_connected [OF cc present(5) wf]
    show ?thesis
    proof (cases "active p")
      case False
      have "sync (fresh_server (run_controller proc) no_failures (wStore w)) key [] = Some (None, [])"
        unfolding present(2) by (rule inactive_run [OF cc wf present(5,1) False])
      then have "w' = w\<lparr>wQueue := removeAll key (wQueue w)\<rparr>" by (rule idle_step [OF reconciles present(5)]) simp
      then show ?thesis using removed_remaining [OF cc present(3)] by simp
    next
      case True
      note s = reconciles [unfolded present(2)]
      have sub: "unplaced cc w' \<subseteq> unplaced cc w - {key}"
        using reconciled_unplaced [OF cc i(1) calm present(1) True s] present(2) by simp
      show ?thesis
      proof (cases "key \<in> unplaced cc w")
        case True
        then have "card (unplaced cc w') < card (unplaced cc w)" using sub by (intro psubset_card_mono) auto
        then show ?thesis by (simp add: remaining_def)
      next
        case False
        then have "in_position cc w p" using present(1,2) True by (auto simp: unplaced_def)
        moreover have "spreading p" "Name p \<noteq> []" using i(2) present(1) True by (auto simp: settling_def)
        ultimately consider (idle) d where "r = None" "tr = requeue p d []"
          | (less) "crowding (load (store_of (wStore w) tr)) < crowding (load (wStore w))"
          using rerun [OF cc i(1) calm present(5,1) True _ _ _ present(6) [unfolded present(2)] present(7,8)] by blast
        then show ?thesis
        proof cases
          case idle
          have "w' = w\<lparr>wQueue := removeAll key (wQueue w)\<rparr>"
            by (rule idle_step [OF reconciles present(5) present(6) [unfolded idle]]) simp
          then show ?thesis using removed_remaining [OF cc present(3)] by simp
        next
          case less
          have "card (unplaced cc w') \<le> card (unplaced cc w)" using sub by (intro card_mono) auto
          moreover have "set (wQueue w') \<subseteq> set (wQueue w)" using present(3,10,11) by auto
          then have "card (set (wQueue w')) \<le> card (set (wQueue w))" by (simp add: card_mono)
          moreover have "wStore w' = store_of (wStore w) tr" "wPending w' = []" "wPending w = []"
            using present(4,11) by (simp_all add: wStore_def)
          ultimately show ?thesis using less by (auto simp: remaining_def)
        qed
      qed
    qed
  qed
qed

section \<open>Every run ends\<close>

lemma step_settling:
  assumes cc: "good_context cc" and i: "world_inv w" "settling w" and s: "process_step cc w w'"
  shows "world_inv w' \<and> settling w'"
proof -
  have calm: "calm w" using i(2) by (simp add: settling_def)
  note inv = process_step_inv [OF cc i(1) calm s]
  from s have "\<forall>p \<in> set (wPlacements w'). active p \<longrightarrow> spreading p \<and> Name p \<noteq> []"
  proof cases
    case arrives
    then show ?thesis using i(2) by (auto simp: settling_def elim!: arrival.cases)
  next
    case (reconciles key)
    with cc i(1) show ?thesis
    proof (cases rule: undisturbed_form)
      case absent
      then show ?thesis using i(2) by (simp add: settling_def)
    next
      case (present p proc r tr q)
      then show ?thesis using i(2) by (auto simp: settling_def present(11))
    qed
  qed
  then show ?thesis using inv by (simp add: settling_def)
qed

lemma steps_settling:
  assumes "(process_step cc)\<^sup>*\<^sup>* w w'" "good_context cc" "world_inv w" "settling w"
  shows "world_inv w' \<and> settling w'"
  using assms(1) by (induction rule: rtranclp_induct) (use assms step_settling in blast)+

lemma can_step:
  assumes "good_context cc" "world_inv w" "calm w" "wQueue w \<noteq> [] \<or> wPending w \<noteq> []"
  shows "\<exists>w'. process_step cc w w'"
proof (cases "wPending w")
  case Nil
  then obtain key where "key \<in> set (wQueue w)" using assms(4) by (cases "wQueue w") auto
  then show ?thesis using step_exists [OF assms(1-3) _ Nil] reconciles by blast
next
  case (Cons x xs)
  then show ?thesis using arrives arrival.intros by blast
qed

lemma no_endless_run:
  assumes "good_context cc" "world_inv (f 0)" "settling (f 0)" "\<And>i. process_step cc (f i) (f (Suc i))"
  shows False
proof -
  have i: "world_inv (f i) \<and> settling (f i)" for i
    by (induction i) (use assms step_settling in blast)+
  have "(remaining cc (f (Suc i)), remaining cc (f i)) \<in> fewer" for i
    using step_remaining [OF assms(1) _ _ assms(4)] i by blast
  then have "\<exists>g. \<forall>i. (g (Suc i), g i) \<in> fewer" by (intro exI [of _ "\<lambda>i. remaining cc (f i)"] allI)
  moreover have "wf fewer" by (simp add: wf_lex_prod)
  ultimately show False unfolding wf_iff_no_infinite_down_chain by (rule notE [rotated])
qed

text \<open>C4: the process comes to rest. Take a reachable world in which scheduling is stable (no
  \<open>NoSelectIfNew\<close> taints, moderate amounts of resources, well configured placements) and every active
  placement weighs only the clusters it has, positively, and the number of decisions of others, not
  negatively, as the default policy does. When nothing fails and nothing else happens, every sequence
  of steps of the process is finite, in whatever order it takes the keys, although each write
  queues a placement again and changes what the others see; and when no further step is possible,
  nothing is on its way, no key waits, and every active placement has decisions on clusters that are
  available to it and match its predicates.\<close>

theorem process_comes_to_rest:
  assumes "world_reachable w" "good_context cc" "settling w"
  shows "(\<nexists>f. f 0 = w \<and> (\<forall>i. process_step cc (f i) (f (Suc i)))) \<and>
    (\<forall>w'. (process_step cc)\<^sup>*\<^sup>* w w' \<longrightarrow> (\<nexists>w''. process_step cc w' w'') \<longrightarrow>
      wQueue w' = [] \<and> wPending w' = [] \<and> (\<forall>p \<in> set (wPlacements w). active p \<longrightarrow> well_placed w' p))"
proof (intro conjI allI impI)
  have calm: "calm w" using assms(3) by (simp add: settling_def)
  note i = world_reachable_inv [OF assms(1)]
  show "\<nexists>f. f 0 = w \<and> (\<forall>i. process_step cc (f i) (f (Suc i)))"
    using no_endless_run [OF assms(2)] i assms(3) by metis
  fix w'
  assume s: "(process_step cc)\<^sup>*\<^sup>* w w'" and stuck: "\<nexists>w''. process_step cc w' w''"
  note i' = process_steps_inv [OF s assms(2) i calm]
  show e: "wQueue w' = []" "wPending w' = []" using can_step [OF assms(2)] i' stuck by blast+
  show "\<forall>p \<in> set (wPlacements w). active p \<longrightarrow> well_placed w' p"
    by (rule drained_placed [OF s assms(2) i calm e])
qed

end
