(* ===== verification/Rivals.thy ===== *)
theory Rivals
  imports Converge
begin

text \<open>
  Two placements in one world. With the default policy they come to rest. When one wants the cluster with
  the fewest decisions of others and the other, by a negative weight, the one with the most, they chase
  each other for ever, though each alone is stable: the hypothesis of \<open>process_comes_to_rest\<close> that the
  balance prioritizer is not weighed negatively cannot be dropped.
\<close>

section \<open>Worlds of two placements\<close>

definition pair_world :: "Placement \<Rightarrow> Placement \<Rightarrow> hub_world" where
  "pair_world p q = sample_world\<lparr>wPlacements := [p, q], wQueue := [placement_queue_key p, placement_queue_key q]\<rparr>"

text \<open>A placement of one cluster, with one configuration or none.\<close>

definition asks_one :: "string \<Rightarrow> Placement" where
  "asks_one n = WithNOC 1 (NewPlacement ''ns'' n)"

definition weighs_balance :: "int32 \<Rightarrow> string \<Rightarrow> Placement" where
  "weighs_balance v n = WithPrioritizerConfig PrioritizerBalance v
     (WithPrioritizerPolicy PrioritizerPolicyModeExact (asks_one n))"

definition follower :: Placement where "follower = weighs_balance (- 1) ''q''"
definition loner :: Placement where "loner = weighs_balance 1 ''p''"

text \<open>What the two kinds have in common.\<close>

definition simple_placement :: "Placement \<Rightarrow> bool" where
  "simple_placement p \<longleftrightarrow> Namespace p = ''ns'' \<and> Name p \<in> {''p'', ''q''} \<and> ClusterSets (Spec p) = [] \<and>
     Predicates (Spec p) = [] \<and> Tolerations (Spec p) = [] \<and> NumberOfClusters (Spec p) = Some 1 \<and> active p \<and> steady_policy p"

lemma asks_one_fields [simp]:
  "Namespace (asks_one n) = ''ns''" "Name (asks_one n) = n" "ClusterSets (Spec (asks_one n)) = []"
  "Predicates (Spec (asks_one n)) = []" "Tolerations (Spec (asks_one n)) = []"
  "NumberOfClusters (Spec (asks_one n)) = Some 1" "Annotations (asks_one n) = Map.empty"
  "DeletionTimestamp (asks_one n) = None" "Policy (Spec (asks_one n)) = \<lparr>PolicyMode = [], Configurations = []\<rparr>"
  by (simp_all add: asks_one_def builder_defs record_builders)

lemma weighs_balance_eq:
  "weighs_balance v n = (asks_one n)\<lparr>Spec := (Spec (asks_one n))\<lparr>Policy := \<lparr>PolicyMode = PrioritizerPolicyModeExact,
     Configurations = [\<lparr>ConfigCoordinate = Some (builtin_coordinate PrioritizerBalance), Weight = v\<rparr>]\<rparr>\<rparr>\<rparr>"
  by (simp add: weighs_balance_def WithPrioritizerConfig_def WithPrioritizerPolicy_def add_config_def
      builtin_coordinate_def PrioritizerBalance_def)

lemma balance_weights:
  "fst (getWeights defaultPrioritizerConfig (weighs_balance v n)) = [(builtin_coordinate PrioritizerBalance, v)]"
  by (simp add: weighs_balance_eq getWeights_def mergeWeights_def merge_config_def)

lemma default_weights: "fst (getWeights defaultPrioritizerConfig (asks_one n)) = defaultPrioritizerConfig"
  by (simp add: getWeights_def mergeWeights_def merge_config_def
      defaultPrioritizerConfig_def builtin_coordinate_def PrioritizerBalance_def PrioritizerSteady_def)

lemma made_prioritizers:
  "make_prioritizer (builtin_coordinate PrioritizerBalance) = Inr BalancePrioritizer"
  "make_prioritizer (builtin_coordinate PrioritizerSteady) = Inr SteadyPrioritizer"
  by code_simp+

lemma default_steady: "map_of defaultPrioritizerConfig k = Some v \<Longrightarrow> v = 1"
  by (auto simp: defaultPrioritizerConfig_def split: if_splits)

lemma simple_policies:
  assumes x: "x = asks_one n \<or> x = weighs_balance 1 n \<or> x = weighs_balance (- 1) n" and n: "n \<in> {''p'', ''q''}"
  shows "simple_placement x"
proof -
  have "is_valid_label_value ''p''" "is_valid_label_value ''q''" by code_simp+
  then have l: "is_valid_label_value n" using n by blast
  have "fst (getWeights defaultPrioritizerConfig x) = defaultPrioritizerConfig \<or>
      (\<exists>v. fst (getWeights defaultPrioritizerConfig x) = [(builtin_coordinate PrioritizerBalance, v)])"
    using x balance_weights default_weights by blast
  moreover have "weights_plain ws \<and> (\<forall>scp \<in> set (enabled ws). snd scp = SteadyPrioritizer \<longrightarrow> 0 \<le> sint (weight_of ws (fst scp)))"
    if "ws = defaultPrioritizerConfig \<or> ws = [(builtin_coordinate PrioritizerBalance, v)]" for ws v
    using that by (auto simp: weights_plain_def enabled_def made_prioritizers weight_of_def default_steady)
      (auto simp: defaultPrioritizerConfig_def made_prioritizers)
  ultimately have w: "weights_plain (fst (getWeights defaultPrioritizerConfig x)) \<and> steady_not_negative x"
    unfolding steady_not_negative_def Let_def by blast
  have s: "mode_valid x" "configs_valid x" "weights_in_limits x" "length (Configurations (Policy (Spec x))) \<le> 2 ^ 40"
    using x by (auto simp: weighs_balance_eq mode_valid_def configs_valid_def weights_in_limits_def)
  show ?thesis using x l n w s
    by (auto simp: simple_placement_def steady_policy_def well_configured_def weighs_balance_eq active_def disabled_def
        time_is_zero_def tolerations_valid_def)
qed

lemma default_spreading: "spreading (asks_one n)"
proof -
  have "enabled defaultPrioritizerConfig = [(builtin_coordinate PrioritizerBalance, BalancePrioritizer),
      (builtin_coordinate PrioritizerSteady, SteadyPrioritizer)]"
    by (simp add: enabled_def defaultPrioritizerConfig_def made_prioritizers)
  moreover have "weight_of defaultPrioritizerConfig (builtin_coordinate PrioritizerBalance) = 1"
    "weight_of defaultPrioritizerConfig (builtin_coordinate PrioritizerSteady) = 1" by code_simp+
  ultimately show ?thesis by (simp add: spreading_def default_weights Let_def)
qed

lemma simple_names:
  assumes "simple_placement p"
  shows "wf_meta p" "Name p \<noteq> []" "is_valid_label_value (Name p)"
  using assms by (auto simp: simple_placement_def wf_meta_def slash_def steady_policy_def well_configured_def)

lemma pair_world_simps [simp]:
  "wClusters (pair_world p q) = managed_clusters" "wSets (pair_world p q) = world_sets"
  "wBindings (pair_world p q) = world_bindings" "wPlacements (pair_world p q) = [p, q]"
  "wCache (pair_world p q) = []" "wPending (pair_world p q) = []" "wStore (pair_world p q) = []"
  "wQueue (pair_world p q) = [placement_queue_key p, placement_queue_key q]"
  by (simp_all add: pair_world_def)

lemma two_keys:
  assumes "simple_placement p" "simple_placement q" "Name q \<noteq> Name p"
  shows "MetaNamespaceKey q \<noteq> MetaNamespaceKey p" "placement_queue_key q \<noteq> placement_queue_key p"
  using assms by (auto simp: simple_placement_def placement_queue_key_def MetaNamespaceKey_def)

lemma pair_world_start:
  assumes p: "simple_placement p" "simple_placement q" "Name q \<noteq> Name p"
  shows "world_reachable (pair_world p q)" "calm (pair_world p q)"
proof -
  let ?w = "pair_world p q"
  note k = two_keys [OF p]
  have "wf_caches (enq_of sample_world) world_sets" using sample_world_wf by (simp add: wf_world_def)
  then have "wf_caches (enq_of ?w) world_sets"
    using p simple_names(1) unfolding wf_caches_def by (auto simp: newEnqueuer_def simple_placement_def)
  moreover have "wf_ns_items [p, q]"
    using simple_names(1) [OF p(1)] simple_names(1) [OF p(2)] k(1) by (auto simp: wf_ns_items_def)
  ultimately have wf: "wf_world ?w" using sample_world_wf by (simp add: wf_world_def)
  show "world_reachable ?w"
    by (rule world_reachable.start [OF wf])
      (use k in \<open>simp_all add: hub_inv_empty enqueuePlacement_def queue_Add_def sets_insert_def placement_queue_key_def\<close>)
  show "calm ?w" using sample_world_calm p by (auto simp: calm_def simple_placement_def)
qed

section \<open>Two placements with the default policy\<close>

lemma run_ends:
  assumes "\<nexists>f. f 0 = w \<and> (\<forall>i. R (f i) (f (Suc i)))"
  shows "\<exists>w'. R\<^sup>*\<^sup>* w w' \<and> (\<nexists>w''. R w' w'')"
proof (rule ccontr)
  assume "\<not> ?thesis"
  then have "\<exists>y. R\<^sup>*\<^sup>* w y \<and> R x y" if "R\<^sup>*\<^sup>* w x" for x using that by (meson rtranclp.rtrancl_into_rtrancl)
  then obtain f where "f 0 = w" "\<And>i. R\<^sup>*\<^sup>* w (f i)" "\<And>i. R (f i) (f (Suc i))"
    using dependent_nat_choice [of "\<lambda>i x. R\<^sup>*\<^sup>* w x \<and> (i = 0 \<longrightarrow> x = w)" "\<lambda>i x y. R x y"] by auto
  then show False using assms by blast
qed

theorem process_comes_to_rest_witness:
  "\<exists>w. (process_step sample_context)\<^sup>*\<^sup>* (pair_world (asks_one ''p'') (asks_one ''q'')) w \<and> wQueue w = [] \<and>
    wPending w = [] \<and> well_placed w (asks_one ''p'') \<and> well_placed w (asks_one ''q'')"
proof -
  let ?p = "asks_one ''p''" and ?q = "asks_one ''q''"
  have s: "simple_placement ?p" "simple_placement ?q" using simple_policies by blast+
  have n: "Name ?q \<noteq> Name ?p" by simp
  have "settling (pair_world ?p ?q)"
    using pair_world_start(2) [OF s n] default_spreading by (auto simp: settling_def)
  note rest = process_comes_to_rest [OF pair_world_start(1) [OF s n] sample_context_good this]
  obtain w where w: "(process_step sample_context)\<^sup>*\<^sup>* (pair_world ?p ?q) w" "\<nexists>w'. process_step sample_context w w'"
    using run_ends [OF conjunct1 [OF rest]] by blast
  then show ?thesis using rest s by (auto simp: simple_placement_def)
qed

section \<open>What a reconciliation writes\<close>

lemma run_load:
  assumes cc: "good_context cc" and i: "world_inv w" "calm w" and p: "p \<in> set (wPlacements w)" "active p" "Name p \<noteq> []"
    and s: "undisturbed_step cc (placement_queue_key p) w w'"
  obtains cls res st where "distinct (map Name cls)"
    "set cls = {cl \<in> set (wClusters w). available_to (wSets w) (wBindings w) p cl}"
    "Schedule (SchedEnvAt cc []) (NewPluginScheduler (hub_handle cc w [])) p cls = Some (res, st)" "code st = Success"
    "load (filter (own_decision p) (wStore w')) = mset (map ClusterName (sched_Decisions res))"
    "filter (\<lambda>d. \<not> own_decision p d) (wStore w') = filter (\<lambda>d. \<not> own_decision p d) (wStore w)"
    "load (filter (own_decision p) (wStore w')) \<noteq> load (filter (own_decision p) (wStore w)) \<longrightarrow>
      placement_queue_key p \<in> set (wQueue w')"
    "set (wQueue w) - {placement_queue_key p} \<subseteq> set (wQueue w')"
    "\<exists>st. set (wPlacements w') = insert (p\<lparr>PStatus := st\<rparr>) (set (wPlacements w) - {p})"
proof -
  let ?k = "placement_queue_key p" and ?S = "wStore w"
  have wf: "wf_world w" using i(1) by (simp add: world_inv_def)
  note wfp = wf_world_placements [OF wf p(1)]
  have hub: "hub_inv ?S" by (rule world_hub_inv(1) [OF i(1)])
  from cc i(1) s obtain proc r tr q where proc: "RunControllerManager (context_of cc w) = Inr proc"
      "sync (fresh_server (run_controller proc) no_failures ?S) ?k [] = Some (r, tr)"
    and own: "list_all (own_action p \<circ> fst) tr" "list_all (ok_action \<circ> fst) tr"
    and q: "q = notify ?S tr (removeAll ?k (wQueue w))" "q \<in> {removeAll ?k (wQueue w), queue_Add (removeAll ?k (wQueue w)) ?k}"
    and w': "wPlacements w' = (if status_written tr then put_obj (p\<lparr>PStatus := status_after p tr\<rparr>) (wPlacements w)
        else wPlacements w)" "set q \<subseteq> set (wQueue w')" "wStore w' = store_of ?S tr"
  proof (cases rule: undisturbed_form)
    case absent
    then show thesis using p(1) by blast
  next
    case (present p' proc r tr q)
    have "p' = p" by (rule same_key [OF wf p(1) present(1) present(2) [symmetric]])
    moreover have "set q \<subseteq> set (wQueue w')" using present(11) by (cases "status_written tr \<or> r \<noteq> None") auto
    ultimately show thesis
      by (intro that [OF present(5,6) _ present(8) present(9,10)]) (use present(4,7,11) in \<open>simp_all add: wStore_def\<close>)
  qed
  note c = process_connected [OF cc proc(1) wf]
  obtain cls res st where cls: "placement_clusters (run_controller proc) p = Inr cls" "distinct (map Name cls)"
    and run: "Schedule (SchedEnvAt cc []) (NewPluginScheduler (hub_handle cc w [])) p cls = Some (res, st)" "code st = Success"
    and view: "decisions_view (decs_of ?S tr) (placement_key p) = wanted_decisions p (sched_Decisions res)"
    using first_run [OF cc i proc(1) p(1,2)] proc(2) by (metis option.inject prod.inject)
  obtain cls' where "placement_clusters (run_controller proc) p = Inr cls'"
    "set cls' = {cl \<in> set (wClusters w). available_to (wSets w) (wBindings w) p cl}"
    using connected_clusters [OF c(1) wf p(1), of "SchedEnvAt cc" "hub_handle cc w"] c(2) by metis
  then have set: "set cls = {cl \<in> set (wClusters w). available_to (wSets w) (wBindings w) p cl}" using cls(1) by simp
  have S: "foldl store_step ?S tr = store_of ?S tr" using hub by (simp add: store_of_def admit_id hub_inv_def)
  have hub': "hub_inv (store_of ?S tr)" by (rule store_of_inv [OF hub own(2)])
  then have load: "load (filter (own_decision p) (wStore w')) = mset (map ClusterName (sched_Decisions res))"
    using own_load [OF _ p(3) view [unfolded decs_of_def]] w'(3) by (simp add: hub_inv_def)
  have others: "filter (\<lambda>d. \<not> own_decision p d) (wStore w') = filter (\<lambda>d. \<not> own_decision p d) ?S"
    using own_store [OF hub own wfp] w'(3) S by simp
  have queued: "?k \<in> set (wQueue w')" if ne: "load (filter (own_decision p) (wStore w')) \<noteq> load (filter (own_decision p) ?S)"
  proof (rule ccontr)
    assume "?k \<notin> set (wQueue w')"
    then have "?k \<notin> set (notify ?S (effective ?S tr) (removeAll ?k (wQueue w)))"
      using w'(2) q(1) by (auto simp: notify_effective)
    moreover have "list_all (ok_action \<circ> fst) (effective ?S tr)" using own(2) set_effective [of ?S tr] by (auto simp: list_all_iff)
    ultimately have none: "\<forall>x \<in> set (effective ?S tr). \<not> about p (fst x)"
      using notify_about [OF hub _ all_effective_effective wfp, of tr "removeAll ?k (wQueue w)"] by blast
    have "decisions_view (lookup (store_of ?S tr)) (placement_key p) = decisions_view (lookup ?S) (placement_key p)"
    proof (rule own_objects_view)
      show "decisions_inv (lookup ?S)" "decisions_inv (lookup (store_of ?S tr))" using hub hub' by (simp_all add: hub_inv_def)
      show "own_object p (store_of ?S tr) n = own_object p ?S n" if "1 \<le> n" for n
        using own_object_foldl [OF none that, of ?S] S by simp
    qed
    then show False using ne own_load_view [of ?S "store_of ?S tr" p] hub hub' p(3) w'(3) by (simp add: hub_inv_def)
  qed
  have inj: "inj_on MetaNamespaceKey (set (wPlacements w))" using wf by (simp add: wf_world_def wf_ns_items_def distinct_map)
  have "set (wPlacements w') = insert (p\<lparr>PStatus := status_after p tr\<rparr>) (set (wPlacements w) - {p})"
  proof (cases "status_written tr")
    case True
    have "{x \<in> set (wPlacements w). MetaNamespaceKey x \<noteq> MetaNamespaceKey p} = set (wPlacements w) - {p}"
      using inj_onD [OF inj _ _ p(1)] by auto
    then show ?thesis using True w'(1) by (simp add: put_obj_def MetaNamespaceKey_def cong: if_cong)
  next
    case False
    then show ?thesis using status_unwritten [of tr p] w'(1) p(1) by auto
  qed
  then have placements: "\<exists>st. set (wPlacements w') = insert (p\<lparr>PStatus := st\<rparr>) (set (wPlacements w) - {p})" by blast
  have "set (wQueue w) - {?k} \<subseteq> set (wQueue w')" using q(2) w'(2) by auto
  then show thesis using that [OF cls(2) set run load others _ _ placements] queued by blast
qed

section \<open>One of two clusters\<close>

definition other_one :: "string \<Rightarrow> string" where
  "other_one n = (if n = ''c1'' then ''c2'' else ''c1'')"

text \<open>A placement that wants one cluster takes one.\<close>

lemma takes_one:
  assumes run: "env_orders e" "Schedule e (NewPluginScheduler h) p cs = Some (r, st)" "\<not> IsError (Some st)"
    and cs: "distinct (map Name cs)" "Name ` set cs = {''c1'', ''c2''}" "\<forall>c \<in> set cs. Taints c = []"
    and p: "simple_placement p"
  shows "\<exists>a \<in> {''c1'', ''c2''}. map ClusterName (sched_Decisions r) = [a]"
    "filter (eligible e h p) cs = cs"
proof -
  have "eligible e h p c" if "c \<in> set cs" for c
    using p cs(3) that by (simp add: eligible_def simple_placement_def cluster_tolerated_def)
  then show F: "filter (eligible e h p) cs = cs" by simp
  have "length cs = card (Name ` set cs)" using distinct_card [OF cs(1)] by simp
  then have len: "length cs = 2" by (simp add: cs(2))
  note n = chosen_names [OF run cs(1), unfolded F]
  have "wanted p cs = 1" using p by (simp add: wanted_def simple_placement_def)
  then obtain d where d: "sched_Decisions r = [d]" using n(3) len by (auto simp: length_Suc_conv)
  have "Name ` {c \<in> set cs. eligible e h p c} \<subseteq> Name ` set cs" by (intro image_mono Collect_restrict)
  then have "ClusterName ` set (sched_Decisions r) \<subseteq> {''c1'', ''c2''}"
    unfolding cs(2) by (rule subset_trans [OF n(2)])
  then show "\<exists>a \<in> {''c1'', ''c2''}. map ClusterName (sched_Decisions r) = [a]" using d by simp
qed

text \<open>By the weight of the balance prioritizer it takes the free cluster, or the taken one.\<close>

lemma takes_by_balance:
  assumes run: "env_orders e" "Schedule e (NewPluginScheduler h) p cs = Some (r, st)" "\<not> IsError (Some st)"
    and cs: "distinct (map Name cs)" "Name ` set cs = {''c1'', ''c2''}" "\<forall>c \<in> set cs. Taints c = []" "moderate_clusters cs"
    and p: "simple_placement p" "fst (getWeights defaultPrioritizerConfig p) = [(builtin_coordinate PrioritizerBalance, v)]"
      "v \<in> {1, - 1}"
    and h: "valid_scores h" "DecisionLister h = cache_ns_lister res ds" "mset (other_choices p ds) = {#b#}" "b \<in> {''c1'', ''c2''}"
  shows "map ClusterName (sched_Decisions r) = [if v = 1 then other_one b else b]"
proof -
  let ?s = "NewPluginScheduler h" and ?R = "ranked e (NewPluginScheduler h) p cs" and ?best = "if v = 1 then other_one b else b"
  note F = takes_one(2) [OF run cs(1-3) p(1)]
  note c = chosen [OF run, unfolded F]
  have f: "feasible e ?s p cs = cs" using feasible_eligible [OF c(3)] F by simp
  obtain a where a: "a \<in> {''c1'', ''c2''}" "map ClusterName (sched_Decisions r) = [a]"
    by (rule bexE [OF takes_one(1) [OF run cs(1-3) p(1)]])
  have xs: "other_choices p ds = [b]" using h(3) by simp
  have l: "lister_list (DecisionLister h) Everything = Inr ds" by (simp add: h(2) ListAll_eq)
  have m: "max_count [b] = 1" by (simp add: max_count_def)
  have bal: "get0 (PScores (fst (balance_Score e' h p cs))) n = (if n = b then - 100 else 100)" if "n \<in> {''c1'', ''c2''}" for e' n
    using that balance_score_most_loaded [of 1]
    by (simp add: balance_Score_Inr [OF l] get0_def cs(2) xs m MinClusterScore_def MaxClusterScore_def)
  have lim: "weights_in_limits p" "length (Configurations (Policy (Spec p))) \<le> 2 ^ 40"
    using p(1) by (simp_all add: simple_placement_def steady_policy_def)
  have score: "sint (cluster_score e ?s p cs n) = (if n = b then - 100 else 100) * sint v" if "n \<in> {''c1'', ''c2''}" for n
    using cluster_score_exact(1) [OF c(3) cs(1) h(1) cs(4) lim] p(3) bal [OF that]
    by (auto simp: p(2) F enabled_def made_prioritizers weight_of_def)
  show ?thesis
  proof (rule ccontr)
    assume "map ClusterName (sched_Decisions r) \<noteq> [?best]"
    then have ne: "a \<noteq> ?best" "?best \<in> {''c1'', ''c2''}" using a h(4) by (auto simp: other_one_def)
    have T: "map Name (take (wanted p cs) ?R) = [a]" using c(1) a(2) by simp
    then obtain x where x: "take (wanted p cs) ?R = [x]" "Name x = a" by auto
    obtain y where y: "y \<in> set cs" "Name y = ?best" using ne(2) cs(2) by (metis imageE)
    have "y \<notin> set (take (wanted p cs) ?R)" using x y(2) ne(1) by auto
    then have "rank e ?s p cs x < rank e ?s p cs y"
      using take_sort_before [OF inj_rank [OF cs(1), of e ?s p cs], of x "wanted p cs" y] x(1) y(1) by (simp add: ranked_def f)
    then have "sint (cluster_score e ?s p cs ?best) \<le> sint (cluster_score e ?s p cs a)"
      using x(2) y(2) by (auto simp: rank_def)
    then show False unfolding score [OF a(1)] score [OF ne(2)]
      using p(3) a(1) ne(1) h(4) by (auto simp: other_one_def split: if_splits)
  qed
qed

section \<open>The chase\<close>

text \<open>Two placements that both wait, alone in the world.\<close>

definition arena :: "Placement \<Rightarrow> Placement \<Rightarrow> hub_world \<Rightarrow> bool" where
  "arena p q w \<longleftrightarrow> world_inv w \<and> calm w \<and> wPending w = [] \<and> wClusters w = managed_clusters \<and>
     wSets w = world_sets \<and> wBindings w = world_bindings \<and>
     (\<exists>s t. set (wPlacements w) = {p\<lparr>PStatus := s\<rparr>, q\<lparr>PStatus := t\<rparr>}) \<and>
     placement_queue_key p \<in> set (wQueue w) \<and> placement_queue_key q \<in> set (wQueue w) \<and>
     (\<forall>d \<in> set (wStore w). own_decision p d \<or> own_decision q d)"

abbreviation own_clusters :: "Placement \<Rightarrow> hub_world \<Rightarrow> string multiset" where
  "own_clusters p w \<equiv> load (filter (own_decision p) (wStore w))"

lemma arena_swap: "arena p q w \<longleftrightarrow> arena q p w"
  unfolding arena_def by (auto simp: insert_commute)

lemma status_irrelevant [simp]:
  "own_decision (p\<lparr>PStatus := s\<rparr>) = own_decision p" "simple_placement (p\<lparr>PStatus := s\<rparr>) \<longleftrightarrow> simple_placement p"
  "fst (getWeights ws (p\<lparr>PStatus := s\<rparr>)) = fst (getWeights ws p)"
  by (auto simp: own_decision_def simple_placement_def steady_policy_def steady_not_negative_def weights_in_limits_def
      getWeights_def fun_eq_iff)

lemma managed_for_simple:
  assumes "simple_placement p"
  shows "{cl \<in> set managed_clusters. available_to world_sets world_bindings p cl} = set managed_clusters"
proof -
  have "available_to world_sets world_bindings p cl \<longleftrightarrow> available_to world_sets world_bindings world_placement cl" for cl
    using assms by (simp add: available_to_def simple_placement_def world_placement_def asks_one_def [symmetric])
  then show ?thesis using managed_available by auto
qed

lemma managed_facts:
  "Name ` set managed_clusters = {''c1'', ''c2''}" "\<forall>c \<in> set managed_clusters. Taints c = []"
  by (simp_all add: managed_clusters_def member_def builder_defs record_builders)

lemma others_load: "mset (other_choices p S) = load (filter (\<lambda>d. \<not> own_decision p d) S)"
  by (simp add: other_choices_def load_def)

lemma arena_others:
  assumes "\<forall>d \<in> set S. own_decision p d \<or> own_decision q d" "Name p \<noteq> []" "Name q \<noteq> []" "Name q \<noteq> Name p"
  shows "filter (\<lambda>d. \<not> own_decision p d) S = filter (own_decision q) S"
  using assms by (intro filter_cong) (auto simp: own_decision_label)

text \<open>One of them is reconciled. When that moves it, both wait again.\<close>

lemma arena_step:
  assumes a: "arena p q w" and s: "simple_placement p" "simple_placement q" "Name q \<noteq> Name p"
  obtains w' cls r st s0 where "process_step sample_context w w'"
    "Schedule sample_env (NewPluginScheduler (hub_handle sample_context w [])) (p\<lparr>PStatus := s0\<rparr>) cls = Some (r, st)"
    "code st = Success" "distinct (map Name cls)" "set cls = set managed_clusters"
    "own_clusters p w' = mset (map ClusterName (sched_Decisions r))" "own_clusters q w' = own_clusters q w"
    "own_clusters p w' \<noteq> own_clusters p w \<longrightarrow> arena p q w'"
proof -
  note n = simple_names [OF s(1)] simple_names [OF s(2)]
  obtain s0 t where P: "set (wPlacements w) = {p\<lparr>PStatus := s0\<rparr>, q\<lparr>PStatus := t\<rparr>}" using a by (auto simp: arena_def)
  let ?p = "p\<lparr>PStatus := s0\<rparr>"
  have i: "world_inv w" "calm w" and k: "placement_queue_key ?p \<in> set (wQueue w)" and e: "wPending w = []"
    using a by (simp_all add: arena_def)
  have p: "?p \<in> set (wPlacements w)" "active ?p" "Name ?p \<noteq> []" using P s(1) n(2) by (auto simp: simple_placement_def)
  obtain w' where w': "undisturbed_step sample_context (placement_queue_key ?p) w w'"
    using step_exists [OF sample_context_good i k e] by blast
  have step: "process_step sample_context w w'" using w' by (rule reconciles)
  note inv = process_step_inv [OF sample_context_good i step] and cs = calm_step [OF sample_context_good i(1) w' i(2)]
  show thesis
  proof (rule run_load [OF sample_context_good i p w'])
    fix cls r st
    assume r: "distinct (map Name cls)" "set cls = {cl \<in> set (wClusters w). available_to (wSets w) (wBindings w) ?p cl}"
      "Schedule (SchedEnvAt sample_context []) (NewPluginScheduler (hub_handle sample_context w [])) ?p cls = Some (r, st)"
      "code st = Success" "load (filter (own_decision ?p) (wStore w')) = mset (map ClusterName (sched_Decisions r))"
      "filter (\<lambda>d. \<not> own_decision ?p d) (wStore w') = filter (\<lambda>d. \<not> own_decision ?p d) (wStore w)"
      "load (filter (own_decision ?p) (wStore w')) \<noteq> load (filter (own_decision ?p) (wStore w)) \<longrightarrow>
        placement_queue_key ?p \<in> set (wQueue w')"
      "set (wQueue w) - {placement_queue_key ?p} \<subseteq> set (wQueue w')"
      "\<exists>st. set (wPlacements w') = insert (?p\<lparr>PStatus := st\<rparr>) (set (wPlacements w) - {?p})"
    have cls: "set cls = set managed_clusters" using r(2) a managed_for_simple [of ?p] s(1) by (simp add: arena_def)
    have all: "\<forall>d \<in> set (wStore w). own_decision p d \<or> own_decision q d" using a by (simp add: arena_def)
    note o = arena_others [OF all n(2,5) s(3)]
    have all': "\<forall>d \<in> set (wStore w'). own_decision p d \<or> own_decision q d"
    proof -
      have "set (filter (\<lambda>d. \<not> own_decision p d) (wStore w')) = set (filter (own_decision q) (wStore w))"
        using r(6) o by simp
      then show ?thesis by auto
    qed
    have q: "own_clusters q w' = own_clusters q w"
      using arena_others [OF all' n(2,5) s(3)] o r(6) by simp
    have kq: "placement_queue_key q \<noteq> placement_queue_key p" by (rule two_keys(2) [OF s])
    have "q\<lparr>PStatus := t\<rparr> \<noteq> ?p"
    proof
      assume "q\<lparr>PStatus := t\<rparr> = ?p"
      then have "Name (q\<lparr>PStatus := t\<rparr>) = Name ?p" by (rule arg_cong)
      then show False using s(3) by simp
    qed
    then have "\<exists>s t. set (wPlacements w') = {p\<lparr>PStatus := s\<rparr>, q\<lparr>PStatus := t\<rparr>}" using r(9) P by auto
    moreover have "placement_queue_key q \<in> set (wQueue w')" using r(8) kq a by (auto simp: arena_def)
    ultimately have "own_clusters p w' \<noteq> own_clusters p w \<longrightarrow> arena p q w'"
      using r(7) inv cs all' a by (simp add: arena_def)
    then show thesis using that [OF step _ r(4,1) cls _ q] r(3,5) by simp
  qed
qed

text \<open>A placement without decisions takes some cluster; later it follows its weight.\<close>

lemma arena_first:
  assumes a: "arena p q w" and s: "simple_placement p" "simple_placement q" "Name q \<noteq> Name p"
    and none: "own_clusters p w = {#}"
  shows "\<exists>w' c. process_step sample_context w w' \<and> arena p q w' \<and> c \<in> {''c1'', ''c2''} \<and>
    own_clusters p w' = {#c#} \<and> own_clusters q w' = own_clusters q w"
proof (rule arena_step [OF a s])
  fix w' cls r st s0
  assume r: "process_step sample_context w w'"
    "Schedule sample_env (NewPluginScheduler (hub_handle sample_context w [])) (p\<lparr>PStatus := s0\<rparr>) cls = Some (r, st)"
    "code st = Success" "distinct (map Name cls)" "set cls = set managed_clusters"
    "own_clusters p w' = mset (map ClusterName (sched_Decisions r))" "own_clusters q w' = own_clusters q w"
    "own_clusters p w' \<noteq> own_clusters p w \<longrightarrow> arena p q w'"
  have ok: "\<not> IsError (Some st)" using r(3) by (simp add: IsError_Some)
  have n: "Name ` set cls = {''c1'', ''c2''}" "\<forall>c \<in> set cls. Taints c = []" using managed_facts by (simp_all add: r(5))
  have p: "simple_placement (p\<lparr>PStatus := s0\<rparr>)" using s(1) by simp
  obtain c where "c \<in> {''c1'', ''c2''}" "map ClusterName (sched_Decisions r) = [c]"
    by (rule bexE [OF takes_one(1) [OF sample_env_ok(1) r(2) ok r(4) n p]])
  then show ?thesis using r(1,6-8) none by (intro exI [of _ w'] exI [of _ c]) simp
qed

lemma arena_move:
  assumes a: "arena p q w" and s: "simple_placement p" "simple_placement q" "Name q \<noteq> Name p"
    and v: "fst (getWeights defaultPrioritizerConfig p) = [(builtin_coordinate PrioritizerBalance, v)]" "v \<in> {1, - 1}"
    and b: "own_clusters q w = {#b#}" "b \<in> {''c1'', ''c2''}"
    and c: "c = (if v = 1 then other_one b else b)" and ne: "own_clusters p w \<noteq> {#c#}"
  shows "\<exists>w'. process_step sample_context w w' \<and> arena p q w' \<and> own_clusters p w' = {#c#} \<and> own_clusters q w' = {#b#}"
proof (rule arena_step [OF a s])
  fix w' cls r st s0
  assume r: "process_step sample_context w w'"
    "Schedule sample_env (NewPluginScheduler (hub_handle sample_context w [])) (p\<lparr>PStatus := s0\<rparr>) cls = Some (r, st)"
    "code st = Success" "distinct (map Name cls)" "set cls = set managed_clusters"
    "own_clusters p w' = mset (map ClusterName (sched_Decisions r))" "own_clusters q w' = own_clusters q w"
    "own_clusters p w' \<noteq> own_clusters p w \<longrightarrow> arena p q w'"
  let ?p = "p\<lparr>PStatus := s0\<rparr>" and ?h = "hub_handle sample_context w []"
  have ok: "\<not> IsError (Some st)" using r(3) by (simp add: IsError_Some)
  have n: "Name ` set cls = {''c1'', ''c2''}" "\<forall>c \<in> set cls. Taints c = []" using managed_facts by (simp_all add: r(5))
  have mod: "moderate_clusters cls" using moderate_subset [OF world_limits(2)] r(5) by simp
  have hub: "hub_inv (wStore w)" using a world_hub_inv(1) by (simp add: arena_def)
  have all: "\<forall>d \<in> set (wStore w). own_decision p d \<or> own_decision q d" using a by (simp add: arena_def)
  have "mset (other_choices ?p (wStore w)) = {#b#}"
    using arena_others [OF all simple_names(2) [OF s(1)] simple_names(2) [OF s(2)] s(3)] b(1) by (simp add: others_load)
  moreover have "store_of (wStore w) [] = wStore w" using hub by (simp add: admit_id hub_inv_def)
  ultimately have o: "DecisionLister ?h = cache_ns_lister ''placementdecisions'' (wStore w)"
    "mset (other_choices ?p (wStore w)) = {#b#}" using hub_handle_decisions(1) [of sample_context w "[]"] by simp_all
  have p: "simple_placement ?p" "fst (getWeights defaultPrioritizerConfig ?p) = [(builtin_coordinate PrioritizerBalance, v)]"
    using s(1) v(1) by simp_all
  have "map ClusterName (sched_Decisions r) = [c]" unfolding c
    by (rule takes_by_balance [OF sample_env_ok(1) r(2) ok r(4) n mod p v(2) hub_handle_scores [OF sample_context_good] o b(2)])
  then show ?thesis using r(1,6-8) b(1) ne by (intro exI [of _ w']) simp
qed

lemma rivals:
  "simple_placement loner" "simple_placement follower" "Name follower \<noteq> Name loner"
  "fst (getWeights defaultPrioritizerConfig loner) = [(builtin_coordinate PrioritizerBalance, 1)]"
  "fst (getWeights defaultPrioritizerConfig follower) = [(builtin_coordinate PrioritizerBalance, - 1)]"
  using simple_policies balance_weights by (auto simp: loner_def follower_def weighs_balance_eq)

definition chase :: "hub_world \<Rightarrow> bool" where
  "chase w \<longleftrightarrow> arena loner follower w \<and> (\<exists>a \<in> {''c1'', ''c2''}. \<exists>b \<in> {''c1'', ''c2''}.
     own_clusters loner w = {#a#} \<and> own_clusters follower w = {#b#})"

lemma chase_goes_on:
  assumes "chase w"
  shows "\<exists>w'. process_step sample_context w w' \<and> chase w' \<and> wStore w' \<noteq> wStore w"
proof -
  obtain a b where ab: "a \<in> {''c1'', ''c2''}" "b \<in> {''c1'', ''c2''}" "own_clusters loner w = {#a#}" "own_clusters follower w = {#b#}"
    and ar: "arena loner follower w" using assms unfolding chase_def by (elim conjE bexE)
  have o: "other_one b \<in> {''c1'', ''c2''}" "other_one b \<noteq> b" using ab(2) by (auto simp: other_one_def)
  show ?thesis
  proof (cases "a = b")
    case True
    then have ne: "own_clusters loner w \<noteq> {#other_one b#}" using ab(3) o(2) by simp
    obtain w' where w': "process_step sample_context w w'" "arena loner follower w'"
      "own_clusters loner w' = {#other_one b#}" "own_clusters follower w' = {#b#}"
      using arena_move [OF ar rivals(1-4) _ ab(4,2) _ ne] by auto
    have "wStore w' \<noteq> wStore w" using w'(3) ne by auto
    moreover have "chase w'" unfolding chase_def
      by (intro conjI bexI [OF _ o(1)] bexI [OF _ ab(2)]) (use w' in simp_all)
    ultimately show ?thesis using w'(1) by blast
  next
    case False
    then have ne: "own_clusters follower w \<noteq> {#a#}" using ab(4) by simp
    obtain w' where w': "process_step sample_context w w'" "arena follower loner w'"
      "own_clusters follower w' = {#a#}" "own_clusters loner w' = {#a#}"
      using arena_move [OF ar [unfolded arena_swap [of loner]] rivals(2,1) rivals(3) [symmetric] rivals(5) _ ab(3,1) _ ne]
      by auto
    have "wStore w' \<noteq> wStore w" using w'(3) ne by auto
    moreover have "chase w'" unfolding chase_def
      by (intro conjI bexI [OF _ ab(1)]) (use w' arena_swap in simp_all)
    ultimately show ?thesis using w'(1) by blast
  qed
qed

lemma chase_starts:
  "\<exists>w1 w2. process_step sample_context (pair_world loner follower) w1 \<and> process_step sample_context w1 w2 \<and> chase w2"
proof -
  let ?w = "pair_world loner follower"
  note start = pair_world_start [OF rivals(1-3)]
  have "arena loner follower ?w"
    unfolding arena_def using world_reachable_inv [OF start(1)] start(2)
    by (intro conjI exI [of _ "PStatus loner"] exI [of _ "PStatus follower"]) simp_all
  moreover have "own_clusters x ?w = {#}" for x by (simp add: load_def)
  ultimately obtain w1 a where w1: "process_step sample_context ?w w1" "arena loner follower w1" "a \<in> {''c1'', ''c2''}"
    "own_clusters loner w1 = {#a#}" "own_clusters follower w1 = {#}"
    using arena_first [OF _ rivals(1-3), of ?w] by metis
  obtain w2 b where w2: "process_step sample_context w1 w2" "arena follower loner w2" "b \<in> {''c1'', ''c2''}"
    "own_clusters follower w2 = {#b#}" "own_clusters loner w2 = {#a#}"
    using arena_first [OF w1(2) [unfolded arena_swap [of loner]] rivals(2,1) rivals(3) [symmetric] w1(5)] w1(4) by metis
  have "chase w2" unfolding chase_def
    by (intro conjI bexI [OF _ w1(3)] bexI [OF _ w2(3)]) (use w2 arena_swap in simp_all)
  then show ?thesis using w1(1) w2(1) by blast
qed

text \<open>C9: placements can chase each other for ever. One placement wants the cluster with the fewest
  decisions of others, the other one, by a weight of -1 that the API allows, the one with the most.
  There is an endless run of the process from a reachable world in which scheduling is stable, although
  nothing fails and nothing else happens, and from the third step on every step writes to the hub.\<close>

theorem placements_chase:
  "\<exists>f. f 0 = pair_world loner follower \<and> world_reachable (f 0) \<and> calm (f 0) \<and>
    (\<forall>i. process_step sample_context (f i) (f (Suc i))) \<and> (\<forall>i. wStore (f (i + 3)) \<noteq> wStore (f (i + 2)))"
proof -
  obtain w1 w2 where w: "process_step sample_context (pair_world loner follower) w1"
    "process_step sample_context w1 w2" "chase w2" using chase_starts by blast
  obtain g where g: "g 0 = w2" "\<And>i. process_step sample_context (g i) (g (Suc i))" "\<And>i. wStore (g (Suc i)) \<noteq> wStore (g i)"
    using dependent_nat_choice [of "\<lambda>i x. chase x \<and> (i = 0 \<longrightarrow> x = w2)"
        "\<lambda>i x y. process_step sample_context x y \<and> wStore y \<noteq> wStore x"] chase_goes_on w(3) by auto
  define f where "f i = (case i of 0 \<Rightarrow> pair_world loner follower | Suc 0 \<Rightarrow> w1 | Suc (Suc j) \<Rightarrow> g j)" for i
  have "process_step sample_context (f i) (f (Suc i))" for i
    using w g(1,2) by (auto simp: f_def split: nat.split)
  moreover have "wStore (f (i + 3)) \<noteq> wStore (f (i + 2))" for i
    using g(3) [of i] by (simp add: f_def numeral_2_eq_2 numeral_3_eq_3)
  moreover have "f 0 = pair_world loner follower" by (simp add: f_def)
  ultimately show ?thesis using pair_world_start [OF rivals(1-3)] by (intro exI [of _ f]) simp
qed

end
