(* ===== verification/Conform.thy ===== *)
theory Conform
  imports Crowding Drain
begin

text \<open>
  The types of the API: what a reconciliation writes is what the schemas of the custom resources and
  the comments of the API types ask for. The message of a condition is not bounded: it may list any
  number of cluster sets.
\<close>

section \<open>Valid conditions and statuses\<close>

text \<open>The validation of \<open>metav1.Condition\<close>: an optional prefix and a name as the type, one of three
  statuses, a reason like an identifier, a transition time, no negative generation.\<close>

definition condition_type_regexp :: "string \<Rightarrow> bool" where
  "condition_type_regexp s \<longleftrightarrow> length s \<le> 316 \<and> (case split_on (CHR ''/'') s of
       [n] \<Rightarrow> qualified_name_regexp n
     | [pre, n] \<Rightarrow> list_all dns1123_label_regexp (split_on (CHR ''.'') pre) \<and> qualified_name_regexp n
     | _ \<Rightarrow> False)"

definition reason_regexp :: "string \<Rightarrow> bool" where
  "reason_regexp s \<longleftrightarrow> s \<noteq> [] \<and> length s \<le> 1024 \<and> (upper_alpha (hd s) \<or> lower_alpha (hd s)) \<and>
     list_all (\<lambda>c. qname_char c \<or> c \<in> {CHR ''_'', CHR '','', CHR '':''}) s \<and> last s \<notin> {CHR '','', CHR '':''}"

definition valid_condition :: "Condition \<Rightarrow> bool" where
  "valid_condition c \<longleftrightarrow> condition_type_regexp (cond_Type c) \<and> cond_Status c \<in> {ConditionTrue, ConditionFalse, ''Unknown''} \<and>
     reason_regexp (cond_Reason c) \<and> LastTransitionTime c \<noteq> zero_time \<and> 0 \<le> sint (ObservedGeneration c)"

text \<open>The conditions of a status are a map by their type.\<close>

definition valid_status :: "PlacementStatus \<Rightarrow> bool" where
  "valid_status st \<longleftrightarrow> list_all valid_condition (Conditions st) \<and> distinct (map cond_Type (Conditions st))"

lemma known_reasons [simp]:
  "reason_regexp ''Misconfigured''" "reason_regexp ''Succeedconfigured''" "reason_regexp ''NoManagedClusterSetBindings''"
  "reason_regexp ''NoIntersection''" "reason_regexp ''AllManagedClusterSetsEmpty''" "reason_regexp ''NotAllDecisionsScheduled''"
  "reason_regexp ''NoManagedClusterMatched''" "reason_regexp ''AllDecisionsScheduled''"
  by code_simp+

lemma known_types [simp]:
  "condition_type_regexp PlacementConditionSatisfied" "condition_type_regexp PlacementConditionMisconfigured"
  by code_simp+

text \<open>A new condition, but for its time, which is set when it is stored.\<close>

definition new_condition :: "Condition \<Rightarrow> bool" where
  "new_condition c \<longleftrightarrow> LastTransitionTime c = zero_time \<and> (\<forall>t. t \<noteq> zero_time \<longrightarrow> valid_condition (c\<lparr>LastTransitionTime := t\<rparr>))"

lemma new_conditions:
  "new_condition (newMisconfiguredCondition st)" "new_condition (newSatisfiedCondition cs es nb na nf nu st)"
  by (simp_all add: new_condition_def newMisconfiguredCondition_def newSatisfiedCondition_def condition_def
      valid_condition_def Let_def)

lemma types_update_first:
  "(\<And>x. cond_Type (f x) = cond_Type x) \<Longrightarrow> map cond_Type (update_first P f cs) = map cond_Type cs"
  by (induction cs) simp_all

lemma all_update_first: "list_all Q cs \<Longrightarrow> (\<And>x. Q x \<Longrightarrow> Q (f x)) \<Longrightarrow> list_all Q (update_first P f cs)"
  by (induction cs) simp_all

lemma SetStatusCondition_valid:
  assumes new: "new_condition c" and now: "now \<noteq> zero_time" and cs: "list_all valid_condition cs" "distinct (map cond_Type cs)"
  shows "list_all valid_condition (SetStatusCondition now cs c)" "distinct (map cond_Type (SetStatusCondition now cs c))"
    "cond_Type ` set (SetStatusCondition now cs c) = insert (cond_Type c) (cond_Type ` set cs)"
proof -
  have v: "valid_condition (c\<lparr>LastTransitionTime := now\<rparr>)" and z: "LastTransitionTime c = zero_time"
    using new now by (simp_all add: new_condition_def)
  have t: "cond_Type (update_existing now c x) = cond_Type x" for x by (simp add: update_existing_def Let_def)
  have u: "valid_condition (update_existing now c x)" if "valid_condition x" for x
    using that v z now by (simp add: update_existing_def valid_condition_def Let_def)
  show "list_all valid_condition (SetStatusCondition now cs c)"
    using cs(1) v z all_update_first [OF cs(1) u] by (simp add: SetStatusCondition_def split: option.split)
  show "distinct (map cond_Type (SetStatusCondition now cs c))"
    using cs(2) types_update_first [OF t]
    by (auto simp: SetStatusCondition_def FindStatusCondition_def find_None_iff split: option.split)
  show "cond_Type ` set (SetStatusCondition now cs c) = insert (cond_Type c) (cond_Type ` set cs)"
  proof (cases "FindStatusCondition cs (cond_Type c)")
    case None
    then show ?thesis by (simp add: SetStatusCondition_def)
  next
    case (Some x)
    then obtain i where "i < length cs" "cond_Type (cs ! i) = cond_Type c" by (auto simp: FindStatusCondition_def find_Some_iff)
    then have "cond_Type c \<in> cond_Type ` set cs" by (metis image_eqI nth_mem)
    moreover have "cond_Type ` set (SetStatusCondition now cs c) = cond_Type ` set cs"
      using arg_cong [OF types_update_first [OF t, of "\<lambda>x. cond_Type x = cond_Type c" cs], of set] Some
      by (simp add: SetStatusCondition_def)
    ultimately show ?thesis by blast
  qed
qed

lemma new_status_valid:
  assumes "new_condition a" "new_condition b" "\<And>t. StatusNow ce t \<noteq> zero_time" "valid_status st"
  shows "valid_status (new_status ce st n [a, b])"
    "{cond_Type a, cond_Type b} \<subseteq> cond_Type ` set (Conditions (new_status ce st n [a, b]))"
proof -
  note a = SetStatusCondition_valid [OF assms(1) assms(3) [of "cond_Type a"], of "Conditions st"]
  note b = SetStatusCondition_valid [OF assms(2) assms(3) [of "cond_Type b"] a(1,2)]
  show "valid_status (new_status ce st n [a, b])"
    "{cond_Type a, cond_Type b} \<subseteq> cond_Type ` set (Conditions (new_status ce st n [a, b]))"
    using assms(4) a b by (simp_all add: valid_status_def new_status_def)
qed

section \<open>Valid writes\<close>

definition valid_write :: "ManagedCluster list \<Rightarrow> Placement \<Rightarrow> action \<Rightarrow> bool" where
  "valid_write cs p a \<longleftrightarrow> (case a of
     CreatePD pd \<Rightarrow> (\<exists>i \<ge> 1. Name pd = decision_name (Name p) i) \<and> Namespace pd = Namespace p \<and>
       label_of pd = Some (Name p) \<and> OwnerReferences pd = [NewControllerRef p ''cluster.open-cluster-management.io/v1beta1'' ''Placement''] \<and>
       Decisions pd = []
   | UpdatePDStatus pd \<Rightarrow> (\<exists>i \<ge> 1. Name pd = decision_name (Name p) i) \<and> Namespace pd = Namespace p \<and>
       length (Decisions pd) \<le> 100 \<and> distinct (map ClusterName (Decisions pd)) \<and>
       ClusterName ` set (Decisions pd) \<subseteq> Name ` set cs
   | UpdatePlacementStatus q \<Rightarrow> (\<exists>st. q = p\<lparr>PStatus := st\<rparr>) \<and> valid_status (PStatus q) \<and>
       {PlacementConditionSatisfied, PlacementConditionMisconfigured} \<subseteq> cond_Type ` set (Conditions (PStatus q))
   | _ \<Rightarrow> True)"

lemma slice_names:
  assumes "distinct (map ClusterName ds)" "s \<in> set (decision_slices (sort_key ClusterName ds))"
  shows "distinct (map ClusterName s)" "ClusterName ` set s \<subseteq> ClusterName ` set ds"
proof -
  have "distinct (map f xs)" if "distinct (map f (concat xss))" "xs \<in> set xss" for f :: "ClusterDecision \<Rightarrow> string" and xs xss
    using that by (induction xss) auto
  moreover have "mset (map ClusterName (concat (decision_slices (sort_key ClusterName ds)))) = mset (map ClusterName ds)" by simp
  then have "distinct (map ClusterName (concat (decision_slices (sort_key ClusterName ds))))"
    using assms(1) by (rule mset_eq_imp_distinct_iff [THEN iffD2])
  ultimately show "distinct (map ClusterName s)" using assms(2) by blast
  have "set s \<subseteq> set (concat (decision_slices (sort_key ClusterName ds)))" unfolding set_concat using assms(2) by blast
  also have "\<dots> = set ds" by (simp only: concat_decision_slices set_sort)
  finally show "ClusterName ` set s \<subseteq> ClusterName ` set ds" by (rule image_mono)
qed

lemma slice_valid:
  assumes "slice_action p (decision_slices (sort_key ClusterName ds)) a" "distinct (map ClusterName ds)"
    "ClusterName ` set ds \<subseteq> Name ` set cs"
  shows "valid_write cs p a"
proof -
  obtain i where i: "i < length (decision_slices (sort_key ClusterName ds))"
    "writes p (decision_name (Name p) (i + 1)) (decision_slices (sort_key ClusterName ds) ! i) a"
    using assms(1) by (auto simp: slice_action_def)
  note s = slice_names [OF assms(2) nth_mem [OF i(1)]]
  have n: "\<exists>j \<ge> 1. decision_name (Name p) (i + 1) = decision_name (Name p) j" by (intro exI [of _ "i + 1"]) simp
  show ?thesis
  proof (cases a)
    case (UpdatePDStatus pd)
    then show ?thesis using i(2) s decision_slices_bound [OF nth_mem [OF i(1)]] assms(3) n
      by (auto simp: valid_write_def pd_key_def)
  qed (use i(2) n in \<open>auto simp: valid_write_def new_decision_def\<close>)
qed

text \<open>What a reconciliation of a placement writes, given what the scheduler returns.\<close>

lemma syncPlacement_writes:
  assumes s: "syncPlacement (on_server c fails S shown) p tr0 = Some (r, tr)" and p: "wf_meta p" "valid_status (PStatus p)"
    and now: "\<And>t. StatusNow (cenv c) t \<noteq> zero_time"
    and sched: "\<And>cls res st. placement_clusters c p = Inr cls \<Longrightarrow> scheduler c tr0 p cls = Some (res, st) \<Longrightarrow>
      distinct (map ClusterName (sched_Decisions res)) \<and> ClusterName ` set (sched_Decisions res) \<subseteq> Name ` set cs"
  shows "\<exists>acts. tr = tr0 @ acts \<and> list_all (valid_write cs p \<circ> fst) acts"
  using s
proof (cases rule: syncPlacement_cases)
  case (bound cls res st e1 tr1)
  let ?c = "on_server c fails S shown" and ?ss = "decision_slices (sort_key ClusterName (sched_Decisions res))"
  have sn: "slash \<notin> set (Namespace p)" "Namespace p \<noteq> []" using p(1) by (simp_all add: wf_meta_def)
  have cls: "placement_clusters c p = Inr cls" using bound(2) by simp
  have d: "distinct (map ClusterName (sched_Decisions res))" "ClusterName ` set (sched_Decisions res) \<subseteq> Name ` set cs"
    using sched [OF cls] bound(3) by simp_all
  have "\<exists>a0. requeue p (sched_RequeueAfter res) tr0 = tr0 @ a0 \<and> list_all (valid_write cs p \<circ> fst) a0"
    by (cases "sched_RequeueAfter res") (auto simp: requeue_def valid_write_def)
  then obtain a0 where a0: "requeue p (sched_RequeueAfter res) tr0 = tr0 @ a0" "list_all (valid_write cs p \<circ> fst) a0" by blast
  from server.bind_trace [OF bound(4) sn] obtain ws dels pds where b: "tr1 = requeue p (sched_RequeueAfter res) tr0 @ ws @ dels"
    "list_all (slice_action p ?ss \<circ> fst) ws" "list_all (redundant_action p ?ss pds \<circ> fst) dels" by blast
  have "valid_write cs p a" if "redundant_action p ?ss pds a" for a
    using that by (cases a) (simp_all add: redundant_action_def valid_write_def)
  then have v: "list_all (valid_write cs p \<circ> fst) (a0 @ ws @ dels)"
    using a0(2) b(2,3) slice_valid [OF _ d] by (auto simp: list_all_iff)
  obtain bs where rs: "run_status c p cls res st = [newMisconfiguredCondition st,
      newSatisfiedCondition (ClusterSets (Spec p)) (getEligibleClusterSets p bs) (length bs) (length cls)
        (length (sched_Decisions res)) (NumOfUnscheduled res) st]"
    using cls by (auto simp: placement_clusters_def run_status_def split: sum.splits)
  have "valid_write cs p (UpdatePlacementStatus (p\<lparr>PStatus := new_status (cenv c) (PStatus p) n (run_status c p cls res st)\<rparr>))" for n
    using new_status_valid [OF new_conditions now p(2)] unfolding rs by (auto simp: valid_write_def)
  moreover have "tr = tr1 \<or> (\<exists>b. tr = tr1 @ [(UpdatePlacementStatus (p\<lparr>PStatus :=
      new_status (cenv c) (PStatus p) (word_of_nat (length (sched_Decisions res))) (run_status c p cls res st)\<rparr>), b)])"
    using s unfolding syncPlacement_scheduled [OF bound(1-3)] bound(4)
    by (auto simp: updateStatus_def Let_def split: option.splits if_splits)
  ultimately show ?thesis using v a0(1) b(1) by auto
qed simp

text \<open>C6: every write conforms to its type. Whatever fails and whatever old state the cache shows, the
  calls of a reconciliation create only PlacementDecisions with the numbered name, label and owner of
  their placement, write only at most 100 decisions for different clusters that exist and are available
  to the placement, and write only statuses whose conditions are valid (type, status, reason, time),
  have different types, and contain both conditions of a placement, if those of the placement were valid
  before.\<close>

theorem writes_conform:
  assumes "connected c w" "wf_world w" "\<And>tr. env_orders (e tr)" "\<And>t. StatusNow (cenv c) t \<noteq> zero_time"
    "\<forall>p \<in> set (wPlacements w). valid_status (PStatus p)"
    "sync (on_server (with_scheduler c e h) fails S shown) key [] = Some (r, tr)" "(a, ok) \<in> set tr"
  shows "\<exists>p \<in> set (wPlacements w). placement_queue_key p = key \<and>
    valid_write (filter (available_to (wSets w) (wBindings w) p) (wClusters w)) p a"
  using assms(1,2,6)
proof (cases rule: sync_of_key)
  case absent
  then show ?thesis using assms(7) by simp
next
  case (present p)
  let ?cs = "filter (available_to (wSets w) (wBindings w) p) (wClusters w)"
  obtain cls where cls: "placement_clusters (with_scheduler c e h) p = Inr cls" "distinct (map Name cls)"
    "set cls = {cl \<in> set (wClusters w). available_to (wSets w) (wBindings w) p cl}"
    by (rule connected_clusters [OF assms(1,2) present(1)])
  have "distinct (map ClusterName (sched_Decisions res)) \<and> ClusterName ` set (sched_Decisions res) \<subseteq> Name ` set ?cs"
    if "placement_clusters (with_scheduler c e h) p = Inr cls'" "scheduler (with_scheduler c e h) [] p cls' = Some (res, st)"
    for cls' res st
  proof -
    have s: "Schedule (e []) (NewPluginScheduler (h [])) p cls = Some (res, st)" using that cls(1) by simp
    show ?thesis
    proof (cases "IsError (Some st)")
      case True
      then show ?thesis using plugin_sched.chosen_clusters [OF assms(3) s cls(2)] by simp
    next
      case False
      have "Name ` {c \<in> set cls. eligible (e []) (h []) p c} \<subseteq> Name ` set ?cs" using cls(3) by auto
      then show ?thesis using chosen_names(1,2) [OF assms(3) s False cls(2)] by blast
    qed
  qed
  moreover have "\<And>t. StatusNow (cenv (with_scheduler c e h)) t \<noteq> zero_time" using assms(4) by simp
  ultimately have "\<exists>acts. tr = [] @ acts \<and> list_all (valid_write ?cs p \<circ> fst) acts"
    using assms(5) present(1) wf_world_placements [OF assms(2)] by (intro syncPlacement_writes [OF present(3)]) auto
  then have "valid_write ?cs p a" using assms(7) by (auto simp: list_all_iff dest: bspec)
  then show ?thesis using present(1,2) by blast
qed

text \<open>In the sample world the first reconciliation sets a status.\<close>

theorem writes_conform_witness:
  "\<exists>proc tr q. RunControllerManager (context_of sample_context sample_world) = Inr proc \<and>
    sync (fresh_server (run_controller proc) no_failures []) ''ns/p'' [] = Some (None, tr) \<and>
    (UpdatePlacementStatus q, True) \<in> set tr \<and> q = world_placement\<lparr>PStatus := PStatus q\<rparr> \<and> valid_status (PStatus q) \<and>
    PlacementConditionSatisfied \<in> cond_Type ` set (Conditions (PStatus q))"
proof -
  let ?w = sample_world and ?p = world_placement
  have i: "world_inv ?w" by (rule world_reachable_inv [OF sample_world_reachable])
  then have wf: "wf_world ?w" by (simp add: world_inv_def)
  obtain proc where proc: "RunControllerManager (context_of sample_context ?w) = Inr proc"
    using process_starts [OF sample_context_good] by blast
  note c = process_connected [OF sample_context_good proc wf]
  have p: "?p \<in> set (wPlacements ?w)" by simp
  obtain cls res st tr where r: "placement_clusters (run_controller proc) ?p = Inr cls"
    "sync (fresh_server (run_controller proc) no_failures (wStore ?w)) (placement_queue_key ?p) [] = Some (None, tr)"
    "status_after ?p tr = new_status (CEnv sample_context) (PStatus ?p) (word_of_nat (length (sched_Decisions res)))
      (run_status (run_controller proc) ?p cls res st)"
    by (rule first_run [OF sample_context_good i sample_world_calm proc p world_placement_ok(2)])
  have "Conditions (status_after ?p tr) \<noteq> []" using r(3) run_status_two [OF r(1)] new_status_shown by metis
  moreover have none: "Conditions (PStatus ?p) = []" by (simp add: world_placement_def builder_defs record_builders)
  ultimately have "status_written tr" using status_unwritten [of tr ?p] by metis
  then obtain q where q: "(UpdatePlacementStatus q, True) \<in> set tr" by (auto simp: status_written_def)
  have key: "placement_queue_key ?p = ''ns/p''"
    by (simp add: placement_queue_key_def MetaNamespaceKey_def slash_def) (simp add: world_placement_def)
  have e: "env_orders (SchedEnvAt sample_context tr)" for tr using sample_env_ok(1) by simp
  have now: "StatusNow (cenv (run_controller proc)) t \<noteq> zero_time" for t
    using manager_parts(7) [OF proc] by (simp add: sample_cenv_def zero_time_def)
  have "\<forall>p \<in> set (wPlacements ?w). valid_status (PStatus p)" using none by (simp add: valid_status_def)
  note w = writes_conform [where e = "SchedEnvAt sample_context" and h = "hub_handle sample_context ?w" and fails = no_failures and S = "wStore ?w" and shown = "store_of (wStore ?w)", OF c(1) wf e now this]
  have "\<exists>p \<in> set (wPlacements ?w). valid_write (filter (available_to (wSets ?w) (wBindings ?w) p) (wClusters ?w)) p (UpdatePlacementStatus q)"
    using w [unfolded c(2), OF r(2) q] by blast
  then have "(\<exists>s. q = ?p\<lparr>PStatus := s\<rparr>)" "valid_status (PStatus q)"
    "PlacementConditionSatisfied \<in> cond_Type ` set (Conditions (PStatus q))"
    by (simp_all add: valid_write_def)
  moreover from this(1) have "q = ?p\<lparr>PStatus := PStatus q\<rparr>" by auto
  ultimately show ?thesis using proc r(2) q by (auto simp: key)
qed

end
