(* ===== verification/Turns.thy ===== *)
theory Turns
  imports Converge
begin

text \<open>
  The process has one worker (\<open>Run(ctx, 1)\<close> in \<open>pkg/controllers/manager.go\<close>), which takes the keys in
  the order in which the work queue holds them, first in first out, and a key that is queued while it is
  worked on goes to the end. Then in a calm world every placement is placed within a number of steps
  that is known beforehand, and stays placed, also when the placements move for ever (theory Rivals):
  each of them always has clusters that are available to it.
\<close>

section \<open>Taking turns\<close>

inductive turn :: "controllerContext \<Rightarrow> hub_world \<Rightarrow> hub_world \<Rightarrow> bool" for cc where
  arrival_first: "arrival w w' \<Longrightarrow> turn cc w w'"
| head_taken: "undisturbed_step cc (hd (wQueue w)) w w' \<Longrightarrow> turn cc w w'"

text \<open>A run goes on as long as a step is possible; then it stays where it is.\<close>

definition in_turn :: "controllerContext \<Rightarrow> (nat \<Rightarrow> hub_world) \<Rightarrow> bool" where
  "in_turn cc f \<longleftrightarrow> (\<forall>i. turn cc (f i) (f (Suc i)) \<or> f (Suc i) = f i \<and> (\<nexists>w. turn cc (f i) w))"

lemma turn_process: "turn cc w w' \<Longrightarrow> process_step cc w w'"
  by (auto elim!: turn.cases intro: process_step.intros)

lemma in_turn_steps:
  assumes "in_turn cc f"
  shows "(process_step cc)\<^sup>*\<^sup>* (f i) (f (i + n))"
proof (induction n)
  case (Suc n)
  have "f (i + Suc n) = f (i + n) \<or> process_step cc (f (i + n)) (f (i + Suc n))"
    using assms turn_process [of cc "f (i + n)" "f (i + Suc n)"] by (auto simp: in_turn_def)
  then show ?case using Suc by (metis rtranclp.rtrancl_into_rtrancl)
qed simp

section \<open>Placed as asked\<close>

text \<open>As many clusters as the placement asks for, or all that qualify, whatever decisions are shown.\<close>

definition as_asked :: "controllerContext \<Rightarrow> hub_world \<Rightarrow> Placement \<Rightarrow> bool" where
  "as_asked cc w p \<longleftrightarrow> (\<forall>h. card (placed (lookup (wStore w)) (placement_key p)) =
     asked p (card (good_clusters (wClusters w) (wSets w) (wBindings w) (SchedEnvAt cc []) h p)))"

definition served :: "controllerContext \<Rightarrow> hub_world \<Rightarrow> Placement \<Rightarrow> bool" where
  "served cc w p \<longleftrightarrow> well_placed w p \<and> as_asked cc w p"

lemma served_cong:
  assumes "wClusters w' = wClusters w" "wSets w' = wSets w" "wBindings w' = wBindings w"
    "decisions_view (lookup (wStore w')) (placement_key p) = decisions_view (lookup (wStore w)) (placement_key p)"
  shows "well_placed w' p = well_placed w p" "served cc w' p = served cc w p"
  using assms by (simp_all add: served_def as_asked_def well_placed_def suitable_def placed_def)

lemma served_status [simp]: "served cc w (p\<lparr>PStatus := st\<rparr>) = served cc w p"
  by (simp add: served_def as_asked_def asked_def good_clusters_def eligible_def available_to_def
      getDecisionClusterNames_def)

lemma queue_key_status [simp]: "placement_queue_key (p\<lparr>PStatus := st\<rparr>) = placement_queue_key p"
  by (simp add: placement_queue_key_def MetaNamespaceKey_def)

text \<open>The reconciliation of a placement serves it.\<close>

lemma own_step_served:
  assumes cc: "good_context cc" and i: "world_inv w" "calm w" and p: "p \<in> set (wPlacements w)" "active p"
    and s: "undisturbed_step cc (placement_queue_key p) w w'"
  shows "served cc w' p"
proof -
  have wf: "wf_world w" using i(1) by (simp add: world_inv_def)
  have same: "wClusters w' = wClusters w" "wSets w' = wSets w" "wBindings w' = wBindings w"
    using calm_step [OF cc i(1) s i(2)] by simp_all
  from cc i(1) s obtain proc r tr where proc: "RunControllerManager (context_of cc w) = Inr proc"
    "sync (fresh_server (run_controller proc) no_failures (wStore w)) (placement_queue_key p) [] = Some (r, tr)"
    "wStore w' = store_of (wStore w) tr"
  proof (cases rule: undisturbed_form)
    case absent
    then show thesis using p(1) by blast
  next
    case (present p' proc r tr q)
    then show thesis by (intro that [OF present(5,6)]) (simp add: wStore_def)
  qed
  obtain cls res st where cls: "placement_clusters (run_controller proc) p = Inr cls" "distinct (map Name cls)"
    and run: "Schedule (SchedEnvAt cc []) (NewPluginScheduler (hub_handle cc w [])) p cls = Some (res, st)" "code st = Success"
    and view: "decisions_view (decs_of (wStore w) tr) (placement_key p) = wanted_decisions p (sched_Decisions res)"
    using first_run [OF cc i proc(1) p] proc(2) by (metis option.inject prod.inject)
  note c = process_connected [OF cc proc(1) wf]
  obtain cls' where "placement_clusters (run_controller proc) p = Inr cls'"
    "set cls' = {cl \<in> set (wClusters w). available_to (wSets w) (wBindings w) p cl}"
    using connected_clusters [OF c(1) wf p(1), of "SchedEnvAt cc" "hub_handle cc w"] c(2) by metis
  then have set: "set cls = {cl \<in> set (wClusters w). available_to (wSets w) (wBindings w) p cl}" using cls(1) by simp
  have view': "decisions_view (lookup (wStore w')) (placement_key p) = wanted_decisions p (sched_Decisions res)"
    using view proc(3) by (simp add: decs_of_def)
  have env: "env_orders (SchedEnvAt cc [])" using cc by (simp add: good_context_def)
  have chosen: "ClusterName ` set (sched_Decisions res) \<subseteq> Name ` {c \<in> set cls. eligible (SchedEnvAt cc []) (hub_handle cc w []) p c}"
    "card (ClusterName ` set (sched_Decisions res)) = asked p (card {c \<in> set cls. eligible (SchedEnvAt cc []) (hub_handle cc w []) p c})"
    using plugin_sched.chosen_clusters [OF env run(1) cls(2)] run(2) by (simp_all add: IsError_Some)
  have "{c \<in> set cls. eligible (SchedEnvAt cc []) (hub_handle cc w []) p c} \<subseteq> suitable w' p"
    using set by (auto simp: suitable_def same matches_predicates_def eligible_def)
  then have "well_placed w' p" unfolding well_placed_def using view' chosen(1) by blast
  moreover have "as_asked cc w' p"
    unfolding as_asked_def
  proof
    fix h
    have "plain_taints (wClusters w)" using i(2) by (simp add: calm_def)
    then have "eligible (SchedEnvAt cc []) h p c = eligible (SchedEnvAt cc []) (hub_handle cc w []) p c" if "c \<in> set (wClusters w)" for c
      using that by (rule eligible_plain)
    then have "{c \<in> set cls. eligible (SchedEnvAt cc []) (hub_handle cc w []) p c} =
        good_clusters (wClusters w) (wSets w) (wBindings w) (SchedEnvAt cc []) h p"
      unfolding set good_clusters_def by auto
    then show "card (placed (lookup (wStore w')) (placement_key p)) =
        asked p (card (good_clusters (wClusters w') (wSets w') (wBindings w') (SchedEnvAt cc []) h p))"
      using chosen(2) placed_wanted [OF view'] by (simp add: same)
  qed
  ultimately show ?thesis by (simp add: served_def)
qed

text \<open>No step of the process takes a placement out of its place.\<close>

lemma step_keeps:
  assumes cc: "good_context cc" and i: "world_inv w" "calm w" and p: "p \<in> set (wPlacements w)" "active p"
    and s: "process_step cc w w'"
  shows "served cc w' p \<or> (well_placed w' p = well_placed w p \<and> served cc w' p = served cc w p)"
  using s
proof cases
  case arrives
  then have "wStore w' = wStore w" "wClusters w' = wClusters w" "wSets w' = wSets w" "wBindings w' = wBindings w"
    by (auto elim!: arrival.cases simp: wStore_def)
  then show ?thesis using served_cong [of w' w p] by simp
next
  case (reconciles key)
  have wf: "wf_world w" using i(1) by (simp add: world_inv_def)
  have hub: "hub_inv (wStore w)" by (rule world_hub_inv(1) [OF i(1)])
  have same: "wClusters w' = wClusters w" "wSets w' = wSets w" "wBindings w' = wBindings w"
    using calm_step [OF cc i(1) reconciles i(2)] by simp_all
  show ?thesis
  proof (cases "key = placement_queue_key p")
    case True
    then show ?thesis using own_step_served [OF cc i p] reconciles by blast
  next
    case False
    from cc i(1) reconciles have "decisions_view (lookup (wStore w')) (placement_key p) =
        decisions_view (lookup (wStore w)) (placement_key p)"
    proof (cases rule: undisturbed_form)
      case absent
      then show ?thesis by (simp add: wStore_def)
    next
      case (present p' proc r tr q)
      have S: "foldl store_step (wStore w) tr = store_of (wStore w) tr"
        using hub by (simp add: store_of_def admit_id hub_inv_def)
      have "placement_key p \<noteq> placement_key p'" using False present(2) by (intro other_key(1)) simp
      moreover have "hub_inv (store_of (wStore w) tr)" by (rule store_of_inv [OF hub present(8)])
      ultimately have "decisions_view (lookup (store_of (wStore w) tr)) (placement_key p) =
          decisions_view (lookup (wStore w)) (placement_key p)"
        using own_others_view [OF hub, of tr p' p] present(7) S by simp
      moreover have "wStore w' = store_of (wStore w) tr" using present(4,11) by (simp add: wStore_def)
      ultimately show ?thesis by simp
    qed
    then show ?thesis using served_cong [OF same] by simp
  qed
qed

section \<open>Progress in the queue\<close>

lemma take_removeAll: "x \<in> set (take m ks) \<Longrightarrow> x \<noteq> k \<Longrightarrow> x \<in> set (take m (removeAll k ks))"
proof (induction ks arbitrary: m)
  case (Cons y ks)
  then obtain n where m: "m = Suc n" by (cases m) auto
  have "set (take n (removeAll k ks)) \<subseteq> set (take m (removeAll k ks))" by (rule set_take_subset_set_take) (simp add: m)
  then show ?case using Cons m by auto
qed simp

lemma turn_queue:
  assumes cc: "good_context cc" and i: "world_inv w" and s: "undisturbed_step cc k w w'" and q: "wQueue w = k # ks"
  shows "wQueue w' \<in> {removeAll k ks, removeAll k ks @ [k]}"
  using cc i s
proof (cases rule: undisturbed_form)
  case absent
  then show ?thesis using q by simp
next
  case (present p proc r tr q)
  have "queue_Add (removeAll k ks) k = removeAll k ks @ [k]" "queue_Add (removeAll k ks @ [k]) k = removeAll k ks @ [k]"
    by (simp_all add: queue_Add_def sets_insert_def)
  then show ?thesis using present(10,11) \<open>wQueue w = k # ks\<close> by auto
qed

text \<open>A step of the process in a world in which nothing is on its way brings every key one place forward.\<close>

lemma turn_forward:
  assumes cc: "good_context cc" and i: "world_inv w" "calm w" and p: "p \<in> set (wPlacements w)" "active p"
    and pend: "wPending w = []" and s: "turn cc w w'"
    and q: "served cc w p \<or> placement_queue_key p \<in> set (take (Suc m) (wQueue w))"
  shows "served cc w' p \<or> placement_queue_key p \<in> set (take m (wQueue w'))"
proof (cases "served cc w p")
  case True
  then show ?thesis using step_keeps [OF cc i p turn_process [OF s]] by blast
next
  case False
  let ?k = "placement_queue_key p"
  from False q obtain k ks where ks: "wQueue w = k # ks" by (cases "wQueue w") auto
  from s have u: "undisturbed_step cc k w w'" using pend ks by (auto elim!: turn.cases arrival.cases)
  show ?thesis
  proof (cases "?k = k")
    case True
    then show ?thesis using own_step_served [OF cc i p] u by blast
  next
    case other: False
    then have "?k \<in> set (take m ks)" using False q ks by auto
    from take_removeAll [OF this other] show ?thesis using turn_queue [OF cc i(1) u ks] by auto
  qed
qed

text \<open>What holds at every point of a run.\<close>

lemma in_turn_state:
  assumes "world_reachable (f 0)" "good_context cc" "calm (f 0)" "in_turn cc f" "p \<in> set (wPlacements (f 0))"
  shows "world_inv (f n)" "calm (f n)" "\<exists>st. p\<lparr>PStatus := st\<rparr> \<in> set (wPlacements (f n))"
proof -
  have s: "(process_step cc)\<^sup>*\<^sup>* (f 0) (f n)" using in_turn_steps [OF assms(4), of 0 n] by simp
  note i = world_reachable_inv [OF assms(1)]
  show "world_inv (f n)" "calm (f n)" using process_steps_inv [OF s assms(2) i assms(3)] by simp_all
  show "\<exists>st. p\<lparr>PStatus := st\<rparr> \<in> set (wPlacements (f n))" by (rule keeps_placements [OF s assms(2) i assms(3,5)])
qed

lemma in_turn_keeps:
  assumes run: "world_reachable (f 0)" "good_context cc" "calm (f 0)" "in_turn cc f" "p \<in> set (wPlacements (f 0))"
    and p: "active p"
  shows "well_placed (f n) p \<Longrightarrow> well_placed (f (n + k)) p" "served cc (f n) p \<Longrightarrow> served cc (f (n + k)) p"
proof -
  have step: "(well_placed (f i) p \<longrightarrow> well_placed (f (Suc i)) p) \<and> (served cc (f i) p \<longrightarrow> served cc (f (Suc i)) p)" for i
  proof (cases "turn cc (f i) (f (Suc i))")
    case True
    note st = in_turn_state [OF run, of i]
    obtain u where u: "p\<lparr>PStatus := u\<rparr> \<in> set (wPlacements (f i))" using st(3) by blast
    have "active (p\<lparr>PStatus := u\<rparr>)" using p by simp
    from step_keeps [OF run(2) st(1,2) u this turn_process [OF True]]
    have "served cc (f (Suc i)) p \<or> well_placed (f (Suc i)) p = well_placed (f i) p \<and> served cc (f (Suc i)) p = served cc (f i) p"
      by simp
    then show ?thesis by (auto simp: served_def)
  next
    case False
    then have "f (Suc i) = f i" using run(4) by (auto simp: in_turn_def)
    then show ?thesis by simp
  qed
  show "well_placed (f n) p \<Longrightarrow> well_placed (f (n + k)) p" by (induction k) (use step in simp_all)
  show "served cc (f n) p \<Longrightarrow> served cc (f (n + k)) p" by (induction k) (use step in simp_all)
qed

text \<open>First the changes on their way arrive.\<close>

lemma in_turn_arrivals:
  assumes "in_turn cc f" "i \<le> length (wPending (f 0))"
  shows "length (wPending (f i)) = length (wPending (f 0)) - i \<and> set (wQueue (f 0)) \<subseteq> set (wQueue (f i)) \<and>
    length (wQueue (f i)) \<le> length (wQueue (f 0)) + i"
  using assms(2)
proof (induction i)
  case (Suc i)
  then obtain x xs where x: "wPending (f i) = x # xs" by (cases "wPending (f i)") auto
  then have "turn cc (f i) (f (Suc i))" using assms(1) arrival.intros arrival_first unfolding in_turn_def by blast
  then have "arrival (f i) (f (Suc i))" using x by (auto elim!: turn.cases undisturbed_step.cases)
  then have f: "wPending (f (Suc i)) = xs" "wQueue (f (Suc i)) = decision_event (change_of (wCache (f i)) x) (wQueue (f i))"
    using x by (auto elim!: arrival.cases)
  have q: "set (wQueue (f i)) \<subseteq> set (wQueue (f (Suc i))) \<and> length (wQueue (f (Suc i))) \<le> Suc (length (wQueue (f i)))"
    unfolding f(2) by (auto simp: decision_event_def queue_Add_def sets_insert_def split: option.splits)
  have IH: "length (wPending (f i)) = length (wPending (f 0)) - i" "set (wQueue (f 0)) \<subseteq> set (wQueue (f i))"
    "length (wQueue (f i)) \<le> length (wQueue (f 0)) + i" using Suc by simp_all
  have "length xs = length (wPending (f 0)) - Suc i" using IH(1) x by simp
  then show ?case using f(1) q IH(2,3) by auto
qed simp

lemma in_turn_quiet:
  assumes run: "world_reachable (f 0)" "good_context cc" "calm (f 0)" "in_turn cc f" "p \<in> set (wPlacements (f 0))"
    and n: "length (wPending (f 0)) \<le> n"
  shows "wPending (f n) = []"
proof -
  have "wPending (f (length (wPending (f 0)) + k)) = []" for k
  proof (induction k)
    case 0
    then show ?case using in_turn_arrivals [OF run(4) order_refl] by simp
  next
    case (Suc k)
    let ?i = "length (wPending (f 0)) + k"
    show ?case
    proof (cases "turn cc (f ?i) (f (Suc ?i))")
      case True
      then have "undisturbed_step cc (hd (wQueue (f ?i))) (f ?i) (f (Suc ?i))" using Suc by (auto elim!: turn.cases arrival.cases)
      then show ?thesis using calm_step [OF run(2)] in_turn_state [OF run, of ?i] by simp
    next
      case False
      then have "f (Suc ?i) = f ?i" using run(4) by (auto simp: in_turn_def)
      then show ?thesis using Suc by simp
    qed
  qed
  from this [of "n - length (wPending (f 0))"] n show ?thesis by simp
qed

text \<open>Then each waiting key has its turn.\<close>

lemma in_turn_served:
  assumes run: "world_reachable (f 0)" "good_context cc" "calm (f 0)" "in_turn cc f" "p \<in> set (wPlacements (f 0))"
    and p: "active p" and n: "length (wPending (f 0)) \<le> n"
    and k: "placement_queue_key p \<in> set (take m (wQueue (f n)))"
  shows "served cc (f (n + m)) p"
proof -
  have "served cc (f (n + i)) p \<or> placement_queue_key p \<in> set (take (m - i) (wQueue (f (n + i))))" if "i \<le> m" for i
    using that
  proof (induction i)
    case 0
    then show ?case using k by simp
  next
    case (Suc i)
    let ?j = "n + i"
    note st = in_turn_state [OF run, of ?j]
    obtain u where u: "p\<lparr>PStatus := u\<rparr> \<in> set (wPlacements (f ?j))" using st(3) by blast
    have a: "active (p\<lparr>PStatus := u\<rparr>)" using p by simp
    have pend: "wPending (f ?j) = []" using in_turn_quiet [OF run, of ?j] n by simp
    have IH: "served cc (f ?j) p \<or> placement_queue_key p \<in> set (take (Suc (m - Suc i)) (wQueue (f ?j)))"
      using Suc by (simp add: Suc_diff_Suc)
    show ?case
    proof (cases "turn cc (f ?j) (f (Suc ?j))")
      case True
      from turn_forward [OF run(2) st(1,2) u a pend True, of "m - Suc i"] IH show ?thesis by simp
    next
      case False
      then have same: "f (Suc ?j) = f ?j" "\<nexists>w. turn cc (f ?j) w" using run(4) by (auto simp: in_turn_def)
      have "wQueue (f ?j) = []"
      proof (rule ccontr)
        assume "wQueue (f ?j) \<noteq> []"
        then have "hd (wQueue (f ?j)) \<in> set (wQueue (f ?j))" by simp
        from step_exists [OF run(2) st(1,2) this pend] show False using same(2) head_taken by blast
      qed
      then show ?thesis using IH same(1) by simp
    qed
  qed
  from this [of m] show ?thesis by simp
qed

text \<open>C7: every placement has its turn. Take a reachable world in which scheduling is stable, whatever is on
  its way to the cache. When the process takes the keys in the order of the work queue and nothing fails
  and nothing else happens, then after two steps for each change on its way and one for each waiting key,
  at every later point of the run, every active placement has decisions on clusters that are available to
  it and match its predicates; and a placement that waited in the queue has as many as it asks for, or
  all that qualify. This holds whether or not the run ever ends.\<close>

theorem served_in_turn:
  assumes "world_reachable (f 0)" "good_context cc" "calm (f 0)" "in_turn cc f" "p \<in> set (wPlacements (f 0))" "active p"
    "2 * length (wPending (f 0)) + length (wQueue (f 0)) \<le> n"
  shows "well_placed (f n) p \<and> (placement_queue_key p \<in> set (wQueue (f 0)) \<longrightarrow> as_asked cc (f n) p)"
proof -
  let ?a = "length (wPending (f 0))" and ?k = "placement_queue_key p"
  note arr = in_turn_arrivals [OF assms(4) order_refl]
  define m where "m = length (wQueue (f ?a))"
  have m: "?a + m \<le> n" using arr assms(7) by (simp add: m_def)
  have waits: "served cc (f n) p" if "?k \<in> set (wQueue (f ?a))"
  proof -
    have "served cc (f (?a + m)) p" by (rule in_turn_served [OF assms(1-6)]) (simp_all add: that m_def)
    from in_turn_keeps(2) [OF assms(1-6) this, of "n - (?a + m)"] show ?thesis using m by simp
  qed
  show ?thesis
  proof (cases "?k \<in> set (wQueue (f ?a))")
    case True
    then show ?thesis using waits by (simp add: served_def)
  next
    case False
    note st = in_turn_state [OF assms(1-5), of ?a]
    obtain u where u: "p\<lparr>PStatus := u\<rparr> \<in> set (wPlacements (f ?a))" using st(3) by blast
    have "\<not> outstanding (f ?a) (p\<lparr>PStatus := u\<rparr>)" using arr by (simp add: outstanding_def)
    moreover have "placement_queue_key (p\<lparr>PStatus := u\<rparr>) \<notin> set (wQueue (f ?a))" using False by simp
    ultimately have "well_placed (f ?a) (p\<lparr>PStatus := u\<rparr>)"
      using st(1) u assms(6) by (auto simp: world_inv_def simp del: well_placed_status)
    then have "well_placed (f n) p"
      using in_turn_keeps(1) [OF assms(1-6), of ?a "n - ?a"] m by simp
    then show ?thesis using False arr by blast
  qed
qed

lemma run_in_turn: "\<exists>f. f 0 = w \<and> in_turn cc f"
proof -
  have "\<exists>y. turn cc x y \<or> y = x \<and> (\<nexists>w. turn cc x w)" for x by blast
  then obtain f where "f 0 = w" "\<And>i. turn cc (f i) (f (Suc i)) \<or> f (Suc i) = f i \<and> (\<nexists>w. turn cc (f i) w)"
    using dependent_nat_choice [of "\<lambda>i x. i = 0 \<longrightarrow> x = w" "\<lambda>i x y. turn cc x y \<or> y = x \<and> (\<nexists>w. turn cc x w)"] by auto
  then show ?thesis by (auto simp: in_turn_def)
qed

theorem served_in_turn_witness:
  "\<exists>f. f 0 = sample_world \<and> in_turn sample_context f \<and> well_placed (f 1) world_placement \<and>
    as_asked sample_context (f 5) world_placement"
proof -
  obtain f where f: "f 0 = sample_world" "in_turn sample_context f" using run_in_turn by blast
  have p: "world_placement \<in> set (wPlacements (f 0))" by (simp add: f(1))
  have "2 * length (wPending (f 0)) + length (wQueue (f 0)) \<le> n" if "1 \<le> n" for n using that by (simp add: f(1))
  note s = served_in_turn [of f sample_context, OF _ sample_context_good _ f(2) p world_placement_ok(2) this]
  have "well_placed (f 1) world_placement" "as_asked sample_context (f 5) world_placement"
    using s [of 1] s [of 5] sample_world_reachable sample_world_calm by (simp_all add: f(1))
  then show ?thesis using f by blast
qed

end
