(* ===== verification/Spec2Isabelle.thy ===== *)
theory Spec2Isabelle
  imports Rivals Conform Turns
begin

text \<open>
  A verification development for the placement controller of Open Cluster Management.

  \<^bold>\<open>The program.\<close> A \<open>Placement\<close> asks for managed clusters. The controller finds the clusters
  available to it through the \<open>ManagedClusterSet\<close>s bound to its namespace, filters and scores them
  with plugins, and writes the chosen ones to \<open>PlacementDecision\<close> objects, at most 100 clusters to
  an object, and the outcome to the status of the placement. Its parts, all under \<open>pkg/\<close>:

  \<^item> \<open>controllers/framework\<close>: the status a plugin or a run returns (theory Framework);
  \<^item> \<open>plugins\<close>: two filters (PredicatePlugin, TaintToleration) and four prioritizers (Balance, Steady,
    AddOn, Resource), each behind one of the two plugin interfaces (Plugins);
  \<^item> \<open>controllers/scheduling/schedule.go\<close>: the scheduler that runs the plugins (Scheduler);
  \<^item> \<open>controllers/scheduling/scheduling_controller.go\<close>: the reconciliation of one placement
    (Controller);
  \<^item> \<open>controllers/scheduling/enqueue.go\<close> and \<open>cluster_event_handler.go\<close>: which placements a change
    puts in the work queue (Enqueue);
  \<^item> \<open>debugger\<close>: the debug endpoint (Debugger);
  \<^item> \<open>controllers/manager.go\<close>, \<open>cmd/hub\<close>, \<open>version\<close> and \<open>cmd/placement\<close>: how the process is put
    together, and its commands (Manager).

  A change of an object reaches the queue through Enqueue; the controller takes a key, reads the
  caches (Informers), calls the scheduler, writes the PlacementDecisions (\<open>bind\<close>) and the status;
  the balance and steady plugins read the decisions back through the cache.

  \<^bold>\<open>Layers.\<close> Prelude has the Go language and library: words for \<open>int64\<close> and \<open>int32\<close>, instants,
  stable sorting, iteration orders, strings, loops with early return. Float64 is IEEE double
  arithmetic rounded to nearest even on rationals, as far as the plugins use it. Labels, Api and
  Informers are the vendored code the program rests on: label selectors, the API types with the
  fields that are used, keys, listers and indices. Builders and Samples are the objects of the
  concrete runs.

  \<^bold>\<open>How code becomes definitions.\<close> A struct is a record of the same name and fields (a field whose
  name clashes has a prefix), a constant list of variants a datatype, a function or method a
  definition of the same name, with the component's name in front where several have it
  (\<open>balance_Score\<close>). A part of a long function that is a definition of its own is mapped to its
  lines. A pointer that may be nil is an option. An error is the left of a sum, mostly as its text; a
  run-time panic is \<open>None\<close>. A loop is \<open>for_each\<close> or \<open>foldl\<close>; every definition is total, so there is no
  fuel; the loop over the remaining decisions is a recursion with a measure. What the code reads of
  the world is explicit: the clock, the iteration order of each Go map and the texts of values
  printed with \<open>%v\<close> or \<open>%q\<close> are fields of an environment (\<open>PluginEnv\<close>, \<open>SchedEnv\<close>, \<open>ControllerEnv\<close>)
  that the theorems leave arbitrary; iteration orders are only assumed to be permutations. The
  calls of a reconciliation (API calls, events, requeues) are appended to a trace, each with its
  success; the API server's answers and the caches may depend on the whole trace.

  \<^bold>\<open>Interfaces.\<close> \<open>filter_plugin\<close> and \<open>prioritizer_plugin\<close> (Plugins) are the plugin contracts,
  interpreted on every plugin and on the scheduler's dispatch; \<open>ns_lister_laws\<close> (Informers) on the
  cache lister; \<open>decisions_api\<close>, \<open>fresh_api\<close> and \<open>reliable_api\<close> (ApiServer) state what \<open>bind\<close> relies on
  of the API server and its cache, each extending the one before, interpreted on the controller
  connected to a server whose objects are a function of the successful calls and whose failures are
  arbitrary; \<open>scheduler_api\<close> (EndToEnd) is what the controller relies on of a scheduler,
  interpreted on \<open>Schedule\<close>.

  \<^bold>\<open>What is proved.\<close>
  \<^item> Plugins: each filter keeps exactly the clusters its specification names and each prioritizer's
    score is in range, monotone and as documented; where the toleration time overflows.
  \<^item> Scheduler (SchedulerFacts, SchedulerProps, SchedulerScores): a closed form of a run; the decisions
    are the best eligible clusters and as many as asked; independence of iteration and input
    orders; exact scores without overflow; errors leave no decisions; when it panics; requeue
    in time.
  \<^item> Bind (ControllerFacts, ApiServer, Bind, BindProps): slices and names; which calls are made and in
    which order under any failures and a stale cache; with a fresh cache a run without error
    refines the assignment of the wanted decisions; only objects of the placement are deleted;
    idempotence; the frame.
  \<^item> Reconciliation (Reconcile, EndToEnd): when nothing is done and when it panics; the status update;
    convergence and the steady state; the whole program from cluster sets to placed clusters and
    to the satisfied condition.
  \<^item> Hub: the transition system of reconciliations that may crash after any call, with stale caches,
    failing calls and removals by others; its invariant, and recovery from every reachable state.
  \<^item> Enqueue: a cluster or score change queues exactly the placements it may concern.
  \<^item> Debugger, Manager: the answers of the endpoint; they agree with what the controller of the same
    process decides.
  \<^item> Configured: which placements are scheduled without error.
  \<^item> Stability: scheduling again with the decisions just made in place chooses the same clusters.
  \<^item> Lag: changes of PlacementDecisions on their way to the cache; a reconciliation touches only its own
    objects, and while none of their changes is on its way it has read their present state.
  \<^item> World: the transition system of caches, changes on their way, hub and queue; a placement that does
    not wait in the queue, and none of whose objects has a change on its way, is placed on clusters that
    are available to it.
  \<^item> Again, Process, Drain: the process in that world, with its own writes coming back as events; a
    second reconciliation is idle when scheduling is stable; from every state the process can empty its
    queue.
  \<^item> Turns: the process takes the keys in the order of the work queue, first in first out; then within
    a number of steps given by what is on its way and what waits, every active placement is placed, and
    it stays placed, whether or not the run ever ends.
  \<^item> Crowding, Converge: when every active placement weighs only what it has, positively, and the
    decisions of others, not negatively, as the default policy does, every run of the process ends, in
    whatever order the keys are taken, and then every active placement is placed. The measure is
    lexicographic: placements not yet in position, the crowding (the sum of the squares of the numbers of
    decisions of the clusters), what is on its way, the keys that wait.
  \<^item> Rivals: two placements with weights of opposite sign, of which no run ends; so the condition on the
    weights cannot be dropped.
  \<^item> Conform: every object and status a reconciliation writes is of the type the API asks for.

  \<^bold>\<open>Bounds.\<close> Slices have 100 decisions; event notes at most 1006 characters; score theorems
  assume the API's limits on weights (-10 to 10) and fewer configurations than would overflow, stated
  in each theorem. The messages of the conditions are not bounded, though the schema of a placement
  allows 32768 characters.

  \<^bold>\<open>Idealisations.\<close> In World the cache of PlacementDecisions lags behind the hub, and what a reconciliation
  sees of it may change while it runs; the other caches are the state of the world, so an event and its
  handlers are one step, and they do not change during a reconciliation. The changes of
  PlacementDecisions arrive one by one in their order; the watch does not skip any. World allows a
  placement to be queued at any time (a resync, a requeue after a delay, an own write). In Process an own
  write takes effect and its event arrives at once, requeues after a delay are left out, and the
  environment (clock, iteration orders) is the same in each run. A call of a plugin reads the clock
  once; the code reads it for each taint or score it compares. The balance plugin's counts of decisions
  are unbounded integers. The handle of the plugins has the listers they use, not the client and the
  recorder. \<open>Calm\<close> worlds, in which scheduling is stable, have no \<open>NoSelectIfNew\<close> taints, moderate amounts of
  resources, and active placements that are well configured without addon scores and do not weigh the
  steady prioritizer negatively.

  \<^bold>\<open>Not modelled.\<close> What client-go, library-go and cobra do: creating clients, starting and syncing
  informers, leader election, parsing flags; they are parameters of Manager. Logging, the
  HTTP writer and JSON encoding. Of the vendored code only what the program calls. Resource
  versions and optimistic concurrency of the API server, except as calls that may fail. Test
  helpers other than the builders used here. The texts that describe the plugins, which nothing reads,
  and the chained calls that only wire the informers to the queue, beyond the handlers they register.
\<close>

end
